(* ===== verification/Prelude.thy ===== *)
theory Prelude
  imports Main "HOL-Library.Word" "HOL-Library.Sublist"
begin

text \<open>
  Shared vocabulary of the development: the fixed-width integer types of the C++ sources, the
  loop combinator that models code which may run forever, the simulation locales the component
  proofs instantiate, and the contract of fixed-width byte codecs.
\<close>

unbundle bit_operations_syntax

section \<open>Machine integers\<close>

type_synonym u8 = "8 word"
type_synonym u16 = "16 word"
type_synonym u32 = "32 word"
type_synonym u64 = "64 word"

type_synonym bytes = "u8 list"

named_theorems const_defs \<open>definitions of the numeric constants of the code\<close>

text \<open>
  The masks of the code are written as hexadecimal literals; proofs about bits use them as
  \<open>mask n\<close>.
\<close>

lemma mask_literals:
  "(0x3F :: 'a::len word) = mask 6" "(7 :: 'a::len word) = mask 3"
  "(0xFFFFF :: 'a::len word) = mask 20" "(0xFF :: 'a::len word) = mask 8"
  "(0xFFF :: 'a::len word) = mask 12"
  by (simp_all add: mask_eq_exp_minus_1)

lemma unat_and_mask_less:
  fixes w :: "'a::len word"
  shows "unat (w AND mask n) < 2 ^ n"
  by (simp add: unsigned_take_bit_eq flip: take_bit_eq_mask)

text \<open>Bit operations as arithmetic on the numbers that words stand for.\<close>

lemma unat_drop_bit: "unat (drop_bit n v) = unat v div 2 ^ n" for v :: "'a::len word"
proof -
  have "take_bit LENGTH('a) (unat v) = unat v"
    by (rule take_bit_nat_eq_self) (rule unsigned_less)
  moreover have "unat (drop_bit n v) = drop_bit n (take_bit LENGTH('a) (unat v))"
    by (rule unsigned_drop_bit_eq)
  ultimately show ?thesis by (simp only: drop_bit_eq_div)
qed

lemma unat_and_mask: "unat (v AND mask n) = unat v mod 2 ^ n" for v :: "'a::len word"
proof -
  have "unat (v AND mask n) = unat (take_bit n v)" by (simp only: take_bit_eq_mask)
  also have "\<dots> = take_bit n (unat v)" by (rule unsigned_take_bit_eq)
  finally show ?thesis by (simp only: take_bit_eq_mod)
qed

lemma unat_narrow: "unat (ucast v :: 'a::len word) = unat v mod 2 ^ LENGTH('a)" for v :: "'b::len word"
  by (simp only: unsigned_ucast_eq take_bit_eq_mod)

lemma nat_or_push_bit: "x < 2 ^ n \<Longrightarrow> x OR push_bit n y = x + y * 2 ^ n" for x y :: nat
proof -
  assume "x < 2 ^ n"
  then have "x = take_bit n x" by (simp add: take_bit_nat_eq_self)
  then have "\<not> bit x k" if "n \<le> k" for k
    using that by (metis bit_take_bit_iff not_le)
  then have "x AND push_bit n y = 0"
    by (auto simp: bit_eq_iff bit_simps)
  then show ?thesis
    by (simp add: disjunctive_add_eq_or [symmetric] push_bit_eq_mult)
qed

section \<open>Loops that may not end\<close>

text \<open>
  \<open>run_loop step c\<close> repeats \<open>step\<close> until it answers \<open>Inr\<close>; a loop that never does so is
  \<open>None\<close>. \<open>fuel_loop\<close> is its bounded form, used as a proof device and for evaluation.
\<close>

partial_function (option) run_loop :: "('c \<Rightarrow> 'c + 'r) \<Rightarrow> 'c \<Rightarrow> 'r option" where
  "run_loop step c = (case step c of Inl c' \<Rightarrow> run_loop step c' | Inr r \<Rightarrow> Some r)"

lemma run_loop_stop: "step c = Inr r \<Longrightarrow> run_loop step c = Some r"
  by (simp add: run_loop.simps)

lemma run_loop_next: "step c = Inl c' \<Longrightarrow> run_loop step c = run_loop step c'"
  by (simp add: run_loop.simps)

lemma run_loop_induct [consumes 1, case_names stop again]:
  fixes step :: "'c \<Rightarrow> 'c + 'r"
  assumes ret: "run_loop step c = Some r"
    and stop: "\<And>c r. step c = Inr r \<Longrightarrow> P c r"
    and step: "\<And>c c' r. step c = Inl c' \<Longrightarrow> run_loop step c' = Some r \<Longrightarrow> P c' r \<Longrightarrow> P c r"
  shows "P c r"
proof (rule run_loop.raw_induct
    [where P = "\<lambda>s c r. s = step \<longrightarrow> P c r \<and> run_loop step c = Some r", OF _ ret,
      THEN mp, OF _ refl, THEN conjunct1])
  fix f :: "('c \<Rightarrow> 'c + 'r) \<Rightarrow> 'c \<Rightarrow> 'r option" and s c r
  assume IH: "\<And>s c r. f s c = Some r \<Longrightarrow> s = step \<longrightarrow> P c r \<and> run_loop step c = Some r"
    and eq: "(case s c of Inl c' \<Rightarrow> f s c' | Inr r \<Rightarrow> Some r) = Some r"
  show "s = step \<longrightarrow> P c r \<and> run_loop step c = Some r"
  proof (cases "s c")
    case (Inl c')
    with eq have "f s c' = Some r" by simp
    with IH [of s c' r] Inl step [of c c' r] show ?thesis by (auto simp: run_loop_next)
  next
    case (Inr r')
    with eq stop [of c r] show ?thesis by (auto simp: run_loop_stop)
  qed
qed

fun fuel_loop :: "('c \<Rightarrow> 'c + 'r) \<Rightarrow> nat \<Rightarrow> 'c \<Rightarrow> 'r option" where
  "fuel_loop step 0 c = None"
| "fuel_loop step (Suc n) c = (case step c of Inl c' \<Rightarrow> fuel_loop step n c' | Inr r \<Rightarrow> Some r)"

lemma fuel_loop_run: "fuel_loop step n c = Some r \<Longrightarrow> run_loop step c = Some r"
proof (induction n arbitrary: c)
  case (Suc n)
  then show ?case by (cases "step c") (simp_all add: run_loop_next run_loop_stop)
qed simp

lemma run_loop_fuel: "run_loop step c = Some r \<Longrightarrow> \<exists>n. fuel_loop step n c = Some r"
proof (induction rule: run_loop_induct)
  case (stop c r)
  then have "fuel_loop step (Suc 0) c = Some r" by simp
  then show ?case ..
next
  case (again c c' r)
  then obtain n where "fuel_loop step n c' = Some r" by blast
  with again(1) have "fuel_loop step (Suc n) c = Some r" by simp
  then show ?case ..
qed

text \<open>An invariant of the steps holds of the configuration a step stops in.\<close>

lemma run_loop_invariant:
  assumes "run_loop step c = Some r" and "I c"
    and "\<And>c c'. I c \<Longrightarrow> step c = Inl c' \<Longrightarrow> I c'"
    and "\<And>c r. I c \<Longrightarrow> step c = Inr r \<Longrightarrow> Q r"
  shows "Q r"
  using assms(1,2) by (induction rule: run_loop_induct) (blast intro: assms(3,4))+

text \<open>A measure that every step decreases makes the loop return.\<close>

lemma run_loop_measure:
  fixes m :: "'c \<Rightarrow> nat"
  assumes "I c"
    and "\<And>c. I c \<Longrightarrow> (\<exists>c'. step c = Inl c' \<and> I c' \<and> m c' < m c) \<or> (\<exists>r. step c = Inr r \<and> Q r)"
  shows "\<exists>r. run_loop step c = Some r \<and> Q r"
  using assms(1)
proof (induction "m c" arbitrary: c rule: less_induct)
  case less
  from assms(2) [OF less.prems] show ?case
  proof (elim disjE exE conjE)
    fix c' assume "step c = Inl c'" "I c'" "m c' < m c"
    with less.hyps [of c'] show ?thesis by (simp add: run_loop_next)
  next
    fix r assume "step c = Inr r" "Q r"
    then show ?thesis by (simp add: run_loop_stop)
  qed
qed

text \<open>The same with the number of steps that have been taken.\<close>

lemma fuel_loop_count:
  assumes "fuel_loop step n c = Some r" and "I j c"
    and "\<And>j c c'. I j c \<Longrightarrow> step c = Inl c' \<Longrightarrow> I (Suc j) c'"
    and "\<And>j c r. I j c \<Longrightarrow> step c = Inr r \<Longrightarrow> Q (Suc j) r"
  shows "\<exists>k \<le> j + n. Q k r"
  using assms(1,2)
proof (induction n arbitrary: c j)
  case (Suc n)
  then show ?case
    using assms(3,4) [OF Suc.prems(2)] Suc.IH [of _ "Suc j"]
    by (auto split: sum.splits) (metis le_add2 add_Suc_right Suc_le_mono add.commute)+
qed simp

text \<open>The configuration after \<open>n\<close> steps, if the loop gets that far.\<close>

fun steps :: "('c \<Rightarrow> 'c + 'r) \<Rightarrow> nat \<Rightarrow> 'c \<Rightarrow> 'c option" where
  "steps step 0 c = Some c"
| "steps step (Suc n) c = (case step c of Inl c' \<Rightarrow> steps step n c' | Inr r \<Rightarrow> None)"

lemma run_loop_steps: "steps step n c = Some c' \<Longrightarrow> run_loop step c = run_loop step c'"
proof (induction n arbitrary: c)
  case (Suc n)
  then show ?case by (cases "step c") (simp_all add: run_loop_next)
qed simp

lemma steps_invariant:
  "steps step n c = Some c' \<Longrightarrow> I c \<Longrightarrow> (\<And>c c'. I c \<Longrightarrow> step c = Inl c' \<Longrightarrow> I c') \<Longrightarrow> I c'"
proof (induction n arbitrary: c)
  case (Suc n)
  then obtain d where "step c = Inl d" "steps step n d = Some c'"
    by (cases "step c") simp_all
  with Suc.IH [of d] Suc.prems(2,3) show ?case by blast
qed simp

lemma steps_add:
  "steps step m c = Some c' \<Longrightarrow> steps step n c' = Some c'' \<Longrightarrow> steps step (m + n) c = Some c''"
proof (induction m arbitrary: c)
  case (Suc m)
  then show ?case by (cases "step c") simp_all
qed simp

text \<open>An invariant indexed by the number of steps taken.\<close>

lemma run_loop_count:
  assumes "run_loop step c = Some r" and "I k c"
    and "\<And>j c c'. I j c \<Longrightarrow> step c = Inl c' \<Longrightarrow> I (Suc j) c'"
    and "\<And>j c r. I j c \<Longrightarrow> step c = Inr r \<Longrightarrow> Q (Suc j) r"
  shows "\<exists>n > k. Q n r"
  using assms(1,2)
proof (induction arbitrary: k rule: run_loop_induct)
  case (stop c r)
  then show ?case using assms(4) by blast
next
  case (again c c' r)
  then show ?case using assms(3) [of k c c'] by (meson Suc_lessD)
qed

section \<open>Simulations between loops\<close>

text \<open>
  The forward simulation the component proofs share. The guard \<open>good\<close> carries information
  known only at the end of the first run (for a recording: the frames that will be written)
  back to its start; it must be closed under predecessors.
\<close>

locale guarded_simulation =
  fixes step1 :: "'c \<Rightarrow> 'c + 'r"
    and step2 :: "'d \<Rightarrow> 'd + 's"
    and rel :: "'c \<Rightarrow> 'd \<Rightarrow> bool"
    and res :: "'r \<Rightarrow> 's \<Rightarrow> bool"
    and good :: "'c \<Rightarrow> bool"
    and good_res :: "'r \<Rightarrow> bool"
  assumes good_back: "step1 c = Inl c' \<Longrightarrow> good c' \<Longrightarrow> good c"
    and good_stop: "step1 c = Inr r \<Longrightarrow> good_res r \<Longrightarrow> good c"
    and sim_next: "rel c d \<Longrightarrow> step1 c = Inl c' \<Longrightarrow> good c' \<Longrightarrow> \<exists>d'. step2 d = Inl d' \<and> rel c' d'"
    and sim_stop: "rel c d \<Longrightarrow> step1 c = Inr r \<Longrightarrow> good_res r \<Longrightarrow> \<exists>s. step2 d = Inr s \<and> res r s"
begin

lemma good_start: "run_loop step1 c = Some r \<Longrightarrow> good_res r \<Longrightarrow> good c"
  by (induction rule: run_loop_induct) (blast intro: good_back good_stop)+

lemma simulates:
  assumes "run_loop step1 c = Some r" and "good_res r" and "rel c d"
  shows "\<exists>s. run_loop step2 d = Some s \<and> res r s"
  using assms
proof (induction arbitrary: d rule: run_loop_induct)
  case (stop c r)
  then show ?case by (metis sim_stop run_loop_stop)
next
  case (again c c' r)
  have "good c'" using good_start again by blast
  with again.hyps(1) again.prems obtain d' where "step2 d = Inl d'" "rel c' d'"
    using sim_next by blast
  with again.IH again.prems(1) show ?case by (metis run_loop_next)
qed

end

text \<open>
  Two loops that proceed in lockstep: each step of one is a step of the other, so one returns
  exactly if the other does.
\<close>

locale lockstep =
  fixes step1 :: "'c \<Rightarrow> 'c + 'r"
    and step2 :: "'d \<Rightarrow> 'd + 's"
    and rel :: "'c \<Rightarrow> 'd \<Rightarrow> bool"
    and res :: "'r \<Rightarrow> 's \<Rightarrow> bool"
  assumes lock: "rel c d \<Longrightarrow> rel_sum rel res (step1 c) (step2 d)"
begin

lemma lock_cases:
  assumes "rel c d"
  obtains c' d' where "step1 c = Inl c'" "step2 d = Inl d'" "rel c' d'"
  | r s where "step1 c = Inr r" "step2 d = Inr s" "res r s"
  using lock [OF assms] by (auto simp: rel_sum.simps)

sublocale fwd: guarded_simulation step1 step2 rel res "\<lambda>_. True" "\<lambda>_. True"
  by unfold_locales (auto elim: lock_cases)

sublocale bwd: guarded_simulation step2 step1 "\<lambda>d c. rel c d" "\<lambda>s r. res r s"
  "\<lambda>_. True" "\<lambda>_. True"
  by unfold_locales (auto elim: lock_cases)

lemma lockstep_run: "rel c d \<Longrightarrow> rel_option res (run_loop step1 c) (run_loop step2 d)"
proof (cases "run_loop step1 c"; cases "run_loop step2 d")
  fix s assume "rel c d" "run_loop step1 c = None" "run_loop step2 d = Some s"
  then show ?thesis using bwd.simulates by fastforce
next
  fix r assume "rel c d" "run_loop step1 c = Some r" "run_loop step2 d = None"
  then show ?thesis using fwd.simulates by fastforce
next
  fix r s assume "rel c d" "run_loop step1 c = Some r" "run_loop step2 d = Some s"
  then show ?thesis using fwd.simulates by fastforce
qed simp

end

text \<open>
  A loop in step with another one that may be interrupted: by a sink that halts it, for example. It
  ends like the other loop, or it stops at a point that the other loop passes through.
\<close>

locale interruptible =
  fixes step1 :: "'c \<Rightarrow> 'c + 'r"
    and step2 :: "'d \<Rightarrow> 'd + 's"
    and rel :: "'c \<Rightarrow> 'd \<Rightarrow> bool"
    and res :: "'r \<Rightarrow> 's \<Rightarrow> bool"
    and stop :: "'r \<Rightarrow> 'd \<Rightarrow> bool"
  assumes interrupt: "rel c d \<Longrightarrow> (\<exists>r. step1 c = Inr r \<and> stop r d) \<or> rel_sum rel res (step1 c) (step2 d)"
begin

lemma run_point:
  assumes "run_loop step1 c = Some r" "rel c d"
  shows "(\<exists>n d'. steps step2 n d = Some d' \<and> stop r d') \<or> (\<exists>s. run_loop step2 d = Some s \<and> res r s)"
  using assms
proof (induction arbitrary: d rule: run_loop_induct)
  case (stop c r)
  from interrupt [OF stop.prems] show ?case
  proof
    assume "\<exists>r. step1 c = Inr r \<and> stop r d"
    with stop.hyps have "steps step2 0 d = Some d \<and> stop r d" by simp
    then show ?thesis by blast
  next
    assume "rel_sum rel res (step1 c) (step2 d)"
    with stop.hyps show ?thesis by (auto simp: rel_sum.simps run_loop_stop)
  qed
next
  case (again c c' r)
  from interrupt [OF again.prems] again.hyps(1) obtain d' where d': "step2 d = Inl d'" "rel c' d'"
    by (auto simp: rel_sum.simps)
  have "steps step2 (Suc n) d = steps step2 n d'" for n using d'(1) by simp
  with again.IH [OF d'(2)] d'(1) show ?case by (metis run_loop_next)
qed

lemma steps_point:
  assumes "steps step2 n d = Some d'" "rel c d"
  shows "(\<exists>r m d''. run_loop step1 c = Some r \<and> steps step2 m d = Some d'' \<and> stop r d'')
    \<or> (\<exists>c'. steps step1 n c = Some c' \<and> rel c' d')"
  using assms
proof (induction n arbitrary: c d)
  case (Suc n)
  obtain d1 where d1: "step2 d = Inl d1" "steps step2 n d1 = Some d'"
    using Suc.prems(1) by (cases "step2 d") simp_all
  from interrupt [OF Suc.prems(2)] show ?case
  proof
    assume "\<exists>r. step1 c = Inr r \<and> stop r d"
    then obtain r where "run_loop step1 c = Some r" "steps step2 0 d = Some d" "stop r d"
      by (auto simp: run_loop_stop)
    then show ?thesis by blast
  next
    assume "rel_sum rel res (step1 c) (step2 d)"
    with d1(1) obtain c1 where c1: "step1 c = Inl c1" "rel c1 d1" by (auto simp: rel_sum.simps)
    have "steps step2 (Suc m) d = steps step2 m d1" "steps step1 (Suc n) c = steps step1 n c1" for m
      using d1(1) c1(1) by simp_all
    with Suc.IH [OF d1(2) c1(2)] c1(1) show ?thesis by (metis run_loop_next)
  qed
qed simp

end

end
