(* ===== verification/Opcodes.thy ===== *)
theory Opcodes
  imports Prelude
begin

text \<open>
  The instruction codec and the tag constants of \<open>include/retrovm/opcodes.hpp\<close>. The enums of the
  header have a fixed underlying type and are read back from files by plain casts, so their
  values are words, and the enumerators are constants.
\<close>

section \<open>Opcodes\<close>

definition OP_HALT :: u8 where [const_defs]: "OP_HALT = 0x00"
definition OP_LOAD :: u8 where [const_defs]: "OP_LOAD = 0x01"
definition OP_STORE :: u8 where [const_defs]: "OP_STORE = 0x02"
definition OP_ADD :: u8 where [const_defs]: "OP_ADD = 0x03"
definition OP_SUB :: u8 where [const_defs]: "OP_SUB = 0x04"
definition OP_MUL :: u8 where [const_defs]: "OP_MUL = 0x05"
definition OP_DIV :: u8 where [const_defs]: "OP_DIV = 0x06"
definition OP_JUMP :: u8 where [const_defs]: "OP_JUMP = 0x07"
definition OP_JNZ :: u8 where [const_defs]: "OP_JNZ = 0x08"
definition OP_IN :: u8 where [const_defs]: "OP_IN = 0x09"
definition OP_RAND :: u8 where [const_defs]: "OP_RAND = 0x0A"
definition OP_LI :: u8 where [const_defs]: "OP_LI = 0x0B"
definition OP_COUNT :: u8 where [const_defs]: "OP_COUNT = 0x0C"

section \<open>Halt reasons and flags\<close>

type_synonym HaltReason = u32

definition HALT_RUNNING :: HaltReason where [const_defs]: "HALT_RUNNING = 0"
definition HALT_NORMAL :: HaltReason where [const_defs]: "HALT_NORMAL = 1"
definition HALT_DIV_ZERO :: HaltReason where [const_defs]: "HALT_DIV_ZERO = 2"
definition HALT_UNKNOWN_OP :: HaltReason where [const_defs]: "HALT_UNKNOWN_OP = 3"
definition HALT_TRACE_EOF :: HaltReason where [const_defs]: "HALT_TRACE_EOF = 4"
definition HALT_DIVERGED :: HaltReason where [const_defs]: "HALT_DIVERGED = 5"
definition HALT_CHECKPOINT :: HaltReason where [const_defs]: "HALT_CHECKPOINT = 6"
definition HALT_BREAKPOINT :: HaltReason where [const_defs]: "HALT_BREAKPOINT = 7"
definition HALT_STEP :: HaltReason where [const_defs]: "HALT_STEP = 8"

definition FLAG_ZF :: u32 where [const_defs]: "FLAG_ZF = push_bit 0 1"
definition FLAG_CF :: u32 where [const_defs]: "FLAG_CF = push_bit 1 1"
definition FLAG_SF :: u32 where [const_defs]: "FLAG_SF = push_bit 2 1"

section \<open>The instruction word\<close>

definition encode :: "u32 \<Rightarrow> u32 \<Rightarrow> u32 \<Rightarrow> u32 \<Rightarrow> u32" where
  "encode op dst src imm =
     push_bit 26 (op AND 0x3F) OR push_bit 23 (dst AND 0x07) OR
     push_bit 20 (src AND 0x07) OR (imm AND 0xFFFFF)"

definition decode_op :: "u32 \<Rightarrow> u32" where
  "decode_op i = drop_bit 26 i AND 0x3F"

definition decode_dst :: "u32 \<Rightarrow> u32" where
  "decode_dst i = drop_bit 23 i AND 0x07"

definition decode_src :: "u32 \<Rightarrow> u32" where
  "decode_src i = drop_bit 20 i AND 0x07"

definition decode_imm :: "u32 \<Rightarrow> u32" where
  "decode_imm i = i AND 0xFFFFF"

lemmas codec_defs = encode_def decode_op_def decode_dst_def decode_src_def decode_imm_def

text \<open>Each field of an encoded word is the argument truncated to the field's width.\<close>

lemma decode_encode [simp]:
  "decode_op (encode op dst src imm) = op AND 0x3F"
  "decode_dst (encode op dst src imm) = dst AND 0x07"
  "decode_src (encode op dst src imm) = src AND 0x07"
  "decode_imm (encode op dst src imm) = imm AND 0xFFFFF"
  unfolding codec_defs mask_literals
  by (rule bit_word_eqI; auto simp: bit_simps)+

lemma encode_decode [simp]:
  "encode (decode_op i) (decode_dst i) (decode_src i) (decode_imm i) = i"
proof (rule bit_word_eqI)
  fix n :: nat
  assume "n < LENGTH(32)"
  then consider "n < 20" | "20 \<le> n" "n < 23" | "23 \<le> n" "n < 26" | "26 \<le> n" "n < 32"
    by fastforce
  then show "bit (encode (decode_op i) (decode_dst i) (decode_src i) (decode_imm i)) n = bit i n"
    unfolding codec_defs mask_literals by cases (auto simp: bit_simps)
qed

lemma decode_op_bound: "unat (decode_op i) < 64"
  using unat_and_mask_less [of _ 6] by (simp add: decode_op_def mask_literals)

lemma decode_dst_bound: "unat (decode_dst i) < 8"
  using unat_and_mask_less [of _ 3] by (simp add: decode_dst_def mask_literals)

lemma decode_src_bound: "unat (decode_src i) < 8"
  using unat_and_mask_less [of _ 3] by (simp add: decode_src_def mask_literals)

lemma decode_imm_bound: "unat (decode_imm i) < 2 ^ 20"
  using unat_and_mask_less [of _ 20] by (simp add: decode_imm_def mask_literals)

lemmas decode_bounds = decode_op_bound decode_dst_bound decode_src_bound decode_imm_bound

text \<open>
  C36: the instruction codec is a bijection between instruction words and field tuples: decoding an
  encoded word gives each argument cut to its field's width (6, 3, 3 and 20 bits), and encoding
  the decoded fields of any word gives the word back. These are the fields of opcodes.hpp and of the
  README; the shifts in NOTES.md are not those of the code.
\<close>

theorem instruction_codec:
  "(decode_op (encode op dst src imm), decode_dst (encode op dst src imm),
    decode_src (encode op dst src imm), decode_imm (encode op dst src imm)) =
     (take_bit 6 op, take_bit 3 dst, take_bit 3 src, take_bit 20 imm)
   \<and> encode (decode_op i) (decode_dst i) (decode_src i) (decode_imm i) = i"
  by (simp only: decode_encode encode_decode mask_literals take_bit_eq_mask)

end
