(* ===== verification/Bytes.thy ===== *)
theory Bytes
  imports Prelude
begin

text \<open>
  Byte-level representation of integers and the contract of fixed-width codecs. The repository
  fixes the wire to little-endian (README.md, checkpoint.cpp): integers that the code copies
  with \<open>memcpy\<close> or \<open>fwrite\<close> from a struct appear in the file least significant byte first.
\<close>

section \<open>Little-endian integers\<close>

definition le_bytes :: "nat \<Rightarrow> 'a::len word \<Rightarrow> bytes" where
  "le_bytes n v = map (\<lambda>i. ucast (drop_bit (8 * i) v)) [0..<n]"

definition of_le_bytes :: "bytes \<Rightarrow> 'a::len word" where
  "of_le_bytes bs = foldr (\<lambda>b r. push_bit 8 r OR ucast b) bs 0"

lemma length_le_bytes [simp]: "length (le_bytes n v) = n"
  by (simp add: le_bytes_def)

lemma bit_of_le_bytes:
  "bit (of_le_bytes bs :: 'a::len word) k \<longleftrightarrow>
     k < LENGTH('a) \<and> k div 8 < length bs \<and> bit (bs ! (k div 8)) (k mod 8)"
proof (induction bs arbitrary: k)
  case (Cons b bs)
  show ?case
  proof (cases "k < 8")
    case True
    then show ?thesis
      by (auto simp: of_le_bytes_def bit_simps)
  next
    case False
    then have "k div 8 = Suc ((k - 8) div 8)" "(k - 8) mod 8 = k mod 8"
      by (simp_all add: le_div_geq le_mod_geq)
    with False Cons [of "k - 8"] show ?thesis
      by (auto simp: of_le_bytes_def bit_simps dest: bit_imp_le_length)
  qed
qed (simp add: of_le_bytes_def)

lemma of_le_bytes_le_bytes:
  fixes v :: "'a::len word"
  assumes "LENGTH('a) \<le> 8 * n"
  shows "of_le_bytes (le_bytes n v) = v"
proof (rule bit_word_eqI)
  fix k assume k: "k < LENGTH('a)"
  with assms have "k div 8 < n" by (simp add: less_mult_imp_div_less mult.commute)
  with k show "bit (of_le_bytes (le_bytes n v) :: 'a word) k = bit v k"
    by (simp add: bit_of_le_bytes le_bytes_def bit_simps)
qed

lemma of_le_bytes_widths [simp]:
  "of_le_bytes (le_bytes 8 (v8 :: u64)) = v8"
  "of_le_bytes (le_bytes 4 (v4 :: u32)) = v4"
  "of_le_bytes (le_bytes 2 (v2 :: u16)) = v2"
  "of_le_bytes (le_bytes 1 (v1 :: u8)) = v1"
  by (simp_all add: of_le_bytes_le_bytes)

section \<open>Fixed-width codecs\<close>

text \<open>
  What the file formats of the code rely on: a value occupies exactly \<open>width\<close> bytes and
  reading those bytes gives it back. From it follow the facts about arrays of such values, which
  the files hold back to back.
\<close>

locale fixed_codec =
  fixes enc :: "'x \<Rightarrow> bytes"
    and dec :: "bytes \<Rightarrow> 'x"
    and width :: nat
  assumes enc_length [simp]: "length (enc x) = width"
    and dec_enc [simp]: "dec (enc x) = x"
begin

lemma enc_inject: "enc x = enc y \<longleftrightarrow> x = y"
  by (metis dec_enc)

lemma dec_prefix: "dec (take width (enc x @ rest)) = x"
  by simp

lemma array_length [simp]: "length (concat (map enc xs)) = length xs * width"
  by (induction xs) simp_all

lemma array_drop:
  "i \<le> length xs \<Longrightarrow> drop (i * width) (concat (map enc xs)) = concat (map enc (drop i xs))"
proof (induction xs arbitrary: i)
  case (Cons x xs)
  then show ?case by (cases i) simp_all
qed simp

lemma array_nth:
  assumes "i < length xs"
  shows "dec (take width (drop (i * width) (concat (map enc xs) @ rest))) = xs ! i"
proof -
  have "drop (i * width) (concat (map enc xs) @ rest)
      = concat (map enc (drop i xs)) @ rest"
    using assms by (simp add: array_drop)
  also have "\<dots> = enc (xs ! i) @ concat (map enc (drop (Suc i) xs)) @ rest"
    using assms by (simp flip: Cons_nth_drop_Suc)
  finally show ?thesis by simp
qed

lemma array_inject: "concat (map enc xs) = concat (map enc ys) \<Longrightarrow> 0 < width \<Longrightarrow> xs = ys"
proof (rule nth_equalityI)
  assume eq: "concat (map enc xs) = concat (map enc ys)" and w: "0 < width"
  from arg_cong [OF eq, of length] w show len: "length xs = length ys" by simp
  fix i assume "i < length xs"
  with eq len array_nth [of i xs "[]"] array_nth [of i ys "[]"] show "xs ! i = ys ! i" by simp
qed

end

interpretation u64_codec: fixed_codec "le_bytes 8 :: u64 \<Rightarrow> bytes" of_le_bytes 8
  by unfold_locales simp_all

interpretation u32_codec: fixed_codec "le_bytes 4 :: u32 \<Rightarrow> bytes" of_le_bytes 4
  by unfold_locales simp_all

interpretation u16_codec: fixed_codec "le_bytes 2 :: u16 \<Rightarrow> bytes" of_le_bytes 2
  by unfold_locales simp_all

text \<open>Slices at constant offsets of a concatenation, the shape of every header of the formats.\<close>

lemma slice_append1: "length xs = n \<Longrightarrow> take n (xs @ ys) = xs"
  by simp

lemma slice_append2: "length xs = n \<Longrightarrow> take m (drop (n + k) (xs @ ys)) = take m (drop k ys)"
  by simp

end
