(* ===== verification/CString.thy ===== *)
theory CString
  imports Prelude
begin

text \<open>
  The parts of the C and C++ standard library that the sources use on text: character classes,
  \<open>strtoul\<close> / \<open>strtoull\<close> on a 64-bit host, \<open>scanf("%u")\<close>, and the \<open>printf\<close> conversions.
  Text is a list of bytes (\<open>string\<close>), as it is in the program.
\<close>

section \<open>Characters\<close>

definition isspace :: "char \<Rightarrow> bool" where
  "isspace c \<longleftrightarrow> c = CHR '' '' \<or> (9 \<le> (of_char c :: nat) \<and> (of_char c :: nat) \<le> 13)"

definition toupper :: "char \<Rightarrow> char" where
  "toupper c = (let n = of_char c :: nat in
     if 97 \<le> n \<and> n \<le> 122 then char_of (n - 32) else c)"

definition nl :: string where
  "nl = [CHR 0x0A]"

text \<open>The part of a \<open>std::string\<close> that a consumer of \<open>c_str()\<close> sees.\<close>

definition c_str :: "string \<Rightarrow> string" where
  "c_str s = takeWhile (\<lambda>c. c \<noteq> CHR 0x00) s"

text \<open>The value of a digit in bases up to 36, as \<open>strtoul\<close> reads it.\<close>

definition digit_val :: "char \<Rightarrow> nat option" where
  "digit_val c = (let n = of_char c :: nat in
     if 48 \<le> n \<and> n \<le> 57 then Some (n - 48)
     else if 97 \<le> n \<and> n \<le> 122 then Some (n - 97 + 10)
     else if 65 \<le> n \<and> n \<le> 90 then Some (n - 65 + 10)
     else None)"

definition is_digit :: "nat \<Rightarrow> char \<Rightarrow> bool" where
  "is_digit base c = (case digit_val c of Some d \<Rightarrow> d < base | None \<Rightarrow> False)"

section \<open>Numbers as text\<close>

definition digit_char :: "nat \<Rightarrow> char" where
  "digit_char d = char_of (if d < 10 then 48 + d else 87 + d)"

fun fmt_base :: "nat \<Rightarrow> nat \<Rightarrow> string" where
  "fmt_base base n = (if base < 2 \<or> n < base then [digit_char n]
     else fmt_base base (n div base) @ [digit_char (n mod base)])"

declare fmt_base.simps [simp del]

definition fmt_u :: "nat \<Rightarrow> string" where
  "fmt_u n = fmt_base 10 n"

definition fmt_x :: "nat \<Rightarrow> string" where
  "fmt_x n = fmt_base 16 n"

definition fmt_upper_x :: "nat \<Rightarrow> string" where
  "fmt_upper_x n = map toupper (fmt_base 16 n)"

definition pad_left :: "nat \<Rightarrow> char \<Rightarrow> string \<Rightarrow> string" where
  "pad_left w c s = replicate (w - length s) c @ s"

definition pad_right :: "nat \<Rightarrow> char \<Rightarrow> string \<Rightarrow> string" where
  "pad_right w c s = s @ replicate (w - length s) c"

text \<open>\<open>%08x\<close>, \<open>%02X\<close>, \<open>%02x\<close> and \<open>%-4llu\<close>.\<close>

definition fmt_08x :: "u32 \<Rightarrow> string" where
  "fmt_08x v = pad_left 8 (CHR ''0'') (fmt_x (unat v))"

definition fmt_02X :: "u8 \<Rightarrow> string" where
  "fmt_02X v = pad_left 2 (CHR ''0'') (fmt_upper_x (unat v))"

definition fmt_u32 :: "u32 \<Rightarrow> string" where
  "fmt_u32 v = fmt_u (unat v)"

definition fmt_u64 :: "u64 \<Rightarrow> string" where
  "fmt_u64 v = fmt_u (unat v)"

section \<open>Text as numbers\<close>

definition digit_num :: "char \<Rightarrow> nat" where
  "digit_num c = (case digit_val c of Some d \<Rightarrow> d | None \<Rightarrow> 0)"

definition digits_val :: "nat \<Rightarrow> string \<Rightarrow> nat" where
  "digits_val base s = foldl (\<lambda>v c. v * base + digit_num c) 0 s"

definition ULONG_MAX :: nat where
  "ULONG_MAX = 2 ^ 64 - 1"

text \<open>
  \<open>strtoul(s, &end, base)\<close> with a 64-bit \<open>unsigned long\<close>: leading white space, an optional
  sign, an optional base prefix, then digits. The result is the value and the rest of the text at
  \<open>end\<close>; without digits nothing is converted and \<open>end\<close> is the start of the text. Values out
  of range give \<open>ULONG_MAX\<close>; a minus sign negates modulo \<open>2 ^ 64\<close>.
\<close>

definition has_hex_prefix :: "string \<Rightarrow> bool" where
  "has_hex_prefix s = (case s of
       z # x # h # _ \<Rightarrow> z = CHR ''0'' \<and> (x = CHR ''x'' \<or> x = CHR ''X'') \<and> is_digit 16 h
     | _ \<Rightarrow> False)"

definition strtoul :: "nat \<Rightarrow> string \<Rightarrow> u64 \<times> string" where
  "strtoul base s = (
     let s1 = dropWhile isspace s;
         neg = (s1 \<noteq> [] \<and> hd s1 = CHR ''-'');
         s2 = (if s1 \<noteq> [] \<and> (hd s1 = CHR ''-'' \<or> hd s1 = CHR ''+'') then tl s1 else s1);
         hex = ((base = 0 \<or> base = 16) \<and> has_hex_prefix s2);
         b = (if base \<noteq> 0 then base else if hex then 16
              else if s2 \<noteq> [] \<and> hd s2 = CHR ''0'' then 8 else 10);
         s3 = (if hex then drop 2 s2 else s2);
         ds = takeWhile (is_digit b) s3;
         v = digits_val b ds
     in if ds = [] then (0, s)
        else (if v > ULONG_MAX then of_nat ULONG_MAX
              else if neg then - of_nat v else of_nat v,
              dropWhile (is_digit b) s3))"

text \<open>
  \<open>scanf("%u", &v)\<close> on a 32-bit \<open>v\<close>: the items converted (\<open>None\<close> if none), and the input
  left. The digits are read as \<open>strtoul\<close> reads them and stored truncated.
\<close>

definition scanf_u :: "string \<Rightarrow> u32 option \<times> string" where
  "scanf_u inp = (
     let s1 = dropWhile isspace inp;
         s2 = (if s1 \<noteq> [] \<and> (hd s1 = CHR ''-'' \<or> hd s1 = CHR ''+'') then tl s1 else s1);
         ds = takeWhile (is_digit 10) s2
     in if ds = [] then (None, s2)
        else (Some (ucast (fst (strtoul 10 inp))), dropWhile (is_digit 10) s2))"

section \<open>Lines and words\<close>

text \<open>\<open>std::getline\<close> on the text that is left: it fails only when nothing is left.\<close>

definition get_line :: "string \<Rightarrow> (string \<times> string) option" where
  "get_line s = (if s = [] then None
     else Some (takeWhile (\<lambda>c. c \<noteq> CHR 0x0A) s, tl (dropWhile (\<lambda>c. c \<noteq> CHR 0x0A) s)))"

text \<open>The words that \<open>iss >> word\<close> delivers.\<close>

function split_ws :: "string \<Rightarrow> string list" where
  "split_ws s = (let s1 = dropWhile isspace s in
     if s1 = [] then []
     else takeWhile (\<lambda>c. \<not> isspace c) s1 # split_ws (dropWhile (\<lambda>c. \<not> isspace c) s1))"
  by pat_completeness auto

termination split_ws
proof (relation "measure length")
  fix s s1 :: string
  assume s1: "s1 = dropWhile isspace s" and ne: "s1 \<noteq> []"
  then have "\<not> isspace (hd s1)" by (metis hd_dropWhile)
  then have "length (dropWhile (\<lambda>c. \<not> isspace c) s1) < length s1"
    using ne by (cases s1) (simp_all add: le_imp_less_Suc length_dropWhile_le)
  also have "\<dots> \<le> length s" by (simp add: s1 length_dropWhile_le)
  finally show "(dropWhile (\<lambda>c. \<not> isspace c) s1, s) \<in> measure length" by simp
qed simp

declare split_ws.simps [simp del]

section \<open>Printing and reading back\<close>

lemma digit_num_digit_char: "d < 36 \<Longrightarrow> digit_num (digit_char d) = d"
  by (auto simp: digit_num_def digit_val_def digit_char_def Let_def)

lemma is_digit_digit_char: "d < base \<Longrightarrow> base \<le> 36 \<Longrightarrow> is_digit base (digit_char d)"
  by (auto simp: is_digit_def digit_val_def digit_char_def Let_def)

lemma fmt_base_digits:
  "2 \<le> base \<Longrightarrow> base \<le> 36 \<Longrightarrow> list_all (is_digit base) (fmt_base base n)"
proof (induction base n rule: fmt_base.induct)
  case (1 base n)
  then show ?case
    by (subst fmt_base.simps) (auto simp: is_digit_digit_char)
qed

lemma fmt_base_nonempty [simp]: "fmt_base base n \<noteq> []"
  by (subst fmt_base.simps) simp

lemma digits_val_fmt_base:
  "2 \<le> base \<Longrightarrow> base \<le> 36 \<Longrightarrow> digits_val base (fmt_base base n) = n"
proof (induction base n rule: fmt_base.induct)
  case (1 base n)
  show ?case
  proof (cases "n < base")
    case True
    with "1.prems" show ?thesis
      by (subst fmt_base.simps) (simp add: digits_val_def digit_num_digit_char)
  next
    case False
    with 1 have "digits_val base (fmt_base base (n div base)) = n div base" by simp
    moreover have "digit_num (digit_char (n mod base)) = n mod base"
      using "1.prems" by (intro digit_num_digit_char) (use mod_less_divisor [of base n] in linarith)
    ultimately show ?thesis
      using False "1.prems" by (subst fmt_base.simps) (simp add: digits_val_def)
  qed
qed

lemma not_isspace_digit: "is_digit base c \<Longrightarrow> \<not> isspace c"
  by (auto simp: is_digit_def digit_val_def isspace_def Let_def split: if_splits)

lemma not_sign_digit: "is_digit base c \<Longrightarrow> c \<noteq> CHR ''-'' \<and> c \<noteq> CHR ''+''"
  by (auto simp: is_digit_def digit_val_def Let_def split: if_splits)

lemma dropWhile_isspace_digit: "s \<noteq> [] \<Longrightarrow> is_digit base (hd s) \<Longrightarrow> dropWhile isspace s = s"
  by (cases s) (auto simp: not_isspace_digit)

text \<open>A printed number followed by something that is not a digit is read back, up to saturation.\<close>

lemma strtoul_fmt_u_min:
  assumes "rest = [] \<or> \<not> is_digit 10 (hd rest)"
  shows "strtoul 10 (fmt_u n @ rest) = (of_nat (min n ULONG_MAX), rest)"
proof -
  let ?s = "fmt_u n @ rest"
  have all: "list_all (is_digit 10) (fmt_u n)"
    by (simp add: fmt_u_def fmt_base_digits)
  have ne: "fmt_u n \<noteq> []" by (simp add: fmt_u_def)
  from all ne have hd: "is_digit 10 (hd ?s)"
    by (cases "fmt_u n") simp_all
  have ws: "dropWhile isspace ?s = ?s"
    using ne hd by (intro dropWhile_isspace_digit) simp_all
  have sg: "hd ?s \<noteq> CHR ''-''" "hd ?s \<noteq> CHR ''+''"
    using not_sign_digit [OF hd] by simp_all
  have tw: "takeWhile (is_digit 10) ?s = fmt_u n" "dropWhile (is_digit 10) ?s = rest"
    using all assms by (cases rest; simp add: list_all_iff takeWhile_append2 dropWhile_append2)+
  have v: "digits_val 10 (fmt_u n) = n"
    by (simp add: fmt_u_def digits_val_fmt_base)
  show ?thesis
    using ne sg
    by (simp add: strtoul_def ws tw v min_def)
qed

lemma strtoul_fmt_u:
  assumes "n \<le> ULONG_MAX" and "rest = [] \<or> \<not> is_digit 10 (hd rest)"
  shows "strtoul 10 (fmt_u n @ rest) = (of_nat n, rest)"
  using strtoul_fmt_u_min [OF assms(2)] assms(1) by (simp add: min_def)

end
