(* ===== verification/Host.thy ===== *)
theory Host
  imports Bytes CString
begin

text \<open>
  The world outside the program: files by path, the console streams, and the failures the
  operating system may report. The program reaches it only through the library calls that the
  definitions below stand for.
\<close>

text \<open>
  A fault that the operating system reports for a path, if any. \<open>F_write n\<close> and \<open>F_close n\<close>
  leave the first \<open>n\<close> bytes of the data in the file.
\<close>

datatype os_fault = F_fstat | F_mmap | F_open_write | F_ftruncate | F_write nat | F_close nat

record world =
  files :: "string \<Rightarrow> bytes option"
  fault :: "string \<Rightarrow> os_fault option"
  stdin :: string
  stdout :: string
  stderr :: string

definition print_out :: "string \<Rightarrow> world \<Rightarrow> world" where
  "print_out s w = w\<lparr>stdout := stdout w @ s\<rparr>"

definition print_err :: "string \<Rightarrow> world \<Rightarrow> world" where
  "print_err s w = w\<lparr>stderr := stderr w @ s\<rparr>"

definition write_file :: "string \<Rightarrow> bytes \<Rightarrow> world \<Rightarrow> world" where
  "write_file path bs w = w\<lparr>files := (files w)(path := Some bs)\<rparr>"

text \<open>The single quote of the messages.\<close>

definition sq :: string where
  "sq = [CHR 0x27]"

text \<open>The bytes of a text literal, as \<open>memcpy\<close> from it copies them.\<close>

definition str_bytes :: "string \<Rightarrow> bytes" where
  "str_bytes s = map (\<lambda>c. word_of_nat (of_char c)) s"

lemma length_str_bytes [simp]: "length (str_bytes s) = length s"
  by (simp add: str_bytes_def)

lemma text_of_str_bytes: "map (\<lambda>b. char_of (unat b)) (str_bytes s) = s"
  by (induction s) (simp_all add: str_bytes_def unat_of_nat char_of_mod_256 flip: take_bit_eq_mod)

text \<open>
  How a command ends: a value returned from \<open>main\<close> (or passed to \<open>exit\<close>), or an exception that
  nothing catches, which terminates the process.
\<close>

datatype outcome = Exit int | Uncaught string

text \<open>The world without files, faults or input.\<close>

definition no_files :: world where
  "no_files = \<lparr>files = (\<lambda>_. None), fault = (\<lambda>_. None), stdin = [], stdout = [], stderr = []\<rparr>"

text \<open>What each of these operations leaves alone.\<close>

lemma print_frame [simp]:
  "files (print_out s w) = files w" "fault (print_out s w) = fault w"
  "stdin (print_out s w) = stdin w" "stderr (print_out s w) = stderr w"
  "stdout (print_out s w) = stdout w @ s"
  "files (print_err s w) = files w" "fault (print_err s w) = fault w"
  "stdin (print_err s w) = stdin w" "stdout (print_err s w) = stdout w"
  "stderr (print_err s w) = stderr w @ s"
  by (simp_all add: print_out_def print_err_def)

lemma print_out_print_out [simp]: "print_out b (print_out a w) = print_out (a @ b) w"
  by (simp add: print_out_def)

lemma print_out_Nil [simp]: "print_out [] w = w"
  by (simp add: print_out_def)

lemma write_file_frame [simp]:
  "files (write_file p bs w) = (files w)(p := Some bs)" "fault (write_file p bs w) = fault w"
  "stdin (write_file p bs w) = stdin w" "stdout (write_file p bs w) = stdout w"
  "stderr (write_file p bs w) = stderr w"
  by (simp_all add: write_file_def)

end
