(* ===== verification/Assembler.thy ===== *)
theory Assembler
  imports Opcodes Host
begin

text \<open>
  The assembler of \<open>src/assembler.cpp\<close>: from the text of an \<open>.asm\<close> file to the bytes of a \<open>.bin\<close>
  file, with every diagnostic. An error is the text that is printed before \<open>return 1\<close>.
\<close>

section \<open>Helpers\<close>

definition kOpcodes :: "(string \<times> u32) list" where
  "kOpcodes = [(''HALT'', ucast OP_HALT), (''LOAD'', ucast OP_LOAD), (''STORE'', ucast OP_STORE),
     (''ADD'', ucast OP_ADD), (''SUB'', ucast OP_SUB), (''MUL'', ucast OP_MUL),
     (''DIV'', ucast OP_DIV), (''JUMP'', ucast OP_JUMP), (''JNZ'', ucast OP_JNZ),
     (''IN'', ucast OP_IN), (''RAND'', ucast OP_RAND), (''LI'', ucast OP_LI)]"

text \<open>
  \<open>atoi\<close>: the decimal number at the start of the text, up to the first character that is not a digit,
  and 0 if there is none. The C library leaves the result undefined when it does not fit into an
  \<open>int\<close>; it is unspecified here.
\<close>

definition atoi :: "string \<Rightarrow> int" where
  "atoi s = (
     let s1 = dropWhile isspace s;
         neg = (s1 \<noteq> [] \<and> hd s1 = CHR ''-'');
         s2 = (if s1 \<noteq> [] \<and> (hd s1 = CHR ''-'' \<or> hd s1 = CHR ''+'') then tl s1 else s1);
         v = int (digits_val 10 (takeWhile (is_digit 10) s2));
         n = (if neg then - v else v)
     in if - (2 ^ 31) \<le> n \<and> n < 2 ^ 31 then n else undefined)"

definition parse_reg :: "string \<Rightarrow> int" where
  "parse_reg tok = (
     if length tok < 2 then - 1
     else if toupper (tok ! 0) \<noteq> CHR ''R'' then - 1
     else let n = atoi (c_str (drop 1 tok)) in if 0 \<le> n \<and> n \<le> 7 then n else - 1)"

definition comma_or_space :: "char \<Rightarrow> bool" where
  "comma_or_space c \<longleftrightarrow> c = CHR '','' \<or> isspace c"

definition strip_comma :: "string \<Rightarrow> string" where
  "strip_comma s = dropWhile comma_or_space (rev (dropWhile comma_or_space (rev s)))"

definition trim :: "string \<Rightarrow> string" where
  "trim s = dropWhile isspace (rev (dropWhile isspace (rev s)))"

definition strip_comment :: "string \<Rightarrow> string" where
  "strip_comment line = takeWhile (\<lambda>c. c \<noteq> CHR '';'') line"

text \<open>The prefix \<open>"%s:%d: "\<close> of every diagnostic.\<close>

definition at_line :: "string \<Rightarrow> nat \<Rightarrow> string \<Rightarrow> string" where
  "at_line src line msg = src @ '':'' @ fmt_u line @ '': '' @ msg @ nl"

definition fmt_lx :: "u64 \<Rightarrow> string" where
  "fmt_lx v = fmt_x (unat v)"

text \<open>The code returns the sentinel \<open>~0u\<close> on an error, after printing; here that is \<open>Inl\<close>.\<close>

definition parse_imm :: "string \<Rightarrow> nat \<Rightarrow> string \<Rightarrow> string + u32" where
  "parse_imm src line tok = (
     if tok = [] then Inl (at_line src line ''missing immediate'')
     else case strtoul 0 (c_str tok) of (v, rest) \<Rightarrow>
       if rest \<noteq> [] then Inl (at_line src line (''bad immediate '' @ sq @ c_str tok @ sq))
       else if v > 0xFFFFF then
         Inl (at_line src line (''immediate 0x'' @ fmt_lx v @ '' exceeds 20-bit range''))
       else Inr (ucast v))"

definition error_reg :: "string \<Rightarrow> nat \<Rightarrow> string \<Rightarrow> string" where
  "error_reg src line reg = at_line src line (''bad register '' @ sq @ c_str reg @ sq)"

text \<open>A register operand, checked and converted as every case of the switch does.\<close>

definition reg_operand :: "string \<Rightarrow> nat \<Rightarrow> string \<Rightarrow> string + u32" where
  "reg_operand src line tok =
     (if parse_reg tok < 0 then Inl (error_reg src line tok) else Inr (word_of_int (parse_reg tok)))"

section \<open>One line\<close>

text \<open>The operands \<open>(dst, src_reg, imm)\<close> that the switch over the opcode leaves.\<close>

definition asm_operands :: "string \<Rightarrow> nat \<Rightarrow> string \<Rightarrow> u32 \<Rightarrow> string \<Rightarrow> string \<Rightarrow>
    string + u32 \<times> u32 \<times> u32" where
  "asm_operands src line op_s op a_s b_s = (
     if op = ucast OP_HALT then Inr (0, 0, 0)
     else if op = ucast OP_IN \<or> op = ucast OP_RAND then
       (case reg_operand src line a_s of
          Inl e \<Rightarrow> Inl e | Inr dst \<Rightarrow> Inr (dst, 0, 0))
     else if op = ucast OP_ADD \<or> op = ucast OP_SUB \<or> op = ucast OP_MUL \<or> op = ucast OP_DIV then
       (case reg_operand src line a_s of
          Inl e \<Rightarrow> Inl e
        | Inr dst \<Rightarrow>
           (case reg_operand src line b_s of
              Inl e \<Rightarrow> Inl e | Inr src_reg \<Rightarrow> Inr (dst, src_reg, 0)))
     else if op = ucast OP_JUMP then
       (case parse_imm src line a_s of
          Inl e \<Rightarrow> Inl e | Inr imm \<Rightarrow> Inr (0, 0, imm))
     else if op = ucast OP_LOAD \<or> op = ucast OP_STORE \<or> op = ucast OP_JNZ \<or> op = ucast OP_LI then
       (case reg_operand src line a_s of
          Inl e \<Rightarrow> Inl e
        | Inr dst \<Rightarrow>
           (case parse_imm src line b_s of
              Inl e \<Rightarrow> Inl e | Inr imm \<Rightarrow> Inr (dst, 0, imm)))
     else Inl (at_line src line (''opcode not handled in Phase 1: '' @ c_str op_s)))"

definition word_at :: "nat \<Rightarrow> string list \<Rightarrow> string" where
  "word_at i ws = (if i < length ws then ws ! i else [])"

text \<open>\<open>for (auto& ch : op_s) ch = toupper(ch)\<close>.\<close>

definition upcase :: "string \<Rightarrow> string" where
  "upcase s = map toupper s"

text \<open>The words of a line, of which the first three count, as an instruction.\<close>

definition asm_words :: "string \<Rightarrow> nat \<Rightarrow> string list \<Rightarrow> string + u32" where
  "asm_words src lineno ws = (
     let op_s = upcase (word_at 0 ws);
         a_s = strip_comma (word_at 1 ws);
         b_s = strip_comma (word_at 2 ws)
     in case map_of kOpcodes op_s of
          None \<Rightarrow> Inl (at_line src lineno (''unknown opcode '' @ sq @ c_str op_s @ sq))
        | Some op \<Rightarrow>
           (case asm_operands src lineno op_s op a_s b_s of
              Inl e \<Rightarrow> Inl e
            | Inr (dst, src_reg, imm) \<Rightarrow> Inr (encode op dst src_reg imm)))"

text \<open>The body of the line loop: nothing for an empty line, else an error or an instruction.\<close>

definition asm_line :: "string \<Rightarrow> nat \<Rightarrow> string \<Rightarrow> string + u32 option" where
  "asm_line src lineno raw = (
     let line = trim (strip_comment raw) in
     if line = [] then Inr None else map_sum id Some (asm_words src lineno (split_ws line)))"

section \<open>The file\<close>

text \<open>\<open>while (std::getline(in, raw))\<close>; the result of an error keeps the instructions so far.\<close>

function asm_loop :: "string \<Rightarrow> nat \<Rightarrow> u32 list \<Rightarrow> string \<Rightarrow> (string \<times> u32 list) + u32 list" where
  "asm_loop src lineno out_instrs text = (case get_line text of
     None \<Rightarrow> Inr out_instrs
   | Some (raw, rest) \<Rightarrow>
      (case asm_line src (lineno + 1) raw of
         Inl e \<Rightarrow> Inl (e, out_instrs)
       | Inr None \<Rightarrow> asm_loop src (lineno + 1) out_instrs rest
       | Inr (Some inst) \<Rightarrow> asm_loop src (lineno + 1) (out_instrs @ [inst]) rest))"
  by pat_completeness auto

lemma get_line_shorter: "get_line s = Some (l, rest) \<Longrightarrow> length rest < length s"
  using length_dropWhile_le [of "\<lambda>c. c \<noteq> CHR 0x0A" s]
  by (cases s) (auto simp: get_line_def intro: le_less_trans)

termination asm_loop
  by (relation "measure (\<lambda>(_, _, _, text). length text)") (auto dest: get_line_shorter)

declare asm_loop.simps [simp del]

text \<open>The four \<open>put\<close> calls per instruction.\<close>

definition inst_bytes :: "u32 \<Rightarrow> bytes" where
  "inst_bytes inst = [ucast (inst AND 0xFF), ucast (drop_bit 8 inst AND 0xFF),
     ucast (drop_bit 16 inst AND 0xFF), ucast (drop_bit 24 inst AND 0xFF)]"

text \<open>
  \<open>assemble_file\<close>: return code, \<open>out_instrs\<close> and the world. Nothing checks the output stream after
  it is open, so a write that fails goes unnoticed.
\<close>

definition assemble_file :: "string \<Rightarrow> string \<Rightarrow> u32 list \<Rightarrow> world \<Rightarrow> int \<times> u32 list \<times> world" where
  "assemble_file src_path dst_path out_instrs w = (case files w src_path of
     None \<Rightarrow> (1, out_instrs, print_err (''asm: cannot open '' @ src_path @ nl) w)
   | Some text \<Rightarrow>
      (case asm_loop src_path 0 [] (map (\<lambda>b. char_of (unat b)) text) of
         Inl (e, instrs) \<Rightarrow> (1, instrs, print_err e w)
       | Inr instrs \<Rightarrow>
          if fault w dst_path = Some F_open_write then
            (1, instrs, print_err (''asm: cannot open '' @ dst_path @ nl) w)
          else
            let data = concat (map inst_bytes instrs);
                stored = (case fault w dst_path of
                    Some (F_write n) \<Rightarrow> take n data
                  | Some (F_close n) \<Rightarrow> take n data
                  | _ \<Rightarrow> data);
                w = write_file dst_path stored w
            in (0, instrs, print_out (''asm: '' @ fmt_u (length instrs) @ '' instructions -> '' @
                 dst_path @ nl) w)))"

definition cmd_assemble :: "string \<Rightarrow> string \<Rightarrow> world \<Rightarrow> outcome \<times> world" where
  "cmd_assemble src dst w = (case assemble_file src dst [] w of (rc, out, w) \<Rightarrow> (Exit rc, w))"

end
