(* ===== verification/Trace.thy ===== *)
theory Trace
  imports Opcodes Host
begin

text \<open>
  The \<open>.trace\<close> format, its reader and its writer: \<open>include/retrovm/trace.hpp\<close> and
  \<open>src/trace.cpp\<close> (the POSIX branch; the other one is in \<open>TraceStream\<close>).
\<close>

section \<open>Frames and mismatches\<close>

text \<open>
  A frame. The three padding bytes are zero in every frame the writer appends (\<open>TraceFrame f{}\<close>)
  and no reader looks at them, so the record has no field for them.
\<close>

record TraceFrame =
  f_cycle :: u64
  f_opcode :: u8
  f_value :: u32

record TraceMismatch =
  expected_cycle :: u64
  expected_op :: u8
  actual_cycle :: u64
  actual_op :: u8
  frame_idx :: nat
  premature_eof :: bool

definition mismatch_what :: "TraceMismatch \<Rightarrow> string" where
  "mismatch_what m = (
     if premature_eof m
     then ''trace exhausted at cycle '' @ fmt_u64 (expected_cycle m)
          @ '': program expected opcode '' @ fmt_u (unat (expected_op m))
          @ '' but trace has only '' @ fmt_u (frame_idx m) @ '' frame(s)''
     else ''trace mismatch at cycle '' @ fmt_u64 (expected_cycle m)
          @ '': expected opcode '' @ fmt_u (unat (expected_op m))
          @ '' but trace frame #'' @ fmt_u (frame_idx m)
          @ '' has opcode '' @ fmt_u (unat (actual_op m))
          @ '' (cycle '' @ fmt_u64 (actual_cycle m) @ '')'')"

section \<open>Little-endian helpers\<close>

definition write_u32_le :: "u32 \<Rightarrow> bytes" where
  "write_u32_le v = map (\<lambda>i. ucast (drop_bit (i * 8) v AND 0xFF)) [0..<4]"

definition read_u32_le :: "bytes \<Rightarrow> u32" where
  "read_u32_le p = foldl (\<lambda>r i. push_bit 8 r OR ucast (p ! i)) 0 [3, 2, 1, 0]"

lemma write_u32_le_eq: "write_u32_le v = le_bytes 4 v"
  unfolding write_u32_le_def le_bytes_def mask_literals
  by (rule map_cong [OF refl], rule bit_word_eqI) (auto simp: bit_simps mult.commute)

lemma read_u32_le_eq:
  assumes "4 \<le> length p"
  shows "read_u32_le p = of_le_bytes (take 4 p)"
proof -
  obtain a b c d r where "p = a # b # c # d # r"
    using assms by (auto simp: numeral_eq_Suc Suc_le_length_iff)
  then show ?thesis by (simp add: read_u32_le_def of_le_bytes_def)
qed

section \<open>The frame on disk\<close>

definition frame_bytes :: "TraceFrame \<Rightarrow> bytes" where
  "frame_bytes f = le_bytes 8 (f_cycle f) @ [f_opcode f] @ [0, 0, 0] @ le_bytes 4 (f_value f)"

definition frame_of_bytes :: "bytes \<Rightarrow> TraceFrame" where
  "frame_of_bytes bs = \<lparr>f_cycle = of_le_bytes (take 8 bs), f_opcode = bs ! 8,
     f_value = of_le_bytes (take 4 (drop 12 bs))\<rparr>"

interpretation frame_codec: fixed_codec frame_bytes frame_of_bytes 16
  by unfold_locales (simp_all add: frame_bytes_def frame_of_bytes_def nth_append)

section \<open>TraceReader\<close>

record TraceReader =
  rd_map :: bytes
  rd_size :: nat
  rd_frame_count :: nat
  rd_version :: u32
  rd_magic :: bytes

definition sizeof_TraceHeader :: nat where "sizeof_TraceHeader = 16"
definition sizeof_TraceFrame :: nat where "sizeof_TraceFrame = 16"

text \<open>
  The constructor; \<open>Inl\<close> is the message of the \<open>runtime_error\<close> it throws. First what follows once the
  contents are in memory.
\<close>

definition read_header :: "string \<Rightarrow> bytes \<Rightarrow> string + TraceReader" where
  "read_header path bs = (
     if length bs < sizeof_TraceHeader then Inl (''trace file too small (< header): '' @ path)
     else if take 8 bs \<noteq> str_bytes ''RVMTRACE'' then Inl (''trace file has bad magic: '' @ path)
     else
       let version = read_u32_le (drop 8 bs) in
       if version \<noteq> 1 then Inl (''unsupported trace version '' @ fmt_u32 version)
       else if length bs = sizeof_TraceHeader
         then Inr \<lparr>rd_map = bs, rd_size = length bs, rd_frame_count = 0, rd_version = version,
                    rd_magic = take 8 bs\<rparr>
       else
         let frames_bytes = length bs - sizeof_TraceHeader in
         if frames_bytes mod sizeof_TraceFrame \<noteq> 0
           then Inl ''trace file: frame count is not integer''
         else Inr \<lparr>rd_map = bs, rd_size = length bs,
                    rd_frame_count = frames_bytes div sizeof_TraceFrame, rd_version = version,
                    rd_magic = take 8 bs\<rparr>)"

definition TraceReader_open :: "string \<Rightarrow> world \<Rightarrow> string + TraceReader" where
  "TraceReader_open path w = (
     case files w path of
       None \<Rightarrow> Inl (''cannot open trace file: '' @ path)
     | Some bs \<Rightarrow>
        if fault w path = Some F_fstat then Inl (''fstat failed for: '' @ path)
        else if length bs = 0 then Inl (''trace file is empty: '' @ path)
        else if fault w path = Some F_mmap then Inl (''mmap failed for: '' @ path)
        else read_header path bs)"

definition frame_at :: "TraceReader \<Rightarrow> nat \<Rightarrow> TraceFrame option" where
  "frame_at rd i = (if i \<ge> rd_frame_count rd then None
     else Some (frame_of_bytes
       (take sizeof_TraceFrame (drop (sizeof_TraceHeader + i * sizeof_TraceFrame) (rd_map rd)))))"

section \<open>TraceWriter\<close>

type_synonym TraceWriter = "TraceFrame list"

definition trace_append :: "u64 \<Rightarrow> u8 \<Rightarrow> u32 \<Rightarrow> TraceWriter \<Rightarrow> TraceWriter" where
  "trace_append cycle opcode value frames =
     frames @ [\<lparr>f_cycle = cycle, f_opcode = opcode, f_value = value\<rparr>]"

definition trace_bytes :: "TraceWriter \<Rightarrow> bytes" where
  "trace_bytes frames = str_bytes ''RVMTRACE'' @ write_u32_le 1 @ write_u32_le 0
     @ concat (map frame_bytes frames)"

text \<open>
  \<open>flush_to_file\<close>: the file is truncated, sized, mapped and filled. A failure on the way leaves
  what the completed steps made of the file.
\<close>

definition flush_to_file :: "string \<Rightarrow> TraceWriter \<Rightarrow> world \<Rightarrow> string option \<times> world" where
  "flush_to_file path frames w = (
     let total = sizeof_TraceHeader + length frames * sizeof_TraceFrame in
     if fault w path = Some F_open_write then (Some (''cannot open trace for write: '' @ path), w)
     else if fault w path = Some F_ftruncate
       then (Some (''ftruncate failed for trace: '' @ path), write_file path [] w)
     else if fault w path = Some F_mmap
       then (Some (''mmap failed for trace: '' @ path), write_file path (replicate total 0) w)
     else (None, write_file path (trace_bytes frames) w))"

lemmas sizeof_trace_defs = sizeof_TraceHeader_def sizeof_TraceFrame_def

lemma length_trace_bytes:
  "length (trace_bytes frames) = sizeof_TraceHeader + length frames * sizeof_TraceFrame"
  by (simp add: trace_bytes_def write_u32_le_eq sizeof_trace_defs)

text \<open>The reader on a file the writer made.\<close>

definition reader_of :: "TraceFrame list \<Rightarrow> TraceReader" where
  "reader_of frames = \<lparr>rd_map = trace_bytes frames, rd_size = length (trace_bytes frames),
     rd_frame_count = length frames, rd_version = 1, rd_magic = str_bytes ''RVMTRACE''\<rparr>"

lemma read_version_trace_bytes: "read_u32_le (drop 8 (trace_bytes frames)) = 1"
  by (subst read_u32_le_eq) (simp_all add: trace_bytes_def write_u32_le_eq)

lemma TraceReader_open_trace_bytes:
  assumes "files w path = Some (trace_bytes frames)" and "fault w path = None"
  shows "TraceReader_open path w = Inr (reader_of frames)"
proof -
  have "take 8 (trace_bytes frames) = str_bytes ''RVMTRACE''"
    by (simp add: trace_bytes_def)
  then show ?thesis
    using assms
    by (auto simp: TraceReader_open_def read_header_def reader_of_def length_trace_bytes read_version_trace_bytes
        sizeof_trace_defs Let_def)
qed

lemma frame_at_reader_of:
  "frame_at (reader_of frames) i = (if i < length frames then Some (frames ! i) else None)"
proof (cases "i < length frames")
  case True
  have "drop (16 + i * 16) (trace_bytes frames) = drop (i * 16) (concat (map frame_bytes frames))"
    by (simp add: trace_bytes_def write_u32_le_eq add.commute)
  with True frame_codec.array_nth [of i frames "[]"] show ?thesis
    by (simp add: frame_at_def reader_of_def sizeof_trace_defs)
qed (simp add: frame_at_def reader_of_def)

section \<open>Properties of the format\<close>

text \<open>
  C27: a trace written by \<open>flush_to_file\<close> is read back by \<open>TraceReader\<close> frame by frame: for every
  accumulated sequence of frames the reader opens the file, counts exactly the frames, returns
  each of them unchanged, and answers \<open>nullptr\<close> from the count on.
\<close>

theorem trace_file_roundtrip:
  assumes "fault w path = None"
  shows "\<exists>w1 rd. flush_to_file path frames w = (None, w1) \<and> TraceReader_open path w1 = Inr rd
    \<and> rd_frame_count rd = length frames
    \<and> (\<forall>i. frame_at rd i = (if i < length frames then Some (frames ! i) else None))"
proof -
  let ?w1 = "write_file path (trace_bytes frames) w"
  have "flush_to_file path frames w = (None, ?w1)"
    using assms by (simp add: flush_to_file_def Let_def)
  moreover have "TraceReader_open path ?w1 = Inr (reader_of frames)"
    using assms by (intro TraceReader_open_trace_bytes) simp_all
  moreover have "rd_frame_count (reader_of frames) = length frames" by (simp add: reader_of_def)
  ultimately show ?thesis using frame_at_reader_of by blast
qed

theorem trace_file_roundtrip_witness:
  "\<exists>w1 rd. flush_to_file ''t'' [\<lparr>f_cycle = 3, f_opcode = OP_IN, f_value = 42\<rparr>] no_files = (None, w1)
     \<and> TraceReader_open ''t'' w1 = Inr rd
     \<and> frame_at rd 0 = Some \<lparr>f_cycle = 3, f_opcode = OP_IN, f_value = 42\<rparr> \<and> frame_at rd 1 = None"
  using trace_file_roundtrip [of no_files "''t''" "[\<lparr>f_cycle = 3, f_opcode = OP_IN, f_value = 42\<rparr>]"]
  by (fastforce simp: no_files_def)

text \<open>
  C34: exactly the well-formed files are accepted. The constructor succeeds if and only if the file
  exists, the system calls succeed, and the contents are the 8 magic bytes, version 1, the
  4 reserved bytes and a whole number of 16-byte frames; every other file is a \<open>runtime_error\<close>.
\<close>

theorem reader_accepts_iff:
  "(\<exists>rd. TraceReader_open path w = Inr rd) \<longleftrightarrow>
     (\<exists>bs n. files w path = Some bs \<and> fault w path \<notin> {Some F_fstat, Some F_mmap}
        \<and> length bs = 16 + 16 * n \<and> take 8 bs = str_bytes ''RVMTRACE''
        \<and> of_le_bytes (take 4 (drop 8 bs)) = (1 :: u32))"
proof (cases "files w path")
  case None
  then show ?thesis by (simp add: TraceReader_open_def)
next
  case (Some bs)
  have shape: "(\<exists>n. length bs = 16 + 16 * n) \<longleftrightarrow> 16 \<le> length bs \<and> (length bs - 16) mod 16 = 0"
    by (auto simp: le_iff_add mod_eq_0_iff_dvd dvd_def)
  have version: "read_u32_le (drop 8 bs) = of_le_bytes (take 4 (drop 8 bs))" if "16 \<le> length bs"
    using that by (intro read_u32_le_eq) simp
  have "(\<exists>rd. TraceReader_open path w = Inr rd) \<longleftrightarrow>
      16 \<le> length bs \<and> (length bs - 16) mod 16 = 0 \<and> fault w path \<notin> {Some F_fstat, Some F_mmap}
      \<and> take 8 bs = str_bytes ''RVMTRACE'' \<and> read_u32_le (drop 8 bs) = 1"
    using Some by (auto simp: TraceReader_open_def read_header_def sizeof_trace_defs Let_def)
  then show ?thesis
    using Some shape version by auto
qed

text \<open>
  C35: the reader never reads outside its mapping: a frame that \<open>frame_at\<close> returns lies entirely
  within the file, and it is the 16 bytes at its place in it.
\<close>

theorem frame_at_in_bounds:
  assumes "TraceReader_open path w = Inr rd" and "frame_at rd i = Some f"
  shows "\<exists>bs. files w path = Some bs \<and> 16 + i * 16 + 16 \<le> length bs
    \<and> f_cycle f = of_le_bytes (take 8 (drop (16 + i * 16) bs))
    \<and> f_opcode f = bs ! (16 + i * 16 + 8)
    \<and> f_value f = of_le_bytes (take 4 (drop (16 + i * 16 + 12) bs))"
proof -
  obtain bs where bs: "files w path = Some bs"
    using assms(1) by (cases "files w path") (auto simp: TraceReader_open_def)
  with assms(1) have rd: "rd_map rd = bs" "16 + rd_frame_count rd * 16 \<le> length bs"
    by (auto simp: TraceReader_open_def read_header_def sizeof_trace_defs Let_def split: if_splits)
  from assms(2) have i: "i < rd_frame_count rd"
    and f: "f = frame_of_bytes (take 16 (drop (16 + i * 16) bs))"
    by (auto simp: frame_at_def sizeof_trace_defs rd(1) split: if_splits)
  have "Suc i * 16 \<le> rd_frame_count rd * 16" using i by (intro mult_le_mono1) simp
  then have "16 + i * 16 + 16 \<le> length bs" using rd(2) by simp
  then show ?thesis
    using bs by (auto simp: f frame_of_bytes_def min_def drop_take add.commute add.left_commute)
qed

theorem frame_at_in_bounds_witness:
  "\<exists>w rd bs. TraceReader_open ''t'' w = Inr rd \<and> files w ''t'' = Some bs \<and> 32 \<le> length bs"
proof -
  let ?f = "\<lparr>f_cycle = 3, f_opcode = OP_IN, f_value = 42\<rparr>"
  let ?w = "write_file ''t'' (trace_bytes [?f]) no_files"
  have o: "TraceReader_open ''t'' ?w = Inr (reader_of [?f])"
    by (intro TraceReader_open_trace_bytes) (simp_all add: no_files_def)
  have "frame_at (reader_of [?f]) 0 = Some ?f" by (simp add: frame_at_reader_of)
  from frame_at_in_bounds [OF o this] o show ?thesis by auto
qed

end
