(* ===== verification/Machine.thy ===== *)
theory Machine
  imports Trace
begin

text \<open>
  The virtual machine of \<open>include/retrovm/vm.hpp\<close> and the first part of \<open>src/vm.cpp\<close>: its state,
  its memory, the delta log and snapshots. The dispatch loop is in \<open>Dispatch\<close>.

  The arena is a function from addresses to bytes; the array of the code has the cells below
  \<open>MEM_SIZE\<close>, and every access of the code masks its address first. That the other cells of the
  function are never read or written is proved in \<open>Dispatch\<close>.

  The closures installed in the machine (I/O hooks and the snapshot sink) are functions of the
  state \<open>'w\<close> that they capture. A hook may throw a \<open>TraceMismatch\<close>; a sink sees the machine's state
  and may ask for a halt through \<open>request_halt\<close>, the only member it calls that changes the machine.
\<close>

section \<open>State\<close>

record VMState =
  cycle_count :: u64
  regs :: "u32 list"
  pc :: u32
  sp :: u32
  flags :: u32
  halted :: HaltReason
  snap_interval :: u32
  snap_timer :: u32

definition VMState_init :: VMState where
  "VMState_init = \<lparr>cycle_count = 0, regs = replicate 8 0, pc = 0, sp = 0, flags = 0,
     halted = HALT_RUNNING, snap_interval = 0, snap_timer = 0\<rparr>"

record MemDelta =
  run_count :: u8
  page :: u8
  offset :: u16
  old_value :: u32

record Snapshot =
  s_cycle_count :: u64
  s_regs :: "u32 list"
  s_pc :: u32
  s_sp :: u32
  s_flags :: u32
  s_halted :: HaltReason
  s_deltas :: "MemDelta list"

definition Snapshot_init :: Snapshot where
  "Snapshot_init = \<lparr>s_cycle_count = 0, s_regs = replicate 8 0, s_pc = 0, s_sp = 0, s_flags = 0,
     s_halted = HALT_RUNNING, s_deltas = []\<rparr>"

record 'w IOHooks =
  on_nondeterministic :: "(u64 \<Rightarrow> u8 \<Rightarrow> u32 \<Rightarrow> 'w \<Rightarrow> 'w) option"
  io_in :: "(u64 \<Rightarrow> 'w \<Rightarrow> (TraceMismatch + u32) \<times> 'w) option"
  io_rand :: "(u64 \<Rightarrow> 'w \<Rightarrow> (TraceMismatch + u32) \<times> 'w) option"

type_synonym 'w SnapshotSink = "VMState \<Rightarrow> Snapshot \<Rightarrow> 'w \<Rightarrow> HaltReason option \<times> 'w"

datatype DispatchMode = ComputedGoto | NaiveSwitch

type_synonym mem = "u32 \<Rightarrow> u8"

record 'w VM =
  vm_mem :: mem
  vm_state :: VMState
  vm_io :: "'w IOHooks"
  vm_sink :: "'w SnapshotSink option"
  vm_deltas :: "MemDelta list"
  vm_mode :: DispatchMode

section \<open>Memory access\<close>

definition MEM_SIZE :: nat where "MEM_SIZE = 1024 * 1024"
definition MEM_MASK :: u32 where "MEM_MASK = 0xFFFFF"

definition mem_load_u32 :: "mem \<Rightarrow> u32 \<Rightarrow> u32" where
  "mem_load_u32 m a = (
     let addr = a AND MEM_MASK;
         b0 = ucast (m addr);
         b1 = ucast (m ((addr + 1) AND MEM_MASK));
         b2 = ucast (m ((addr + 2) AND MEM_MASK));
         b3 = ucast (m ((addr + 3) AND MEM_MASK))
     in b0 OR push_bit 8 b1 OR push_bit 16 b2 OR push_bit 24 b3)"

definition mem_store_u32 :: "mem \<Rightarrow> u32 \<Rightarrow> u32 \<Rightarrow> mem" where
  "mem_store_u32 m a v = (
     let addr = a AND MEM_MASK in
     m(addr := ucast v,
       (addr + 1) AND MEM_MASK := ucast (drop_bit 8 v),
       (addr + 2) AND MEM_MASK := ucast (drop_bit 16 v),
       (addr + 3) AND MEM_MASK := ucast (drop_bit 24 v)))"

section \<open>Construction, reset, loading\<close>

definition reset_state :: "'w VM \<Rightarrow> 'w VM" where
  "reset_state vm = vm\<lparr>vm_state := VMState_init\<lparr>sp := of_nat (MEM_SIZE - 4)\<rparr>,
     vm_mem := (\<lambda>_. 0), vm_deltas := []\<rparr>"

text \<open>The constructor; \<open>default_in\<close> and \<open>default_rand\<close> are the two host closures it installs.\<close>

definition VM_new :: "(u64 \<Rightarrow> 'w \<Rightarrow> (TraceMismatch + u32) \<times> 'w) \<Rightarrow>
    (u64 \<Rightarrow> 'w \<Rightarrow> (TraceMismatch + u32) \<times> 'w) \<Rightarrow> 'w VM" where
  "VM_new default_in default_rand =
     (reset_state \<lparr>vm_mem = (\<lambda>_. 0), vm_state = VMState_init,
        vm_io = \<lparr>on_nondeterministic = None, io_in = None, io_rand = None\<rparr>,
        vm_sink = None, vm_deltas = [], vm_mode = ComputedGoto\<rparr>)
     \<lparr>vm_io := \<lparr>on_nondeterministic = None, io_in = Some default_in, io_rand = Some default_rand\<rparr>\<rparr>"

definition reset_cpu_for_reuse :: "'w VM \<Rightarrow> 'w VM" where
  "reset_cpu_for_reuse vm = vm\<lparr>vm_state := (vm_state vm)\<lparr>cycle_count := 0, pc := 0,
       sp := of_nat (MEM_SIZE - 4), flags := 0, halted := HALT_RUNNING,
       snap_interval := 0, snap_timer := 0, regs := map (\<lambda>_. 0) (regs (vm_state vm))\<rparr>,
     vm_deltas := []\<rparr>"

definition load_program :: "bytes \<Rightarrow> 'w VM \<Rightarrow> bool \<times> 'w VM" where
  "load_program bs vm = (
     if length bs > MEM_SIZE then (False, vm)
     else (True, vm\<lparr>vm_mem := (\<lambda>a. if unat a < length bs then bs ! unat a else vm_mem vm a)\<rparr>))"

definition set_io_hooks :: "'w IOHooks \<Rightarrow> 'w VM \<Rightarrow> 'w VM" where
  "set_io_hooks hooks vm = vm\<lparr>vm_io := hooks\<rparr>"

definition set_state :: "VMState \<Rightarrow> 'w VM \<Rightarrow> 'w VM" where
  "set_state s vm = vm\<lparr>vm_state := s\<rparr>"

definition set_snapshot_interval :: "u32 \<Rightarrow> 'w VM \<Rightarrow> 'w VM" where
  "set_snapshot_interval cycles vm =
     vm\<lparr>vm_state := (vm_state vm)\<lparr>snap_interval := cycles, snap_timer := cycles\<rparr>\<rparr>"

definition set_snapshot_sink :: "'w SnapshotSink option \<Rightarrow> 'w VM \<Rightarrow> 'w VM" where
  "set_snapshot_sink sink vm = vm\<lparr>vm_sink := sink\<rparr>"

definition set_dispatch_mode :: "DispatchMode \<Rightarrow> 'w VM \<Rightarrow> 'w VM" where
  "set_dispatch_mode m vm = vm\<lparr>vm_mode := m\<rparr>"

definition request_halt :: "HaltReason \<Rightarrow> 'w VM \<Rightarrow> 'w VM" where
  "request_halt r vm = vm\<lparr>vm_state := (vm_state vm)\<lparr>halted := r\<rparr>\<rparr>"

section \<open>Deltas and snapshots\<close>

definition delta_addr :: "MemDelta \<Rightarrow> u32" where
  "delta_addr d = push_bit 12 (ucast (page d)) OR ucast (offset d)"

definition apply_old_value :: "MemDelta \<Rightarrow> mem \<Rightarrow> mem" where
  "apply_old_value d m = (
     let addr = delta_addr d in
     m(addr AND MEM_MASK := ucast (old_value d),
       (addr + 1) AND MEM_MASK := ucast (drop_bit 8 (old_value d)),
       (addr + 2) AND MEM_MASK := ucast (drop_bit 16 (old_value d)),
       (addr + 3) AND MEM_MASK := ucast (drop_bit 24 (old_value d))))"

definition take_snapshot :: "'w VM \<Rightarrow> Snapshot \<times> 'w VM" where
  "take_snapshot vm = (let st = vm_state vm in
     (\<lparr>s_cycle_count = cycle_count st, s_regs = regs st, s_pc = pc st, s_sp = sp st,
       s_flags = flags st, s_halted = halted st, s_deltas = vm_deltas vm\<rparr>,
      vm\<lparr>vm_deltas := []\<rparr>))"

definition make_snapshot :: "'w VM \<times> 'w \<Rightarrow> 'w VM \<times> 'w" where
  "make_snapshot c = (case c of (vm, w) \<Rightarrow>
     (case vm_sink vm of
        None \<Rightarrow> (vm\<lparr>vm_deltas := []\<rparr>, w)
      | Some sink \<Rightarrow>
          let (s, vm1) = take_snapshot vm;
              (req, w1) = sink (vm_state vm1) s w
          in (case req of None \<Rightarrow> vm1 | Some r \<Rightarrow> request_halt r vm1, w1)))"

section \<open>Facts about memory\<close>

text \<open>Every address the code computes is masked, so it names one of the \<open>MEM_SIZE\<close> cells.\<close>

lemma masked_in_arena: "unat (a AND MEM_MASK) < MEM_SIZE"
  using unat_and_mask_less [of a 20] by (simp add: MEM_MASK_def MEM_SIZE_def mask_literals)

lemma mask_idem [simp]: "(a AND MEM_MASK) AND MEM_MASK = a AND MEM_MASK"
  by (simp add: and.assoc)

lemma masked_add: "((a AND MEM_MASK) + k) AND MEM_MASK = (a + k) AND MEM_MASK"
  by (simp add: MEM_MASK_def mask_literals mask_eqs)

text \<open>Four consecutive cells are distinct modulo the size of the arena.\<close>

lemma masked_eq_iff: "x AND MEM_MASK = y AND MEM_MASK \<longleftrightarrow> (x - y) AND MEM_MASK = 0"
proof
  assume eq: "x AND MEM_MASK = y AND MEM_MASK"
  have "(x - y) AND MEM_MASK = ((x AND MEM_MASK) - (y AND MEM_MASK)) AND MEM_MASK"
    by (simp add: MEM_MASK_def mask_literals mask_eqs)
  with eq show "(x - y) AND MEM_MASK = 0" by simp
next
  assume "(x - y) AND MEM_MASK = 0"
  moreover have "x AND MEM_MASK = (((x - y) AND MEM_MASK) + y) AND MEM_MASK"
    by (simp add: MEM_MASK_def mask_literals mask_eqs)
  ultimately show "x AND MEM_MASK = y AND MEM_MASK" by simp
qed

lemma masked_cells_distinct:
  "(a + 1) AND MEM_MASK \<noteq> a AND MEM_MASK" "(a + 2) AND MEM_MASK \<noteq> a AND MEM_MASK"
  "(a + 3) AND MEM_MASK \<noteq> a AND MEM_MASK" "(a + 2) AND MEM_MASK \<noteq> (a + 1) AND MEM_MASK"
  "(a + 3) AND MEM_MASK \<noteq> (a + 1) AND MEM_MASK" "(a + 3) AND MEM_MASK \<noteq> (a + 2) AND MEM_MASK"
  unfolding masked_eq_iff by (simp_all add: MEM_MASK_def)

lemmas masked_cells = masked_cells_distinct masked_cells_distinct [symmetric]

text \<open>A word is its four bytes.\<close>

lemma bytes_of_joined:
  fixes b0 b1 b2 b3 :: u8
  defines "v \<equiv> (ucast b0 :: u32) OR push_bit 8 (ucast b1) OR push_bit 16 (ucast b2)
    OR push_bit 24 (ucast b3)"
  shows "ucast v = b0" "ucast (drop_bit 8 v) = b1" "ucast (drop_bit 16 v) = b2"
    "ucast (drop_bit 24 v) = b3"
  unfolding v_def by (rule bit_word_eqI; auto simp: bit_simps dest: bit_imp_le_length)+

lemma joined_of_bytes:
  fixes v :: u32
  shows "ucast (ucast v :: u8) OR push_bit 8 (ucast (ucast (drop_bit 8 v) :: u8))
    OR push_bit 16 (ucast (ucast (drop_bit 16 v) :: u8))
    OR push_bit 24 (ucast (ucast (drop_bit 24 v) :: u8)) = v" (is "?lhs = v")
proof (rule bit_word_eqI)
  fix n :: nat
  assume "n < LENGTH(32)"
  then consider "n < 8" | "8 \<le> n" "n < 16" | "16 \<le> n" "n < 24" | "24 \<le> n" "n < 32"
    by fastforce
  then show "bit ?lhs n = bit v n"
    by cases (auto simp: bit_simps)
qed

lemma mem_load_store_same: "mem_load_u32 (mem_store_u32 m a v) a = v"
  by (simp add: mem_load_u32_def mem_store_u32_def Let_def masked_add masked_cells
      joined_of_bytes)

lemma mem_store_store: "mem_store_u32 (mem_store_u32 m a v) a v' = mem_store_u32 m a v'"
  by (auto simp: mem_store_u32_def Let_def fun_eq_iff)

lemma mem_store_load: "mem_store_u32 m a (mem_load_u32 m a) = m"
  by (simp only: mem_load_u32_def mem_store_u32_def Let_def bytes_of_joined fun_upd_triv)

lemma mem_store_other:
  "x \<noteq> a AND MEM_MASK \<Longrightarrow> x \<noteq> (a + 1) AND MEM_MASK \<Longrightarrow> x \<noteq> (a + 2) AND MEM_MASK \<Longrightarrow>
     x \<noteq> (a + 3) AND MEM_MASK \<Longrightarrow> mem_store_u32 m a v x = m x"
  by (simp add: mem_store_u32_def Let_def masked_add)

text \<open>A store leaves what lies outside the arena; a load reads nothing from there.\<close>

definition mem_agree :: "mem \<Rightarrow> mem \<Rightarrow> bool" where
  "mem_agree m m' \<longleftrightarrow> (\<forall>a. unat a < MEM_SIZE \<longrightarrow> m a = m' a)"

lemma mem_agree_refl [simp]: "mem_agree m m"
  by (simp add: mem_agree_def)

lemma mem_agree_masked: "mem_agree m m' \<Longrightarrow> m (a AND MEM_MASK) = m' (a AND MEM_MASK)"
  by (simp add: mem_agree_def masked_in_arena)

lemma mem_load_agree: "mem_agree m m' \<Longrightarrow> mem_load_u32 m a = mem_load_u32 m' a"
  by (simp add: mem_load_u32_def Let_def mem_agree_masked)

lemma mem_store_agree:
  "mem_agree m m' \<Longrightarrow> mem_agree (mem_store_u32 m a v) (mem_store_u32 m' a v)"
  by (auto simp: mem_agree_def mem_store_u32_def Let_def)

lemma mem_store_outside: "MEM_SIZE \<le> unat x \<Longrightarrow> mem_store_u32 m a v x = m x"
  using masked_in_arena by (intro mem_store_other) (metis not_le)+

text \<open>Undoing a delta is a store of the old value.\<close>

lemma apply_old_value_store: "apply_old_value d m = mem_store_u32 m (delta_addr d) (old_value d)"
  by (simp add: apply_old_value_def mem_store_u32_def Let_def masked_add)

end
