(* ===== verification/AsmText.thy ===== *)
theory AsmText
  imports Assembler Machine
begin

text \<open>
  What the assembler accepts and produces: programs written out in its syntax are assembled to
  their instruction words, every word it emits is a known instruction, and a failure writes nothing.
\<close>

section \<open>Words of a line\<close>

lemma split_ws_space: "isspace c \<Longrightarrow> split_ws (c # s) = split_ws s"
  by (subst split_ws.simps, subst (2) split_ws.simps) simp

lemma split_ws_word:
  assumes "w \<noteq> []" "list_all (\<lambda>c. \<not> isspace c) w" "s = [] \<or> isspace (hd s)"
  shows "split_ws (w @ s) = w # split_ws s"
proof -
  have "\<not> isspace (hd w)" using assms(1,2) by (cases w) simp_all
  then have d: "dropWhile isspace (w @ s) = w @ s" using assms(1) by (cases w) simp_all
  have t: "takeWhile (\<lambda>c. \<not> isspace c) (w @ s) = w" "dropWhile (\<lambda>c. \<not> isspace c) (w @ s) = s"
    using assms(2,3) by (cases s; simp add: list_all_iff takeWhile_append2 dropWhile_append2)+
  show ?thesis using assms(1) by (subst split_ws.simps) (simp add: d t Let_def)
qed

lemma split_ws_Nil [simp]: "split_ws [] = []"
  by (subst split_ws.simps) simp

lemma dropWhile_id: "s = [] \<or> \<not> P (hd s) \<Longrightarrow> dropWhile P s = s"
  by (cases s) auto

lemma trim_id: "s \<noteq> [] \<Longrightarrow> \<not> isspace (hd s) \<Longrightarrow> \<not> isspace (last s) \<Longrightarrow> trim s = s"
  by (simp add: trim_def dropWhile_id hd_rev)

lemma trim_trailing: "isspace c \<Longrightarrow> trim (s @ [c]) = trim s"
  by (simp add: trim_def)

lemma strip_comment_app: "CHR '';'' \<notin> set s \<Longrightarrow> strip_comment (s @ CHR '';'' # c) = s"
  unfolding strip_comment_def by (subst takeWhile_append2) auto

section \<open>Operands\<close>

text \<open>A word that contains nothing the line splitter or the comma stripper reacts to.\<close>

definition plain :: "string \<Rightarrow> bool" where
  "plain s \<longleftrightarrow> s \<noteq> [] \<and> list_all (\<lambda>c. \<not> isspace c \<and> c \<noteq> CHR '','' \<and> c \<noteq> CHR '';'' \<and> c \<noteq> CHR 0x0A \<and> c \<noteq> CHR 0x00) s"

lemma plain_app: "plain a \<Longrightarrow> plain b \<Longrightarrow> plain (a @ b)"
  by (simp add: plain_def)

lemma strip_comma_plain: "plain s \<Longrightarrow> strip_comma s = s" "plain s \<Longrightarrow> strip_comma (s @ '','') = s"
proof -
  assume s: "plain s"
  then have "\<not> comma_or_space (hd s)" "\<not> comma_or_space (last s)"
    by (simp_all add: plain_def comma_or_space_def list_all_iff)
  then have "dropWhile comma_or_space (rev s) = rev s" "dropWhile comma_or_space s = s"
    by (simp_all add: dropWhile_id hd_rev)
  then show "strip_comma s = s" "strip_comma (s @ '','') = s"
    by (simp_all add: strip_comma_def comma_or_space_def)
qed

lemma digit_plain: "is_digit 16 c \<Longrightarrow> \<not> isspace c \<and> c \<noteq> CHR '','' \<and> c \<noteq> CHR '';'' \<and> c \<noteq> CHR 0x0A \<and> c \<noteq> CHR 0x00"
  by (auto simp: is_digit_def digit_val_def isspace_def Let_def split: if_splits)

lemma is_digit_mono: "is_digit b c \<Longrightarrow> b \<le> b' \<Longrightarrow> is_digit b' c"
  by (auto simp: is_digit_def split: option.splits)

lemma fmt_base_plain: "2 \<le> b \<Longrightarrow> b \<le> 16 \<Longrightarrow> plain (fmt_base b n)"
  using fmt_base_digits [of b n] is_digit_mono [of b _ 16] digit_plain
  by (auto simp: plain_def list_all_iff)

lemma plain_fmt_u [simp]: "plain (fmt_u n)" and plain_fmt_x [simp]: "plain (fmt_x n)"
  by (simp_all add: fmt_u_def fmt_x_def fmt_base_plain)

lemma c_str_plain: "plain s \<Longrightarrow> c_str s = s"
  by (auto simp: plain_def c_str_def list_all_iff)

lemma fmt_u_small: "n < 10 \<Longrightarrow> fmt_u n = [digit_char n]"
  unfolding fmt_u_def by (subst fmt_base.simps) simp

lemma digit_chars:
  "digit_char 0 = CHR ''0''" "digit_char 1 = CHR ''1''" "digit_char 2 = CHR ''2''"
  "digit_char 3 = CHR ''3''" "digit_char 4 = CHR ''4''" "digit_char 5 = CHR ''5''"
  "digit_char 6 = CHR ''6''" "digit_char 7 = CHR ''7''"
  by code_simp+

lemma small_reg:
  assumes "n \<le> 7"
  obtains "n = 0" | "n = 1" | "n = 2" | "n = 3" | "n = 4" | "n = 5" | "n = 6" | "n = (7::nat)"
  using assms by linarith

lemma atoi_digits:
  "atoi ''0'' = 0" "atoi ''1'' = 1" "atoi ''2'' = 2" "atoi ''3'' = 3"
  "atoi ''4'' = 4" "atoi ''5'' = 5" "atoi ''6'' = 6" "atoi ''7'' = 7"
  by code_simp+

lemma atoi_digit: "n \<le> 7 \<Longrightarrow> atoi [digit_char n] = int n"
  by (elim small_reg) (simp_all only: digit_chars atoi_digits of_nat_0 of_nat_1 of_nat_numeral)

lemma parse_reg_print:
  assumes "n \<le> 7"
  shows "parse_reg (CHR ''R'' # fmt_u n) = int n"
proof -
  have d: "fmt_u n = [digit_char n]" using assms by (simp add: fmt_u_small)
  then have "c_str [digit_char n] = [digit_char n]"
    using c_str_plain [OF plain_fmt_u, of n] by simp
  then show ?thesis
    using assms by (simp add: parse_reg_def d toupper_def atoi_digit)
qed

lemma reg_operand_print:
  "n \<le> 7 \<Longrightarrow> reg_operand src l (CHR ''R'' # fmt_u n) = Inr (of_nat n)"
  by (simp add: reg_operand_def parse_reg_print)

text \<open>\<open>strtoul\<close> with base 0 on the two ways of writing a number.\<close>

lemma hd_fmt_base:
  "2 \<le> b \<Longrightarrow> b \<le> 36 \<Longrightarrow> n \<noteq> 0 \<Longrightarrow> hd (fmt_base b n) \<noteq> CHR ''0''"
proof (induction b n rule: fmt_base.induct)
  case (1 b n)
  show ?case
  proof (cases "n < b")
    case True
    have "digit_char n \<noteq> CHR ''0''"
      using digit_num_digit_char [of n] True 1 by (auto simp: digit_num_def digit_val_def)
    then show ?thesis using True by (subst fmt_base.simps) simp
  next
    case False
    then have "n div b \<noteq> 0" using 1 by (simp add: div_eq_0_iff)
    then have "hd (fmt_base b (n div b)) \<noteq> CHR ''0''" using 1 False by simp
    then show ?thesis using False 1 by (subst fmt_base.simps) simp
  qed
qed

lemma strtoul_zero: "strtoul 0 ''0'' = (0, [])"
  by (simp add: strtoul_def isspace_def is_digit_def digit_val_def digits_val_def digit_num_def
      has_hex_prefix_def ULONG_MAX_def)

lemma fmt_zero: "fmt_base b 0 = ''0''"
  by (subst fmt_base.simps) (auto simp: digit_chars)

lemma strtoul_0_digits:
  assumes "s \<noteq> []" "list_all (is_digit 10) s" "hd s \<noteq> CHR ''0''" "digits_val 10 s \<le> ULONG_MAX"
  shows "strtoul 0 s = (of_nat (digits_val 10 s), [])"
proof -
  have hd: "is_digit 10 (hd s)" using assms(1,2) by (cases s) simp_all
  have ws: "dropWhile isspace s = s" using assms(1) hd by (rule dropWhile_isspace_digit)
  have sg: "hd s \<noteq> CHR ''-''" "hd s \<noteq> CHR ''+''" using not_sign_digit [OF hd] by simp_all
  have hex: "\<not> has_hex_prefix s" using assms(3) by (auto simp: has_hex_prefix_def split: list.splits)
  have tw: "takeWhile (is_digit 10) s = s" "dropWhile (is_digit 10) s = []"
    using assms(2) by (simp_all add: list_all_iff)
  show ?thesis using assms(1,3,4) sg hex by (simp add: strtoul_def ws tw)
qed

lemma strtoul_0_fmt_u: "n \<le> ULONG_MAX \<Longrightarrow> strtoul 0 (fmt_u n) = (of_nat n, [])"
proof (cases "n = 0")
  case False
  assume "n \<le> ULONG_MAX"
  then show ?thesis
    using False strtoul_0_digits [of "fmt_u n"] fmt_base_digits [of 10 n] hd_fmt_base [of 10 n]
    by (simp add: fmt_u_def digits_val_fmt_base)
qed (simp add: fmt_u_def fmt_zero strtoul_zero)

lemma strtoul_0_fmt_x: "n \<le> ULONG_MAX \<Longrightarrow> strtoul 0 (''0x'' @ fmt_x n) = (of_nat n, [])"
proof -
  assume n: "n \<le> ULONG_MAX"
  have all: "list_all (is_digit 16) (fmt_x n)" by (simp add: fmt_x_def fmt_base_digits)
  have ne: "fmt_x n \<noteq> []" by (simp add: fmt_x_def)
  have hex: "has_hex_prefix (''0x'' @ fmt_x n)"
    using all ne by (cases "fmt_x n") (simp_all add: has_hex_prefix_def)
  have tw: "takeWhile (is_digit 16) (fmt_x n) = fmt_x n" "dropWhile (is_digit 16) (fmt_x n) = []"
    using all by (simp_all add: list_all_iff)
  have v: "digits_val 16 (fmt_x n) = n" by (simp add: fmt_x_def digits_val_fmt_base)
  show ?thesis using hex ne n by (simp add: strtoul_def isspace_def tw v)
qed

lemma fits_20: "n < 2 ^ 20 \<Longrightarrow> n \<le> ULONG_MAX \<and> \<not> (of_nat n :: u64) > 0xFFFFF \<and> ucast (of_nat n :: u64) = (of_nat n :: u32)"
proof (intro conjI)
  assume n: "n < 2 ^ 20"
  then show "n \<le> ULONG_MAX" by (simp add: ULONG_MAX_def)
  have "take_bit 64 n = n" using n by (intro take_bit_nat_eq_self) simp
  then have "unat (of_nat n :: u64) = n" by (simp add: unsigned_of_nat)
  then show "\<not> (of_nat n :: u64) > 0xFFFFF" using n by (simp add: word_less_nat_alt)
  have "take_bit 32 n = n" using n by (intro take_bit_nat_eq_self) simp
  then have "unat (of_nat n :: u32) = n" by (simp add: unsigned_of_nat)
  moreover have "unat (ucast (of_nat n :: u64) :: u32) = n"
    unfolding unat_narrow \<open>unat (of_nat n :: u64) = n\<close> using n by simp
  ultimately show "ucast (of_nat n :: u64) = (of_nat n :: u32)" by (metis word_unat_eq_iff)
qed

lemma parse_imm_print:
  assumes "n < 2 ^ 20"
  shows "parse_imm src l (fmt_u n) = Inr (of_nat n)" "parse_imm src l (''0x'' @ fmt_x n) = Inr (of_nat n)"
proof -
  have "plain ''0x''" by (simp add: plain_def isspace_def)
  then have c: "c_str (''0x'' @ fmt_x n) = ''0x'' @ fmt_x n"
    by (intro c_str_plain plain_app plain_fmt_x)
  show "parse_imm src l (fmt_u n) = Inr (of_nat n)"
    unfolding parse_imm_def c_str_plain [OF plain_fmt_u]
    using fits_20 [OF assms] strtoul_0_fmt_u [of n] plain_fmt_u [of n] by (simp add: plain_def)
  show "parse_imm src l (''0x'' @ fmt_x n) = Inr (of_nat n)"
    unfolding parse_imm_def c using fits_20 [OF assms] strtoul_0_fmt_x [of n] by simp
qed

section \<open>Programs\<close>

text \<open>The instructions as a language, and the words they stand for.\<close>

datatype instr = I_HALT | I_LOAD nat nat | I_STORE nat nat | I_ADD nat nat | I_SUB nat nat
  | I_MUL nat nat | I_DIV nat nat | I_JUMP nat | I_JNZ nat nat | I_IN nat | I_RAND nat | I_LI nat nat

fun valid_instr :: "instr \<Rightarrow> bool" where
  "valid_instr I_HALT = True"
| "valid_instr (I_LOAD d i) = (d \<le> 7 \<and> i < 2 ^ 20)"
| "valid_instr (I_STORE d i) = (d \<le> 7 \<and> i < 2 ^ 20)"
| "valid_instr (I_ADD d s) = (d \<le> 7 \<and> s \<le> 7)"
| "valid_instr (I_SUB d s) = (d \<le> 7 \<and> s \<le> 7)"
| "valid_instr (I_MUL d s) = (d \<le> 7 \<and> s \<le> 7)"
| "valid_instr (I_DIV d s) = (d \<le> 7 \<and> s \<le> 7)"
| "valid_instr (I_JUMP i) = (i < 2 ^ 20)"
| "valid_instr (I_JNZ d i) = (d \<le> 7 \<and> i < 2 ^ 20)"
| "valid_instr (I_IN d) = (d \<le> 7)"
| "valid_instr (I_RAND d) = (d \<le> 7)"
| "valid_instr (I_LI d i) = (d \<le> 7 \<and> i < 2 ^ 20)"

fun instr_word :: "instr \<Rightarrow> u32" where
  "instr_word I_HALT = encode (ucast OP_HALT) 0 0 0"
| "instr_word (I_LOAD d i) = encode (ucast OP_LOAD) (of_nat d) 0 (of_nat i)"
| "instr_word (I_STORE d i) = encode (ucast OP_STORE) (of_nat d) 0 (of_nat i)"
| "instr_word (I_ADD d s) = encode (ucast OP_ADD) (of_nat d) (of_nat s) 0"
| "instr_word (I_SUB d s) = encode (ucast OP_SUB) (of_nat d) (of_nat s) 0"
| "instr_word (I_MUL d s) = encode (ucast OP_MUL) (of_nat d) (of_nat s) 0"
| "instr_word (I_DIV d s) = encode (ucast OP_DIV) (of_nat d) (of_nat s) 0"
| "instr_word (I_JUMP i) = encode (ucast OP_JUMP) 0 0 (of_nat i)"
| "instr_word (I_JNZ d i) = encode (ucast OP_JNZ) (of_nat d) 0 (of_nat i)"
| "instr_word (I_IN d) = encode (ucast OP_IN) (of_nat d) 0 0"
| "instr_word (I_RAND d) = encode (ucast OP_RAND) (of_nat d) 0 0"
| "instr_word (I_LI d i) = encode (ucast OP_LI) (of_nat d) 0 (of_nat i)"

text \<open>
  What the line parser makes of a line with one, two or three words, the last without a comma.
  Between the mnemonic and the operands any number of blanks is allowed.
\<close>

lemma split_blanks: "split_ws (replicate k (CHR '' '') @ s) = split_ws s"
  by (induction k) (simp_all add: split_ws_space isspace_def)

lemma plain_nospace: "plain s \<Longrightarrow> list_all (\<lambda>c. \<not> isspace c) s \<and> s \<noteq> []"
  by (auto simp: plain_def list_all_iff)

lemma plain_ends: "plain s \<Longrightarrow> \<not> isspace (hd s) \<and> \<not> isspace (last s)"
  by (simp add: plain_def list_all_iff)

lemma line_words:
  assumes "plain m" "plain a" "plain b"
  shows "split_ws m = [m]"
    "split_ws (m @ replicate (Suc k) (CHR '' '') @ a) = [m, a]"
    "split_ws (m @ replicate (Suc k) (CHR '' '') @ (a @ '','') @ '' '' @ b) = [m, a @ '','', b]"
proof -
  note w = assms [THEN plain_nospace]
  have sp: "isspace (CHR '' '')" by (simp add: isspace_def)
  have one: "split_ws x = [x]" if "plain x" for x
    using split_ws_word [of x "[]"] plain_nospace [OF that] by simp
  show "split_ws m = [m]" using assms(1) by (rule one)
  have two: "split_ws (m @ replicate (Suc k) (CHR '' '') @ s) = m # split_ws s" for s
    using split_ws_word [of m "replicate (Suc k) (CHR '' '') @ s"] w(1) sp split_blanks [of "Suc k" s]
    by simp
  show "split_ws (m @ replicate (Suc k) (CHR '' '') @ a) = [m, a]"
    using two [of a] one [OF assms(2)] by simp
  have "list_all (\<lambda>c. \<not> isspace c) (a @ '','')" using w(2) by (simp add: isspace_def)
  then have "split_ws ((a @ '','') @ '' '' @ b) = (a @ '','') # split_ws ('' '' @ b)"
    by (intro split_ws_word) (simp_all add: sp)
  moreover have "split_ws ('' '' @ b) = [b]"
    using split_ws_space [OF sp, of b] one [OF assms(3)] by simp
  ultimately show "split_ws (m @ replicate (Suc k) (CHR '' '') @ (a @ '','') @ '' '' @ b) = [m, a @ '','', b]"
    using two [of "(a @ '','') @ '' '' @ b"] by simp
qed

text \<open>Operands as the assembler finds them in such lines.\<close>

lemma plain_reg [simp]: "plain (CHR ''R'' # fmt_u d)"
proof -
  have "plain ''R''" by (simp add: plain_def isspace_def)
  from plain_app [OF this plain_fmt_u] show ?thesis by simp
qed

lemma word_at_simps:
  "word_at 0 (x # xs) = x" "word_at 1 [x] = []" "word_at 1 (x # y # xs) = y"
  "word_at (Suc 0) [x] = []" "word_at (Suc 0) (x # y # xs) = y"
  "word_at 2 [x] = []" "word_at 2 [x, y] = []" "word_at 2 (x # y # z # xs) = z"
  by (simp_all add: word_at_def)

lemma opcode_of:
  "map_of kOpcodes (upcase ''HALT'') = Some 0" "map_of kOpcodes (upcase ''LOAD'') = Some 1"
  "map_of kOpcodes (upcase ''STORE'') = Some 2" "map_of kOpcodes (upcase ''ADD'') = Some 3"
  "map_of kOpcodes (upcase ''SUB'') = Some 4" "map_of kOpcodes (upcase ''MUL'') = Some 5"
  "map_of kOpcodes (upcase ''DIV'') = Some 6" "map_of kOpcodes (upcase ''JUMP'') = Some 7"
  "map_of kOpcodes (upcase ''JNZ'') = Some 8" "map_of kOpcodes (upcase ''IN'') = Some 9"
  "map_of kOpcodes (upcase ''RAND'') = Some 10" "map_of kOpcodes (upcase ''LI'') = Some 11"
  by (simp_all add: kOpcodes_def upcase_def toupper_def const_defs)

lemma operands_of:
  "asm_operands src l t 0 a b = Inr (0, 0, 0)"
  "asm_operands src l t 9 a b = (case reg_operand src l a of Inl e \<Rightarrow> Inl e | Inr d \<Rightarrow> Inr (d, 0, 0))"
  "asm_operands src l t 10 a b = (case reg_operand src l a of Inl e \<Rightarrow> Inl e | Inr d \<Rightarrow> Inr (d, 0, 0))"
  "asm_operands src l t 7 a b = (case parse_imm src l a of Inl e \<Rightarrow> Inl e | Inr i \<Rightarrow> Inr (0, 0, i))"
  "op \<in> {3, 4, 5, 6} \<Longrightarrow> asm_operands src l t op a b =
     (case reg_operand src l a of Inl e \<Rightarrow> Inl e | Inr d \<Rightarrow>
       (case reg_operand src l b of Inl e \<Rightarrow> Inl e | Inr s \<Rightarrow> Inr (d, s, 0)))"
  "op \<in> {1, 2, 8, 11} \<Longrightarrow> asm_operands src l t op a b =
     (case reg_operand src l a of Inl e \<Rightarrow> Inl e | Inr d \<Rightarrow>
       (case parse_imm src l b of Inl e \<Rightarrow> Inl e | Inr i \<Rightarrow> Inr (d, 0, i)))"
  by (auto simp: asm_operands_def const_defs)

lemma asm_two_regs:
  assumes "d \<le> 7" "s \<le> 7" and m: "map_of kOpcodes (upcase m) = Some op" "op \<in> {3, 4, 5, 6}"
  shows "asm_words src l [m, CHR ''R'' # fmt_u d @ '','', CHR ''R'' # fmt_u s] =
    Inr (encode op (of_nat d) (of_nat s) 0)"
proof -
  have "strip_comma (CHR ''R'' # fmt_u d @ '','') = CHR ''R'' # fmt_u d"
    "strip_comma (CHR ''R'' # fmt_u s) = CHR ''R'' # fmt_u s"
    using strip_comma_plain [OF plain_reg, of d] strip_comma_plain [OF plain_reg, of s] by simp_all
  then show ?thesis
    using assms(1,2) by (simp add: asm_words_def word_at_simps m operands_of(5) [OF m(2)] reg_operand_print)
qed

lemma asm_reg_imm:
  assumes "d \<le> 7" "plain n" "parse_imm src l n = Inr (of_nat i)"
    and m: "map_of kOpcodes (upcase m) = Some op" "op \<in> {1, 2, 8, 11}"
  shows "asm_words src l [m, CHR ''R'' # fmt_u d @ '','', n] = Inr (encode op (of_nat d) 0 (of_nat i))"
proof -
  have "strip_comma (CHR ''R'' # fmt_u d @ '','') = CHR ''R'' # fmt_u d" "strip_comma n = n"
    using strip_comma_plain [OF plain_reg, of d] strip_comma_plain [OF assms(2)] by simp_all
  then show ?thesis
    using assms(1,3) by (simp add: asm_words_def word_at_simps m operands_of(6) [OF m(2)] reg_operand_print)
qed

lemma asm_one_reg:
  assumes "d \<le> 7" and m: "map_of kOpcodes (upcase m) = Some op" "op \<in> {9, 10}"
  shows "asm_words src l [m, CHR ''R'' # fmt_u d] = Inr (encode op (of_nat d) 0 0)"
  using m(2) strip_comma_plain(1) [OF plain_reg, of d] assms(1)
  by (auto simp: asm_words_def word_at_simps m(1) operands_of(2,3) reg_operand_print)

lemma asm_halt: "asm_words src l [''HALT''] = Inr (encode 0 0 0 0)"
  by (simp add: asm_words_def word_at_simps opcode_of operands_of(1))

lemma asm_jump:
  "parse_imm src l n = Inr (of_nat i) \<Longrightarrow> plain n \<Longrightarrow>
    asm_words src l [''JUMP'', n] = Inr (encode 7 0 0 (of_nat i))"
  by (simp add: asm_words_def word_at_simps opcode_of operands_of(4) strip_comma_plain)

text \<open>A line of text is the instruction of its words, with or without a comment.\<close>

definition clean :: "string \<Rightarrow> bool" where
  "clean t \<longleftrightarrow> t \<noteq> [] \<and> \<not> isspace (hd t) \<and> \<not> isspace (last t) \<and> CHR '';'' \<notin> set t \<and> CHR 0x0A \<notin> set t"

lemma asm_line_clean:
  assumes "clean t"
  shows "asm_line src l t = map_sum id Some (asm_words src l (split_ws t))"
    and "asm_line src l (t @ '' ;'' @ c) = map_sum id Some (asm_words src l (split_ws t))"
proof -
  have t: "trim t = t" "t \<noteq> []" using assms by (simp_all add: clean_def trim_id)
  have "strip_comment t = t" using assms unfolding clean_def strip_comment_def
    by (subst takeWhile_eq_all_conv) auto
  then show "asm_line src l t = map_sum id Some (asm_words src l (split_ws t))"
    using t by (simp add: asm_line_def)
  have "strip_comment ((t @ '' '') @ CHR '';'' # c) = t @ '' ''"
    using assms by (intro strip_comment_app) (simp add: clean_def)
  then show "asm_line src l (t @ '' ;'' @ c) = map_sum id Some (asm_words src l (split_ws t))"
    using t trim_trailing [of "CHR '' ''" t] by (simp add: asm_line_def isspace_def)
qed

lemma clean_plain: "plain t \<Longrightarrow> clean t"
  by (auto simp: plain_def clean_def list_all_iff)

lemma clean_app: "clean s \<Longrightarrow> CHR '';'' \<notin> set u \<Longrightarrow> CHR 0x0A \<notin> set u \<Longrightarrow> clean t \<Longrightarrow> clean (s @ u @ t)"
  by (simp add: clean_def)

lemma plain_mnemonics:
  "plain ''HALT''" "plain ''LOAD''" "plain ''STORE''" "plain ''ADD''" "plain ''SUB''" "plain ''MUL''"
  "plain ''DIV''" "plain ''JUMP''" "plain ''JNZ''" "plain ''IN''" "plain ''RAND''" "plain ''LI''"
  by (simp_all add: plain_def isspace_def)

text \<open>The three shapes of a line, with any number of blanks after the mnemonic.\<close>

definition blanks :: "nat \<Rightarrow> string" where
  "blanks k = replicate (Suc k) (CHR '' '')"

lemma blanks_no_special: "CHR '';'' \<notin> set (blanks k)" "CHR 0x0A \<notin> set (blanks k)"
  by (auto simp: blanks_def)

lemma blanks_0: "blanks 0 = '' ''"
  by (simp add: blanks_def)

lemma two_words:
  assumes "plain m" "plain a"
  shows "split_ws (m @ blanks k @ a) = [m, a]" "clean (m @ blanks k @ a)"
  using line_words(2) [OF assms assms(2)] clean_app [OF clean_plain [OF assms(1)] blanks_no_special
      clean_plain [OF assms(2)]]
  by (simp_all add: blanks_def)

lemma three_words:
  assumes "plain m" "plain a" "plain b"
  shows "split_ws (m @ blanks k @ a @ '', '' @ b) = [m, a @ '','', b]" "clean (m @ blanks k @ a @ '', '' @ b)"
proof -
  show "split_ws (m @ blanks k @ a @ '', '' @ b) = [m, a @ '','', b]"
    using line_words(3) [OF assms, of k] by (simp add: blanks_def)
  have "clean (a @ '', '' @ b)"
    by (rule clean_app) (simp_all add: clean_plain assms)
  from clean_app [OF clean_plain [OF assms(1)] blanks_no_special [of k] this]
  show "clean (m @ blanks k @ a @ '', '' @ b)" by simp
qed

definition assembles :: "string \<Rightarrow> u32 \<Rightarrow> bool" where
  "assembles t v \<longleftrightarrow> clean t \<and> (\<forall>src l. asm_words src l (split_ws t) = Inr v)"

lemma assembles_two_regs:
  assumes "d \<le> 7" "s \<le> 7" "plain m" "map_of kOpcodes (upcase m) = Some op" "op \<in> {3, 4, 5, 6}"
  shows "assembles (m @ blanks k @ (CHR ''R'' # fmt_u d) @ '', '' @ (CHR ''R'' # fmt_u s))
    (encode op (of_nat d) (of_nat s) 0)"
  unfolding assembles_def three_words(1) [OF assms(3) plain_reg plain_reg]
  using three_words(2) [OF assms(3) plain_reg plain_reg] asm_two_regs [OF assms(1,2,4,5)] by simp

lemma assembles_reg_imm:
  assumes "d \<le> 7" "plain n" "\<And>src l. parse_imm src l n = Inr (of_nat i)" "plain m"
    "map_of kOpcodes (upcase m) = Some op" "op \<in> {1, 2, 8, 11}"
  shows "assembles (m @ blanks k @ (CHR ''R'' # fmt_u d) @ '', '' @ n) (encode op (of_nat d) 0 (of_nat i))"
  unfolding assembles_def three_words(1) [OF assms(4) plain_reg assms(2)]
  using three_words(2) [OF assms(4) plain_reg assms(2)] asm_reg_imm [OF assms(1,2,3,5,6)] by simp

lemma assembles_one_reg:
  assumes "d \<le> 7" "plain m" "map_of kOpcodes (upcase m) = Some op" "op \<in> {9, 10}"
  shows "assembles (m @ blanks k @ CHR ''R'' # fmt_u d) (encode op (of_nat d) 0 0)"
  unfolding assembles_def two_words(1) [OF assms(2) plain_reg]
  using two_words(2) [OF assms(2) plain_reg] asm_one_reg [OF assms(1,3,4)] by simp

lemma assembles_jump:
  assumes "plain n" "\<And>src l. parse_imm src l n = Inr (of_nat i)"
  shows "assembles (''JUMP'' @ blanks k @ n) (encode 7 0 0 (of_nat i))"
  unfolding assembles_def two_words(1) [OF plain_mnemonics(8) assms(1)]
  using two_words(2) [OF plain_mnemonics(8) assms(1)] asm_jump [OF assms(2,1)] by simp

lemma assembles_halt: "assembles ''HALT'' (encode 0 0 0 0)"
  unfolding assembles_def line_words(1) [OF plain_mnemonics(1) plain_reg plain_reg]
  using clean_plain [OF plain_mnemonics(1)] asm_halt by simp

section \<open>Source texts\<close>

text \<open>
  How an instruction may be written: the mnemonic in any letter case, a register as \<open>R\<close> or \<open>r\<close> and its
  number, an immediate in decimal or in hexadecimal, and the first of two operands with or without a
  comma behind it.
\<close>

definition mnemonic :: "string \<Rightarrow> string \<Rightarrow> bool" where
  "mnemonic m w \<longleftrightarrow> upcase w = m"

definition reg_word :: "nat \<Rightarrow> string \<Rightarrow> bool" where
  "reg_word d w \<longleftrightarrow> w = ''R'' @ fmt_u d \<or> w = ''r'' @ fmt_u d"

definition imm_word :: "nat \<Rightarrow> string \<Rightarrow> bool" where
  "imm_word n w \<longleftrightarrow> w = fmt_u n \<or> w = ''0x'' @ fmt_x n"

definition first_operand :: "(string \<Rightarrow> bool) \<Rightarrow> string \<Rightarrow> bool" where
  "first_operand P w \<longleftrightarrow> P w \<or> (w \<noteq> [] \<and> last w = CHR '','' \<and> P (butlast w))"

fun spelling :: "instr \<Rightarrow> (string \<Rightarrow> bool) list" where
  "spelling I_HALT = [mnemonic ''HALT'']"
| "spelling (I_LOAD d i) = [mnemonic ''LOAD'', first_operand (reg_word d), imm_word i]"
| "spelling (I_STORE d i) = [mnemonic ''STORE'', first_operand (reg_word d), imm_word i]"
| "spelling (I_ADD d s) = [mnemonic ''ADD'', first_operand (reg_word d), reg_word s]"
| "spelling (I_SUB d s) = [mnemonic ''SUB'', first_operand (reg_word d), reg_word s]"
| "spelling (I_MUL d s) = [mnemonic ''MUL'', first_operand (reg_word d), reg_word s]"
| "spelling (I_DIV d s) = [mnemonic ''DIV'', first_operand (reg_word d), reg_word s]"
| "spelling (I_JUMP i) = [mnemonic ''JUMP'', imm_word i]"
| "spelling (I_JNZ d i) = [mnemonic ''JNZ'', first_operand (reg_word d), imm_word i]"
| "spelling (I_IN d) = [mnemonic ''IN'', reg_word d]"
| "spelling (I_RAND d) = [mnemonic ''RAND'', reg_word d]"
| "spelling (I_LI d i) = [mnemonic ''LI'', first_operand (reg_word d), imm_word i]"

text \<open>
  A line: its instruction, if it has one, written in words with the white space after each of them,
  and perhaps a comment. A source is a list of lines; the last newline of the file may be missing.
\<close>

record src_line =
  al_instr :: "instr option"
  al_indent :: string
  al_words :: "(string \<times> string) list"
  al_comment :: "string option"

type_synonym asm_source = "src_line list"

definition source_line :: "src_line \<Rightarrow> string" where
  "source_line l = al_indent l @ concat (map (\<lambda>(w, s). w @ s) (al_words l)) @
     (case al_comment l of None \<Rightarrow> [] | Some c \<Rightarrow> '';'' @ c)"

definition source_text :: "asm_source \<Rightarrow> string" where
  "source_text prog = concat (map (\<lambda>l. source_line l @ nl) prog)"

definition white :: "string \<Rightarrow> bool" where
  "white s \<longleftrightarrow> list_all (\<lambda>c. isspace c \<and> c \<noteq> CHR 0x0A) s"

definition valid_line :: "src_line \<Rightarrow> bool" where
  "valid_line l \<longleftrightarrow> white (al_indent l) \<and> list_all (\<lambda>(w, s). white s) (al_words l)
     \<and> list_all (\<lambda>(w, s). s \<noteq> []) (butlast (al_words l))
     \<and> (case al_comment l of None \<Rightarrow> True | Some c \<Rightarrow> CHR 0x0A \<notin> set c)
     \<and> (case al_instr l of None \<Rightarrow> al_words l = []
        | Some i \<Rightarrow> valid_instr i \<and> list_all2 (\<lambda>P w. P w) (spelling i) (map fst (al_words l)))"

definition valid_source :: "asm_source \<Rightarrow> bool" where
  "valid_source prog \<longleftrightarrow> list_all valid_line prog"

definition source_instrs :: "asm_source \<Rightarrow> instr list" where
  "source_instrs prog = List.map_filter al_instr prog"

definition source_words :: "asm_source \<Rightarrow> u32 list" where
  "source_words prog = map instr_word (source_instrs prog)"

lemma valid_source_instrs: "valid_source prog \<Longrightarrow> list_all valid_instr (source_instrs prog)"
  by (auto simp: valid_source_def source_instrs_def valid_line_def list_all_iff List.map_filter_def split: option.splits)

text \<open>The words of an instruction assemble to its word, however it is written.\<close>

lemma upcase_known:
  assumes "upcase w = m" "plain m"
  shows "plain w"
proof -
  have "\<not> isspace c \<and> c \<noteq> CHR '','' \<and> c \<noteq> CHR '';'' \<and> c \<noteq> CHR 0x0A \<and> c \<noteq> CHR 0x00" if "c \<in> set w" for c
  proof -
    have "toupper c \<in> set m" using that assms(1) by (auto simp: upcase_def)
    then have t: "\<not> isspace (toupper c) \<and> toupper c \<noteq> CHR '','' \<and> toupper c \<noteq> CHR '';'' \<and> toupper c \<noteq> CHR 0x0A
        \<and> toupper c \<noteq> CHR 0x00"
      using assms(2) by (simp add: plain_def list_all_iff)
    have fixed: "toupper x = x" if "isspace x \<or> x = CHR '','' \<or> x = CHR '';'' \<or> x = CHR 0x0A \<or> x = CHR 0x00" for x
      using that by (auto simp: isspace_def toupper_def)
    show ?thesis
    proof (rule ccontr)
      assume no: "\<not> ?thesis"
      then have "toupper c = c" by (intro fixed) blast
      with no t show False by simp
    qed
  qed
  moreover have "w \<noteq> []" using assms by (auto simp: upcase_def plain_def)
  ultimately show ?thesis by (simp add: plain_def list_all_iff)
qed

lemma reg_word_plain: "reg_word d w \<Longrightarrow> plain w"
proof -
  assume "reg_word d w"
  moreover have "plain ''R''" "plain ''r''" by (simp_all add: plain_def isspace_def)
  then have "plain (''R'' @ fmt_u d)" "plain (''r'' @ fmt_u d)" by (simp_all only: plain_app plain_fmt_u)
  ultimately show ?thesis by (auto simp: reg_word_def)
qed

lemma reg_word_operand:
  assumes "reg_word d w" "d \<le> 7"
  shows "reg_operand src l w = Inr (of_nat d)"
proof -
  have "toupper (CHR ''r'') = CHR ''R''" "toupper (CHR ''R'') = CHR ''R''" by code_simp+
  then have "parse_reg (''r'' @ fmt_u d) = parse_reg (''R'' @ fmt_u d)" by (simp add: parse_reg_def)
  then have "parse_reg w = int d" using assms parse_reg_print [of d] by (auto simp: reg_word_def)
  then show ?thesis by (simp add: reg_operand_def)
qed

lemma imm_word_plain: "imm_word n w \<Longrightarrow> plain w"
proof -
  have "plain ''0x''" by (simp add: plain_def isspace_def)
  then have "plain (''0x'' @ fmt_x n)" by (simp only: plain_app plain_fmt_x)
  then show "imm_word n w \<Longrightarrow> plain w" by (auto simp: imm_word_def)
qed

lemma imm_word_value: "imm_word n w \<Longrightarrow> n < 2 ^ 20 \<Longrightarrow> parse_imm src l w = Inr (of_nat n)"
  using parse_imm_print by (auto simp: imm_word_def)

lemma first_operand_stripped:
  assumes "first_operand P w" "\<And>t. P t \<Longrightarrow> plain t"
  shows "P (strip_comma w)"
proof (cases "P w")
  case True
  then show ?thesis using strip_comma_plain(1) [OF assms(2)] by simp
next
  case False
  with assms(1) have w: "w \<noteq> []" "last w = CHR '',''" "P (butlast w)" by (simp_all add: first_operand_def)
  then have "w = butlast w @ '',''" using append_butlast_last_id [of w] by simp
  then show ?thesis using w(3) strip_comma_plain(2) [OF assms(2) [OF w(3)]] by metis
qed

text \<open>No word contains white space or a semicolon.\<close>

definition solid :: "string \<Rightarrow> bool" where
  "solid w \<longleftrightarrow> w \<noteq> [] \<and> list_all (\<lambda>c. \<not> isspace c \<and> c \<noteq> CHR '';'') w"

lemma solid_plain: "plain w \<Longrightarrow> solid w"
  by (auto simp: plain_def solid_def list_all_iff)

lemma solid_first_operand:
  assumes "first_operand P w" "\<And>t. P t \<Longrightarrow> plain t"
  shows "solid w"
proof (cases "P w")
  case False
  with assms have w: "w \<noteq> []" "last w = CHR '',''" "solid (butlast w)"
    by (simp_all add: first_operand_def solid_plain)
  then have "w = butlast w @ '',''" using append_butlast_last_id [of w] by simp
  moreover have "solid (butlast w @ '','')" using w(3) by (simp add: solid_def isspace_def)
  ultimately show ?thesis by simp
qed (simp add: assms(2) solid_plain)

lemma get_line_nl: "CHR 0x0A \<notin> set l \<Longrightarrow> get_line (l @ nl @ rest) = Some (l, rest)"
proof -
  assume "CHR 0x0A \<notin> set l"
  then have "takeWhile (\<lambda>c. c \<noteq> CHR 0x0A) (l @ nl @ rest) = l"
    "dropWhile (\<lambda>c. c \<noteq> CHR 0x0A) (l @ nl @ rest) = nl @ rest"
    by (subst takeWhile_append2 dropWhile_append2; auto simp: nl_def)+
  then show ?thesis by (simp add: get_line_def) (simp add: nl_def)
qed

lemma opcodes:
  "map_of kOpcodes ''HALT'' = Some 0" "map_of kOpcodes ''LOAD'' = Some 1" "map_of kOpcodes ''STORE'' = Some 2"
  "map_of kOpcodes ''ADD'' = Some 3" "map_of kOpcodes ''SUB'' = Some 4" "map_of kOpcodes ''MUL'' = Some 5"
  "map_of kOpcodes ''DIV'' = Some 6" "map_of kOpcodes ''JUMP'' = Some 7" "map_of kOpcodes ''JNZ'' = Some 8"
  "map_of kOpcodes ''IN'' = Some 9" "map_of kOpcodes ''RAND'' = Some 10" "map_of kOpcodes ''LI'' = Some 11"
  by (simp_all add: kOpcodes_def const_defs)

lemma words_two_regs:
  assumes "mnemonic m w" "map_of kOpcodes m = Some op" "op \<in> {3, 4, 5, 6}" "first_operand (reg_word d) a" "reg_word s b"
    "d \<le> 7" "s \<le> 7"
  shows "asm_words src l [w, a, b] = Inr (encode op (of_nat d) (of_nat s) 0)"
  using assms(1,2) reg_word_operand [OF first_operand_stripped [OF assms(4) reg_word_plain] assms(6)]
    reg_word_operand [OF assms(5,7)] strip_comma_plain(1) [OF reg_word_plain [OF assms(5)]]
  by (simp add: asm_words_def word_at_simps mnemonic_def operands_of(5) [OF assms(3)])

lemma words_reg_imm:
  assumes "mnemonic m w" "map_of kOpcodes m = Some op" "op \<in> {1, 2, 8, 11}" "first_operand (reg_word d) a" "imm_word i b"
    "d \<le> 7" "i < 2 ^ 20"
  shows "asm_words src l [w, a, b] = Inr (encode op (of_nat d) 0 (of_nat i))"
  using assms(1,2) reg_word_operand [OF first_operand_stripped [OF assms(4) reg_word_plain] assms(6)]
    imm_word_value [OF assms(5,7)] strip_comma_plain(1) [OF imm_word_plain [OF assms(5)]]
  by (simp add: asm_words_def word_at_simps mnemonic_def operands_of(6) [OF assms(3)])

lemma words_one_reg:
  assumes "mnemonic m w" "map_of kOpcodes m = Some op" "op \<in> {9, 10}" "reg_word d a" "d \<le> 7"
  shows "asm_words src l [w, a] = Inr (encode op (of_nat d) 0 0)"
  using assms(1-3) reg_word_operand [OF assms(4,5)] strip_comma_plain(1) [OF reg_word_plain [OF assms(4)]]
  by (auto simp: asm_words_def word_at_simps mnemonic_def operands_of(2,3))

lemma words_jump:
  assumes "mnemonic ''JUMP'' w" "imm_word i a" "i < 2 ^ 20"
  shows "asm_words src l [w, a] = Inr (encode 7 0 0 (of_nat i))"
  using assms(1) imm_word_value [OF assms(2,3)] strip_comma_plain(1) [OF imm_word_plain [OF assms(2)]]
  by (simp add: asm_words_def word_at_simps mnemonic_def opcodes operands_of(4))

lemma words_halt: "mnemonic ''HALT'' w \<Longrightarrow> asm_words src l [w] = Inr (encode 0 0 0 0)"
  by (simp add: asm_words_def word_at_simps mnemonic_def opcodes operands_of(1))

text \<open>What a list of words looks like that spells an instruction.\<close>

lemma spelled_cases:
  "list_all2 (\<lambda>P w. P w) [P] ws \<longleftrightarrow> (\<exists>a. ws = [a] \<and> P a)"
  "list_all2 (\<lambda>P w. P w) [P, Q] ws \<longleftrightarrow> (\<exists>a b. ws = [a, b] \<and> P a \<and> Q b)"
  "list_all2 (\<lambda>P w. P w) [P, Q, R] ws \<longleftrightarrow> (\<exists>a b c. ws = [a, b, c] \<and> P a \<and> Q b \<and> R c)"
  by (auto simp: list_all2_Cons1)

lemma spelled_word:
  assumes "list_all2 (\<lambda>P w. P w) (spelling i) ws" "valid_instr i"
  shows "asm_words src l ws = Inr (instr_word i)"
  using assms
  by (cases i) (auto simp: spelled_cases const_defs opcodes words_halt words_jump
      intro!: words_two_regs words_reg_imm words_one_reg)

lemma solid_mnemonic:
  assumes "mnemonic m w" "plain m"
  shows "solid w"
  using upcase_known [OF _ assms(2)] assms(1) by (simp add: mnemonic_def solid_plain)

lemma spelled_solid:
  assumes "list_all2 (\<lambda>P w. P w) (spelling i) ws"
  shows "list_all solid ws" "ws \<noteq> []"
proof -
  have reg: "first_operand (reg_word d) w \<Longrightarrow> solid w" "reg_word d w \<Longrightarrow> solid w" "imm_word d w \<Longrightarrow> solid w" for d w
    by (erule solid_first_operand, erule reg_word_plain) (intro solid_plain reg_word_plain imm_word_plain; assumption)+
  show "list_all solid ws"
    using assms
    by (cases i) (auto simp: spelled_cases reg dest: solid_mnemonic [OF _ plain_mnemonics(1)]
        solid_mnemonic [OF _ plain_mnemonics(2)] solid_mnemonic [OF _ plain_mnemonics(3)]
        solid_mnemonic [OF _ plain_mnemonics(4)] solid_mnemonic [OF _ plain_mnemonics(5)]
        solid_mnemonic [OF _ plain_mnemonics(6)] solid_mnemonic [OF _ plain_mnemonics(7)]
        solid_mnemonic [OF _ plain_mnemonics(8)] solid_mnemonic [OF _ plain_mnemonics(9)]
        solid_mnemonic [OF _ plain_mnemonics(10)] solid_mnemonic [OF _ plain_mnemonics(11)]
        solid_mnemonic [OF _ plain_mnemonics(12)])
  show "ws \<noteq> []" using assms by (cases i) auto
qed

text \<open>The words of a line are those of the text before the comment, whatever the white space around them.\<close>

lemma white_space: "white s \<Longrightarrow> list_all isspace s"
  by (auto simp: white_def list_all_iff)

lemma split_ws_white: "list_all isspace u \<Longrightarrow> split_ws (u @ s) = split_ws s"
  by (induction u) (simp_all add: split_ws_space)

lemma split_ws_trailing: "list_all isspace u \<Longrightarrow> split_ws (s @ u) = split_ws s"
proof (induction s rule: length_induct)
  case (1 s)
  show ?case
  proof (cases s)
    case Nil
    then show ?thesis using split_ws_white [OF "1.prems", of "[]"] by simp
  next
    case (Cons c t)
    show ?thesis
    proof (cases "isspace c")
      case True
      then show ?thesis using 1 Cons by (simp add: split_ws_space)
    next
      case False
      define w r where "w = takeWhile (\<lambda>c. \<not> isspace c) s" and "r = dropWhile (\<lambda>c. \<not> isspace c) s"
      have s: "s = w @ r" by (simp add: w_def r_def)
      have w: "w \<noteq> []" "list_all (\<lambda>c. \<not> isspace c) w" using False Cons by (auto simp: w_def list_all_iff dest: set_takeWhileD)
      have r: "r = [] \<or> isspace (hd r)" using hd_dropWhile [of "\<lambda>c. \<not> isspace c" s] by (auto simp: r_def)
      then have r': "r @ u = [] \<or> isspace (hd (r @ u))" using "1.prems" by (cases r; cases u) auto
      have "split_ws (r @ u) = split_ws r" using "1.IH" "1.prems" w(1) s by simp
      then show ?thesis unfolding s using split_ws_word [OF w r] split_ws_word [OF w r'] by simp
    qed
  qed
qed

lemma trim_parts: "\<exists>u v. s = u @ trim s @ v \<and> list_all isspace u \<and> list_all isspace v"
proof -
  define t where "t = dropWhile isspace (rev s)"
  have "rev s = takeWhile isspace (rev s) @ t" by (simp add: t_def)
  then have s: "s = rev t @ rev (takeWhile isspace (rev s))" by (metis rev_append rev_rev_ident)
  have "rev t = takeWhile isspace (rev t) @ trim s" by (simp add: trim_def t_def)
  with s have "s = takeWhile isspace (rev t) @ trim s @ rev (takeWhile isspace (rev s))" by (metis append_assoc)
  moreover have "list_all isspace (takeWhile isspace (rev t))" "list_all isspace (rev (takeWhile isspace (rev s)))"
    by (auto simp: list_all_iff dest: set_takeWhileD)
  ultimately show ?thesis by blast
qed

lemma split_ws_trim: "split_ws (trim s) = split_ws s"
proof -
  obtain u v where s: "s = u @ trim s @ v" "list_all isspace u" "list_all isspace v" using trim_parts by blast
  have "split_ws (u @ trim s @ v) = split_ws (trim s)" using s(2,3) by (simp add: split_ws_white split_ws_trailing)
  then show ?thesis by (simp only: s(1) [symmetric])
qed

lemma asm_line_words:
  "asm_line src n raw = (let ws = split_ws (strip_comment raw) in
     if trim (strip_comment raw) = [] then Inr None else map_sum id Some (asm_words src n ws))"
  by (simp add: asm_line_def split_ws_trim Let_def)

lemma trim_nonempty: "split_ws (strip_comment raw) \<noteq> [] \<Longrightarrow> trim (strip_comment raw) \<noteq> []"
  using split_ws_trim [of "strip_comment raw"] by (metis split_ws_Nil)

lemma split_ws_layout:
  assumes "list_all (\<lambda>(w, s). solid w \<and> white s) ps" "list_all (\<lambda>(w, s). s \<noteq> []) (butlast ps)"
  shows "split_ws (concat (map (\<lambda>(w, s). w @ s) ps)) = map fst ps"
  using assms
proof (induction ps)
  case (Cons p ps)
  obtain w s where p: "p = (w, s)" by (cases p)
  let ?r = "concat (map (\<lambda>(w, s). w @ s) ps)"
  have w: "w \<noteq> []" "list_all (\<lambda>c. \<not> isspace c) w" and s: "list_all isspace s"
    using Cons.prems(1) by (auto simp: p solid_def white_def list_all_iff)
  have "s @ ?r = [] \<or> isspace (hd (s @ ?r))"
  proof (cases "s = []")
    case True
    then have "ps = []" using Cons.prems(2) by (auto simp: p split: if_splits)
    then show ?thesis using True by simp
  next
    case False
    then show ?thesis using s by (cases s) simp_all
  qed
  then have "split_ws (w @ s @ ?r) = w # split_ws (s @ ?r)" by (rule split_ws_word [OF w])
  moreover have "split_ws ?r = map fst ps" using Cons by (auto split: if_splits)
  ultimately show ?case using s by (simp add: p split_ws_white)
qed simp

lemma layout_chars:
  assumes "list_all (\<lambda>(w, s). solid w \<and> white s) ps" "c \<in> set (concat (map (\<lambda>(w, s). w @ s) ps))"
  shows "c \<noteq> CHR '';'' \<and> c \<noteq> CHR 0x0A"
proof -
  from assms(2) obtain w s where ws: "(w, s) \<in> set ps" "c \<in> set w \<or> c \<in> set s" by auto
  then have "solid w" "white s" using assms(1) by (auto simp: list_all_iff)
  moreover have "isspace (CHR 0x0A)" "\<not> isspace (CHR '';'')" by (simp_all add: isspace_def)
  ultimately show ?thesis using ws(2) by (auto simp: solid_def white_def list_all_iff)
qed

lemma valid_line_words:
  assumes "valid_line l"
  shows "list_all (\<lambda>(w, s). solid w \<and> white s) (al_words l)"
proof -
  have "list_all solid (map fst (al_words l))"
    using assms spelled_solid(1) by (auto simp: valid_line_def split: option.splits)
  then show ?thesis using assms by (auto simp: valid_line_def list_all_iff)
qed

lemma strip_comment_line:
  assumes "valid_line l"
  shows "strip_comment (source_line l) = al_indent l @ concat (map (\<lambda>(w, s). w @ s) (al_words l))"
proof -
  let ?t = "al_indent l @ concat (map (\<lambda>(w, s). w @ s) (al_words l))"
  have "\<not> isspace (CHR '';'')" by (simp add: isspace_def)
  then have "CHR '';'' \<notin> set (al_indent l)" using assms by (auto simp: valid_line_def white_def list_all_iff)
  moreover have "CHR '';'' \<notin> set (concat (map (\<lambda>(w, s). w @ s) (al_words l)))"
    using layout_chars [OF valid_line_words [OF assms]] by blast
  ultimately have no: "CHR '';'' \<notin> set ?t" by (simp only: set_append Un_iff) simp
  show ?thesis
  proof (cases "al_comment l")
    case None
    have "takeWhile (\<lambda>c. c \<noteq> CHR '';'') ?t = ?t" using no by (subst takeWhile_eq_all_conv) metis
    then show ?thesis by (simp add: source_line_def None strip_comment_def)
  next
    case (Some c)
    then show ?thesis using strip_comment_app [OF no, of c] by (simp add: source_line_def)
  qed
qed

lemma source_line_no_nl:
  assumes "valid_line l"
  shows "CHR 0x0A \<notin> set (source_line l)"
proof -
  have "CHR 0x0A \<notin> set (al_indent l)" using assms by (auto simp: valid_line_def white_def list_all_iff)
  moreover have "CHR 0x0A \<notin> set (concat (map (\<lambda>(w, s). w @ s) (al_words l)))"
    using layout_chars [OF valid_line_words [OF assms]] by blast
  moreover have "CHR 0x0A \<notin> set (case al_comment l of None \<Rightarrow> [] | Some c \<Rightarrow> '';'' @ c)"
    using assms by (auto simp: valid_line_def split: option.splits)
  ultimately show ?thesis by (simp only: source_line_def set_append Un_iff) simp
qed

lemma asm_line_source:
  assumes "valid_line l"
  shows "asm_line src n (source_line l) = Inr (map_option instr_word (al_instr l))"
proof -
  let ?b = "concat (map (\<lambda>(w, s). w @ s) (al_words l))"
  have indent: "list_all isspace (al_indent l)" using assms by (simp add: valid_line_def white_space)
  have "split_ws ?b = map fst (al_words l)"
    using valid_line_words [OF assms] assms by (intro split_ws_layout) (simp_all add: valid_line_def)
  then have words: "split_ws (strip_comment (source_line l)) = map fst (al_words l)"
    unfolding strip_comment_line [OF assms] by (simp add: split_ws_white [OF indent])
  show ?thesis
  proof (cases "al_instr l")
    case None
    then have "strip_comment (source_line l) = al_indent l"
      using assms by (simp add: strip_comment_line valid_line_def)
    moreover have "dropWhile isspace (rev (al_indent l)) = []" using indent by (simp add: list_all_iff)
    then have "trim (al_indent l) = []" by (simp only: trim_def rev.simps dropWhile.simps)
    ultimately show ?thesis by (simp add: asm_line_words None)
  next
    case (Some i)
    then have i: "valid_instr i" "list_all2 (\<lambda>P w. P w) (spelling i) (map fst (al_words l))"
      using assms by (simp_all add: valid_line_def)
    have "split_ws (strip_comment (source_line l)) \<noteq> []" using spelled_solid(2) [OF i(2)] by (simp only: words) simp
    then have "trim (strip_comment (source_line l)) \<noteq> []" by (rule trim_nonempty)
    then show ?thesis using spelled_word [OF i(2,1)] by (simp add: asm_line_words words Some)
  qed
qed

lemma asm_loop_source:
  "valid_source prog \<Longrightarrow> asm_loop src n acc (source_text prog) = Inr (acc @ source_words prog)"
proof (induction prog arbitrary: n acc)
  case Nil
  show ?case
    by (subst asm_loop.simps)
      (simp add: source_text_def get_line_def source_words_def source_instrs_def map_filter_simps)
next
  case (Cons l prog)
  have v: "valid_line l" "valid_source prog" using Cons.prems by (simp_all add: valid_source_def)
  have "get_line (source_text (l # prog)) = Some (source_line l, source_text prog)"
    using get_line_nl [OF source_line_no_nl [OF v(1)]] by (simp add: source_text_def)
  moreover have "source_words (l # prog) =
      (case al_instr l of Some i \<Rightarrow> [instr_word i] | None \<Rightarrow> []) @ source_words prog"
    by (simp add: source_words_def source_instrs_def map_filter_simps split: option.splits)
  ultimately show ?case
    using Cons.IH [OF v(2)] asm_line_source [OF v(1), of src "n + 1"]
    by (subst asm_loop.simps) (simp split: option.splits)
qed

text \<open>The last newline makes no difference.\<close>

lemma get_line_last:
  "s \<noteq> [] \<Longrightarrow> \<exists>raw rest. get_line s = Some (raw, rest) \<and> (get_line (s @ nl) = Some (raw, rest @ nl)
     \<or> rest = [] \<and> get_line (s @ nl) = Some (raw, []))"
proof (cases "CHR 0x0A \<in> set s")
  case True
  assume "s \<noteq> []"
  obtain a b where s: "s = a @ nl @ b" "CHR 0x0A \<notin> set a"
    using split_list_first [OF True] by (auto simp: nl_def)
  show ?thesis using get_line_nl [OF s(2), of b] get_line_nl [OF s(2), of "b @ nl"] by (auto simp: s(1))
next
  case False
  assume "s \<noteq> []"
  moreover have t: "takeWhile (\<lambda>c. c \<noteq> CHR 0x0A) s = s" and d: "dropWhile (\<lambda>c. c \<noteq> CHR 0x0A) s = []"
    using False by (auto simp: takeWhile_eq_all_conv)
  ultimately have "get_line s = Some (s, [])" unfolding get_line_def t d by simp
  then show ?thesis using get_line_nl [OF False, of "[]"] by simp
qed

lemma asm_loop_last_nl: "asm_loop src n acc (s @ nl) = asm_loop src n acc s"
proof (induction s arbitrary: n acc rule: length_induct)
  case (1 s)
  show ?case
  proof (cases "s = []")
    case True
    have "get_line nl = Some ([], [])" using get_line_nl [of "[]" "[]"] by simp
    moreover have "asm_line src (n + 1) [] = Inr None" by (simp add: asm_line_def strip_comment_def trim_def)
    moreover have "asm_loop src m acc [] = Inr acc" for m by (simp add: asm_loop.simps get_line_def)
    ultimately show ?thesis using True by (simp add: asm_loop.simps [of src n acc nl])
  next
    case False
    from get_line_last [OF this] obtain raw rest where g: "get_line s = Some (raw, rest)"
      "get_line (s @ nl) = Some (raw, rest @ nl) \<or> rest = [] \<and> get_line (s @ nl) = Some (raw, [])" by blast
    have IH: "asm_loop src m a (rest @ nl) = asm_loop src m a rest" for m a
      using "1.IH" get_line_shorter [OF g(1)] by blast
    have "asm_loop src n acc (s @ nl) = (case get_line (s @ nl) of None \<Rightarrow> Inr acc
      | Some (raw, rest) \<Rightarrow> (case asm_line src (n + 1) raw of Inl e \<Rightarrow> Inl (e, acc)
        | Inr None \<Rightarrow> asm_loop src (n + 1) acc rest
        | Inr (Some i) \<Rightarrow> asm_loop src (n + 1) (acc @ [i]) rest))"
      by (rule asm_loop.simps)
    also have "\<dots> = asm_loop src n acc s"
      using g(2) by (elim disjE conjE)
        (simp_all add: asm_loop.simps [of src n acc s] g(1) IH split: sum.split option.split)
    finally show ?thesis .
  qed
qed

text \<open>A file that holds a source, with or without the last newline.\<close>

definition source_file :: "asm_source \<Rightarrow> bytes \<Rightarrow> bool" where
  "source_file prog bs \<longleftrightarrow> valid_source prog
     \<and> (bs = str_bytes (source_text prog) \<or> bs @ str_bytes nl = str_bytes (source_text prog))"

lemma asm_loop_file:
  assumes "source_file prog bs"
  shows "asm_loop src n acc (map (\<lambda>b. char_of (unat b)) bs) = Inr (acc @ source_words prog)"
proof -
  let ?t = "map (\<lambda>b. char_of (unat b)) bs"
  have v: "valid_source prog" using assms by (simp add: source_file_def)
  have "?t = source_text prog \<or> ?t @ nl = source_text prog"
    using assms by (metis source_file_def map_append text_of_str_bytes)
  then have "asm_loop src n acc ?t = asm_loop src n acc (source_text prog)"
    by (metis asm_loop_last_nl)
  then show ?thesis using asm_loop_source [OF v] by simp
qed

lemma inst_bytes_le: "inst_bytes v = le_bytes 4 v"
proof -
  have "ucast (x AND 0xFF) = (ucast x :: u8)" for x :: u32
    unfolding mask_literals by (rule bit_word_eqI) (simp add: bit_simps)
  moreover have "le_bytes 4 v = [ucast v, ucast (drop_bit 8 v), ucast (drop_bit 16 v), ucast (drop_bit 24 v)]"
    by (simp add: le_bytes_def upt_rec numeral_eq_Suc)
  ultimately show ?thesis by (simp add: inst_bytes_def)
qed

text \<open>What the loop emits: words with one of the twelve opcodes.\<close>

lemma map_of_kOpcodes: "map_of kOpcodes s = Some op \<Longrightarrow> op < 12"
  by (drule map_of_SomeD) (auto simp: kOpcodes_def const_defs word_less_nat_alt)

lemma op_fits: "op < 12 \<Longrightarrow> op AND 0x3F = (op :: u32)"
proof -
  assume "op < 12"
  then have "unat (op AND mask 6) = unat op"
    by (simp only: unat_and_mask) (simp add: word_less_nat_alt)
  then show ?thesis unfolding mask_literals by (simp only: word_unat_eq_iff)
qed

lemma asm_words_known: "asm_words src l ws = Inr i \<Longrightarrow> decode_op i < ucast OP_COUNT"
  by (auto simp: asm_words_def Let_def op_fits dest!: map_of_kOpcodes split: option.splits sum.splits)
    (simp_all add: const_defs)

lemma asm_loop_known:
  assumes "asm_loop src n acc body = Inr instrs" "\<forall>i \<in> set acc. decode_op i < ucast OP_COUNT"
  shows "\<forall>i \<in> set instrs. decode_op i < ucast OP_COUNT"
  using assms
proof (induction src n acc body rule: asm_loop.induct)
  case (1 src n acc body)
  show ?case
  proof (cases "get_line body")
    case None
    then show ?thesis using "1.prems" by (simp add: asm_loop.simps [of src n acc body])
  next
    case (Some p)
    obtain raw rest where p: "p = (raw, rest)" by (cases p)
    note loop = "1.prems"(1) [unfolded asm_loop.simps [of src n acc body] Some p, simplified]
    from loop obtain oi where oi: "asm_line src (n + 1) raw = Inr oi" by (auto split: sum.splits)
    show ?thesis
    proof (cases oi)
      case None
      then show ?thesis using "1.IH"(1) [OF Some p [symmetric] oi None] loop oi "1.prems"(2) by simp
    next
      case (Some i)
      have "decode_op i < ucast OP_COUNT"
        using oi Some asm_words_known
        by (cases "asm_words src (n + 1) (split_ws (trim (strip_comment raw)))")
          (auto simp: asm_line_def Let_def split: if_splits)
      then show ?thesis using "1.IH"(2) [OF \<open>get_line body = Some p\<close> p [symmetric] oi Some] loop oi Some "1.prems"(2) by simp
    qed
  qed
qed

text \<open>The words in memory after loading.\<close>

lemma program_byte:
  "k < length ws \<Longrightarrow> j < 4 \<Longrightarrow>
    concat (map (le_bytes 4) ws) ! (4 * k + j) = (ucast (drop_bit (8 * j) (ws ! k :: u32)) :: u8)"
proof (induction ws arbitrary: k)
  case (Cons v ws)
  then show ?case
    by (cases k) (simp_all add: nth_append le_bytes_def)
qed simp

lemma length_program: "length (concat (map (le_bytes 4) ws)) = 4 * length (ws :: u32 list)"
  by (induction ws) simp_all

lemma small_address:
  assumes "a < MEM_SIZE"
  shows "unat (of_nat a AND MEM_MASK :: u32) = a"
proof -
  have "take_bit 32 a = a" using assms by (intro take_bit_nat_eq_self) (simp add: MEM_SIZE_def)
  then have "unat (of_nat a :: u32) = a" by (simp add: unsigned_of_nat)
  then show ?thesis using assms by (simp add: MEM_MASK_def mask_literals unat_and_mask MEM_SIZE_def)
qed

lemma loaded_word:
  assumes "load_program (concat (map (le_bytes 4) ws)) vm = (True, vm')" and k: "k < length ws"
  shows "mem_load_u32 (vm_mem vm') (of_nat (4 * k)) = ws ! k"
proof -
  let ?bs = "concat (map (le_bytes 4) ws)"
  have len: "length ?bs \<le> MEM_SIZE" and m: "vm_mem vm' = (\<lambda>a. if unat a < length ?bs then ?bs ! unat a else vm_mem vm a)"
    using assms(1) by (auto simp: load_program_def split: if_splits)
  have "vm_mem vm' ((of_nat (4 * k) + of_nat j) AND MEM_MASK) = ucast (drop_bit (8 * j) (ws ! k))" if "j < 4" for j
  proof -
    have lt: "4 * k + j < length ?bs" using k that by (simp add: length_program)
    then have "unat (of_nat (4 * k + j) AND MEM_MASK :: u32) = 4 * k + j"
      using len by (intro small_address) simp
    then show ?thesis using lt program_byte [OF k that] by (simp add: m)
  qed
  from this [of 0] this [of 1] this [of 2] this [of 3] show ?thesis
    using joined_of_bytes [of "ws ! k"] by (simp add: mem_load_u32_def Let_def masked_add)
qed

section \<open>Properties\<close>

lemma cmd_assemble_file:
  assumes "files w src = Some bs" "source_file prog bs" "fault w dst = None"
  shows "cmd_assemble src dst w = (Exit 0, print_out (''asm: '' @ fmt_u (length (source_words prog)) @
    '' instructions -> '' @ dst @ nl) (write_file dst (concat (map (le_bytes 4) (source_words prog))) w))"
  using assms asm_loop_file [OF assms(2), of src 0 "[]"]
  by (simp add: cmd_assemble_def assemble_file_def inst_bytes_le [abs_def])

text \<open>
  C6: the assembler is correct on the programs written in its syntax. A source is any sequence of
  lines, each with or without an instruction, with or without a comment behind \<open>;\<close>, and with any
  white space at its start, between its words and at its end, so that empty lines, lines that are only a
  comment and CR-LF line ends are among them; the last newline of the file may be missing. An
  instruction has registers up to 7 and immediates below 2 ^ 20. Its mnemonic is written in any
  letter case, a register with \<open>R\<close> or \<open>r\<close>, an immediate in decimal or in hexadecimal with \<open>0x\<close>, and
  the first of two operands may end with a comma. For every such source \<open>cmd_assemble\<close> exits with 0
  and writes exactly the encoded words, in order, little-endian, to the output file and nothing to any
  other.
\<close>

theorem assemble_source:
  assumes src: "files w src = Some bs" and "source_file prog bs" and "fault w dst = None"
  shows "\<exists>w'. cmd_assemble src dst w = (Exit 0, w')
    \<and> files w' = (files w)(dst \<mapsto> concat (map (le_bytes 4) (source_words prog)))
    \<and> stderr w' = stderr w
    \<and> stdout w' = stdout w @ ''asm: '' @ fmt_u (length (source_words prog)) @ '' instructions -> '' @ dst @ nl"
  using cmd_assemble_file [OF assms] by simp

text \<open>A source without a comment on most lines, without its last newline, in several ways of writing.\<close>

definition sample_source :: asm_source where
  "sample_source =
     [\<lparr>al_instr = None, al_indent = [], al_words = [], al_comment = Some '' demo''\<rparr>,
      \<lparr>al_instr = Some (I_LI 2 5), al_indent = ''  '', al_words = [(''LI'', '' ''), (''R2,'', '' ''), (''5'', [])],
        al_comment = None\<rparr>,
      \<lparr>al_instr = None, al_indent = [], al_words = [], al_comment = None\<rparr>,
      \<lparr>al_instr = Some (I_STORE 2 256), al_indent = [],
        al_words = [(''store'', ''  ''), (''r2'', '' ''), (''0x100'', '' '')], al_comment = Some '' save''\<rparr>,
      \<lparr>al_instr = Some I_HALT, al_indent = [], al_words = [(''HALT'', [])], al_comment = None\<rparr>]"

definition sample_text :: string where
  "sample_text = ''; demo'' @ nl @ ''  LI R2, 5'' @ nl @ nl @ ''store  r2 0x100 ; save'' @ nl @ ''HALT''"

lemma sample_spelled:
  "fmt_u 2 = ''2''" "fmt_u 5 = ''5''" "fmt_x 256 = ''100''"
  "upcase ''LI'' = ''LI''" "upcase ''store'' = ''STORE''" "upcase ''HALT'' = ''HALT''"
  by code_simp+

lemma sample_valid: "valid_source sample_source"
  by (simp add: valid_source_def sample_source_def valid_line_def white_def isspace_def mnemonic_def
      first_operand_def reg_word_def imm_word_def sample_spelled)

lemma sample_file: "source_file sample_source (str_bytes sample_text)"
proof -
  have "sample_text @ nl = source_text sample_source"
    by (simp add: sample_text_def source_text_def sample_source_def source_line_def)
  moreover have "str_bytes (a @ b) = str_bytes a @ str_bytes b" for a b by (simp only: str_bytes_def map_append)
  ultimately have "str_bytes sample_text @ str_bytes nl = str_bytes (source_text sample_source)" by metis
  then show ?thesis using sample_valid by (simp add: source_file_def)
qed

lemma sample_words: "source_words sample_source = [encode 11 2 0 5, encode 2 2 0 0x100, encode 0 0 0 0]"
  by (simp add: source_words_def source_instrs_def sample_source_def map_filter_simps const_defs)

theorem assemble_source_witness:
  "\<exists>w'. cmd_assemble ''p.asm'' ''p.bin'' (no_files\<lparr>files := [''p.asm'' \<mapsto> str_bytes sample_text]\<rparr>)
     = (Exit 0, w') \<and> files w' ''p.bin'' = Some (concat (map (le_bytes 4)
       [encode 11 2 0 5, encode 2 2 0 0x100, encode 0 0 0 0]))"
proof -
  let ?w = "no_files\<lparr>files := [''p.asm'' \<mapsto> str_bytes sample_text]\<rparr>"
  have a: "files ?w ''p.asm'' = Some (str_bytes sample_text)" by simp
  have c: "fault ?w ''p.bin'' = None" by (simp add: no_files_def)
  from assemble_source [OF a sample_file c] show ?thesis unfolding sample_words by fastforce
qed

text \<open>
  Assembling and loading fit together: after \<open>cmd_assemble\<close> of a valid source, loading the file it
  wrote puts the word of the \<open>k\<close>-th instruction where the machine fetches from at pc = 4 k.
\<close>

theorem assembled_program_fetches:
  assumes "files w src = Some bs" and "source_file prog bs" and "fault w dst = None"
    and "cmd_assemble src dst w = (rc, w')"
    and "load_program (the (files w' dst)) vm = (True, vm')" and "k < length (source_words prog)"
  shows "mem_load_u32 (vm_mem vm') (of_nat (4 * k)) = source_words prog ! k"
proof -
  have "files w' dst = Some (concat (map (le_bytes 4) (source_words prog)))"
    using cmd_assemble_file [OF assms(1-3)] assms(4) by auto
  then show ?thesis using assms(5,6) by (intro loaded_word) simp_all
qed

text \<open>What an error prints: the file, the number of the line and what is wrong with it.\<close>

function text_lines :: "string \<Rightarrow> string list" where
  "text_lines t = (case get_line t of None \<Rightarrow> [] | Some (raw, rest) \<Rightarrow> raw # text_lines rest)"
  by pat_completeness auto

termination text_lines
  by (relation "measure length") (auto dest: get_line_shorter)

declare text_lines.simps [simp del]

definition complaints :: "string list" where
  "complaints = [''unknown opcode '', ''bad register '', ''missing immediate'', ''bad immediate '', ''immediate 0x'']"

definition complaint :: "string \<Rightarrow> nat \<Rightarrow> string \<Rightarrow> bool" where
  "complaint src n e \<longleftrightarrow> (\<exists>p \<in> set complaints. \<exists>what. e = src @ '':'' @ fmt_u n @ '': '' @ p @ what @ nl)"

lemma complaintI: "p \<in> set complaints \<Longrightarrow> complaint src n (at_line src n (p @ what))"
  by (auto simp: complaint_def at_line_def)

lemma complaint_known:
  "complaint src n (at_line src n (''unknown opcode '' @ r))" "complaint src n (at_line src n (''bad register '' @ r))"
  "complaint src n (at_line src n ''missing immediate'')" "complaint src n (at_line src n (''bad immediate '' @ r))"
  "complaint src n (at_line src n (''immediate 0x'' @ r))"
proof -
  have p: "''unknown opcode '' \<in> set complaints" "''bad register '' \<in> set complaints"
    "''missing immediate'' \<in> set complaints" "''bad immediate '' \<in> set complaints" "''immediate 0x'' \<in> set complaints"
    by (simp_all only: complaints_def list.set insert_iff simp_thms)
  show "complaint src n (at_line src n (''unknown opcode '' @ r))" "complaint src n (at_line src n (''bad register '' @ r))"
    "complaint src n (at_line src n (''bad immediate '' @ r))" "complaint src n (at_line src n (''immediate 0x'' @ r))"
    by (rule complaintI, rule p)+
  show "complaint src n (at_line src n ''missing immediate'')"
    using complaintI [OF p(3), of src n "[]"] by (simp only: append_Nil2)
qed

lemma reg_operand_error: "reg_operand src n t = Inl e \<Longrightarrow> complaint src n e"
  unfolding reg_operand_def error_reg_def using complaint_known(2) by (auto split: if_splits)

lemma parse_imm_error: "parse_imm src n t = Inl e \<Longrightarrow> complaint src n e"
  unfolding parse_imm_def using complaint_known(3-5) by (auto split: if_splits prod.splits)

lemma known_op:
  assumes "map_of kOpcodes m = Some op"
  obtains "op = 0" | "op \<in> {9, 10}" | "op \<in> {3, 4, 5, 6}" | "op = 7" | "op \<in> {1, 2, 8, 11}"
  using map_of_SomeD [OF assms] by (auto simp: kOpcodes_def const_defs)

lemma asm_operands_error:
  assumes "map_of kOpcodes m = Some op" "asm_operands src n op_s op a b = Inl e"
  shows "complaint src n e"
  using assms(1)
proof (cases rule: known_op)
  case 2
  then show ?thesis using assms(2) by (auto simp: operands_of(2,3) dest: reg_operand_error split: sum.splits)
qed (use assms(2) in \<open>auto simp: operands_of dest: reg_operand_error parse_imm_error split: sum.splits\<close>)

lemma asm_line_error: "asm_line src n raw = Inl e \<Longrightarrow> complaint src n e"
  using complaint_known(1) asm_operands_error
  by (auto simp: asm_line_def asm_words_def Let_def map_sum_def split: if_splits option.splits sum.splits prod.splits)

lemma asm_loop_error:
  "asm_loop src n acc t = Inl (e, out) \<Longrightarrow> \<exists>k < length (text_lines t). asm_line src (n + k + 1) (text_lines t ! k) = Inl e
     \<and> (\<forall>j < k. \<exists>r. asm_line src (n + j + 1) (text_lines t ! j) = Inr r)"
proof (induction src n acc t rule: asm_loop.induct)
  case (1 src n acc t)
  note loop = "1.prems" [unfolded asm_loop.simps [of src n acc t]]
  then obtain raw rest where g: "get_line t = Some (raw, rest)" by (auto split: option.splits)
  then have lines: "text_lines t = raw # text_lines rest" by (simp add: text_lines.simps [of t])
  show ?case
  proof (cases "asm_line src (n + 1) raw")
    case (Inl e')
    then show ?thesis using loop g by (intro exI [of _ 0]) (simp add: lines)
  next
    case (Inr oi)
    have "\<exists>acc'. asm_loop src (n + 1) acc' rest = Inl (e, out)"
      using loop g Inr by (auto split: option.splits)
    then obtain k where k: "k < length (text_lines rest)" "asm_line src (n + 1 + k + 1) (text_lines rest ! k) = Inl e"
      "\<forall>j < k. \<exists>r. asm_line src (n + 1 + j + 1) (text_lines rest ! j) = Inr r"
      using "1.IH"(1) [OF g refl Inr] "1.IH"(2) [OF g refl Inr] loop g Inr by (cases oi) auto
    have "\<exists>r. asm_line src (n + j + 1) (text_lines t ! j) = Inr r" if "j < Suc k" for j
      using that k(3) Inr by (cases j) (auto simp: lines)
    then show ?thesis using k(1,2) by (intro exI [of _ "Suc k"]) (simp add: lines)
  qed
qed

text \<open>
  C32: a program that does not assemble leaves no output. Whenever \<open>cmd_assemble\<close> does not exit with 0 it
  exits with 1, no file is created or changed, also when earlier lines were fine, and it has printed
  one diagnostic on the error stream: \<open>asm: cannot open\<close> and the path for a source that is missing or an
  output that cannot be opened; otherwise the source path and the number of the first line that does not
  assemble, and one of the five complaints: an unknown opcode, a bad register, a missing, bad or too
  large immediate.
\<close>

theorem assemble_error_writes_nothing:
  assumes "cmd_assemble src dst w = (Exit rc, w')" and "rc \<noteq> 0"
  shows "rc = 1 \<and> files w' = files w \<and> stdout w' = stdout w
    \<and> (\<exists>msg. stderr w' = stderr w @ msg
      \<and> (case files w src of
           None \<Rightarrow> msg = ''asm: cannot open '' @ src @ nl
         | Some bs \<Rightarrow>
             (let ls = text_lines (map (\<lambda>b. char_of (unat b)) bs) in
              (\<exists>k < length ls. asm_line src (k + 1) (ls ! k) = Inl msg
                 \<and> (\<forall>j < k. \<exists>r. asm_line src (j + 1) (ls ! j) = Inr r)
                 \<and> (\<exists>p \<in> {''unknown opcode '', ''bad register '', ''missing immediate'', ''bad immediate '', ''immediate 0x''}.
                      \<exists>what. msg = src @ '':'' @ fmt_u (k + 1) @ '': '' @ p @ what @ nl))
              \<or> (fault w dst = Some F_open_write \<and> msg = ''asm: cannot open '' @ dst @ nl))))"
proof (cases "files w src")
  case None
  then show ?thesis using assms by (auto simp: cmd_assemble_def assemble_file_def)
next
  case (Some bs)
  let ?t = "map (\<lambda>b. char_of (unat b)) bs :: string"
  show ?thesis
  proof (cases "asm_loop src 0 [] ?t")
    case (Inl r)
    obtain e out where r: "r = (e, out)" by (cases r)
    have w': "rc = 1" "w' = print_err e w" using assms Some Inl by (auto simp: cmd_assemble_def assemble_file_def r)
    from asm_loop_error [OF Inl [unfolded r]] obtain k where k: "k < length (text_lines ?t)"
      "asm_line src (k + 1) (text_lines ?t ! k) = Inl e" "\<forall>j < k. \<exists>r. asm_line src (j + 1) (text_lines ?t ! j) = Inr r"
      by auto
    from asm_line_error [OF k(2)] obtain p what where p: "p \<in> set complaints"
      "e = src @ '':'' @ fmt_u (k + 1) @ '': '' @ p @ what @ nl"
      by (auto simp: complaint_def)
    have "p \<in> {''unknown opcode '', ''bad register '', ''missing immediate'', ''bad immediate '', ''immediate 0x''}"
      using p(1) by (simp only: complaints_def list.set)
    with k p(2) have "\<exists>k < length (text_lines ?t). asm_line src (k + 1) (text_lines ?t ! k) = Inl e
      \<and> (\<forall>j < k. \<exists>r. asm_line src (j + 1) (text_lines ?t ! j) = Inr r)
      \<and> (\<exists>p \<in> {''unknown opcode '', ''bad register '', ''missing immediate'', ''bad immediate '', ''immediate 0x''}.
           \<exists>what. e = src @ '':'' @ fmt_u (k + 1) @ '': '' @ p @ what @ nl)"
      by (intro exI [of _ k] conjI bexI [of _ p] exI [of _ what])
    then show ?thesis
      unfolding w' by (intro conjI exI [of _ e]) (simp_all only: print_frame Some option.case Let_def simp_thms)
  next
    case (Inr instrs)
    then have "fault w dst = Some F_open_write" "rc = 1" "w' = print_err (''asm: cannot open '' @ dst @ nl) w"
      using assms Some by (auto simp: cmd_assemble_def assemble_file_def Let_def split: if_splits)
    then show ?thesis by (simp add: Some)
  qed
qed

text \<open>Two lines of which the second has an unknown mnemonic.\<close>

theorem assemble_error_writes_nothing_witness:
  "\<exists>w'. cmd_assemble ''p.asm'' ''p.bin'' (no_files\<lparr>files := [''p.asm'' \<mapsto> str_bytes (''HALT'' @ nl @ ''FOO'')]\<rparr>)
     = (Exit 1, w') \<and> files w' ''p.bin'' = None
     \<and> stderr w' = ''p.asm:2: unknown opcode '' @ sq @ ''FOO'' @ sq @ nl"
proof -
  let ?w = "no_files\<lparr>files := [''p.asm'' \<mapsto> str_bytes (''HALT'' @ nl @ ''FOO'')]\<rparr>"
  let ?e = "at_line ''p.asm'' 2 (''unknown opcode '' @ sq @ ''FOO'' @ sq)"
  have "get_line (''HALT'' @ nl @ ''FOO'') = Some (''HALT'', ''FOO'')" "get_line ''FOO'' = Some (''FOO'', [])"
    by (simp_all add: get_line_def nl_def)
  moreover have "asm_line ''p.asm'' 1 ''HALT'' = Inr (Some (encode 0 0 0 0))"
    using asm_line_clean(1) [of "''HALT''" "''p.asm''" 1] assembles_halt by (simp add: assembles_def)
  moreover have "asm_line ''p.asm'' 2 ''FOO'' = Inl ?e"
  proof -
    have "plain ''FOO''" by (simp add: plain_def isspace_def)
    moreover have "map_of kOpcodes (upcase ''FOO'') = None" "c_str (upcase ''FOO'') = ''FOO''"
      by (simp_all add: kOpcodes_def upcase_def toupper_def c_str_def)
    ultimately show ?thesis
      using asm_line_clean(1) [OF clean_plain, of "''FOO''" "''p.asm''" 2]
        line_words(1) [of "''FOO''" "''FOO''" "''FOO''"]
      by (simp add: asm_words_def word_at_simps)
  qed
  ultimately have "asm_loop ''p.asm'' 0 [] (''HALT'' @ nl @ ''FOO'') = Inl (?e, [encode 0 0 0 0])"
    by (subst asm_loop.simps, simp, subst asm_loop.simps, simp add: numeral_2_eq_2)
  then have run: "cmd_assemble ''p.asm'' ''p.bin'' ?w = (Exit 1, print_err ?e ?w)"
    by (simp add: cmd_assemble_def assemble_file_def text_of_str_bytes)
  have "(1 :: int) \<noteq> 0" by simp
  from assemble_error_writes_nothing [OF run this] run show ?thesis
    by (simp add: at_line_def no_files_def fmt_u_small) (simp add: digit_chars)
qed

text \<open>
  C31: every word the assembler emits is an instruction of the machine: its opcode field is below
  \<open>OP_COUNT\<close>, so the dispatch of an assembled word never ends with \<open>HALT_UNKNOWN_OP\<close>; and what it
  writes, when it reports success and the file system did not fail, is exactly those words.
\<close>

theorem assembled_words_known:
  assumes "assemble_file src dst out w = (0, instrs, w')"
  shows "(\<forall>i \<in> set instrs. decode_op i < ucast OP_COUNT)
    \<and> (fault w dst = None \<longrightarrow> files w' dst = Some (concat (map (le_bytes 4) instrs)))"
  using assms asm_loop_known [of src 0 "[]"]
  by (auto simp: assemble_file_def Let_def inst_bytes_le [abs_def] split: option.splits sum.splits if_splits)

theorem assembled_words_known_witness:
  "\<exists>w'. assemble_file ''p.asm'' ''p.bin'' [] (no_files\<lparr>files := [''p.asm'' \<mapsto> str_bytes sample_text]\<rparr>)
     = (0, source_words sample_source, w') \<and> length (source_words sample_source) = 3
     \<and> (\<forall>i \<in> set (source_words sample_source). decode_op i < ucast OP_COUNT)"
proof -
  let ?w = "no_files\<lparr>files := [''p.asm'' \<mapsto> str_bytes sample_text]\<rparr>"
  have run: "\<exists>w'. assemble_file ''p.asm'' ''p.bin'' [] ?w = (0, source_words sample_source, w')"
    using asm_loop_file [OF sample_file, of "''p.asm''" 0 "[]"]
    by (simp add: assemble_file_def no_files_def)
  moreover have "length (source_words sample_source) = 3" by (simp add: sample_words)
  ultimately show ?thesis using assembled_words_known by blast
qed

text \<open>A register is whatever \<open>atoi\<close> makes of the text behind the R.\<close>

lemma atoi_prefix:
  assumes "n < 2 ^ 31" "rest = [] \<or> \<not> is_digit 10 (hd rest)"
  shows "atoi (fmt_u n @ rest) = int n"
proof -
  let ?s = "fmt_u n @ rest"
  have all: "list_all (is_digit 10) (fmt_u n)" and ne: "fmt_u n \<noteq> []" by (simp_all add: fmt_u_def fmt_base_digits)
  then have hd: "is_digit 10 (hd ?s)" by (cases "fmt_u n") simp_all
  have ws: "dropWhile isspace ?s = ?s" using ne hd by (intro dropWhile_isspace_digit) simp_all
  have sg: "hd ?s \<noteq> CHR ''-''" "hd ?s \<noteq> CHR ''+''" using not_sign_digit [OF hd] by simp_all
  have tw: "takeWhile (is_digit 10) ?s = fmt_u n"
    using all assms(2) by (cases rest) (simp_all add: list_all_iff takeWhile_append2)
  have "digits_val 10 (fmt_u n) = n" by (simp add: fmt_u_def digits_val_fmt_base)
  then show ?thesis using sg assms(1) by (simp add: atoi_def ws tw)
qed

lemma parse_reg_prefix:
  assumes "n < 2 ^ 31" "rest = [] \<or> \<not> is_digit 10 (hd rest)"
  shows "parse_reg (CHR ''R'' # fmt_u n @ rest) = (if n \<le> 7 then int n else - 1)"
proof -
  have "c_str (fmt_u n @ rest) = fmt_u n @ c_str rest"
    unfolding c_str_def using plain_fmt_u [of n]
    by (subst takeWhile_append2) (auto simp: plain_def list_all_iff)
  moreover have "c_str rest = [] \<or> \<not> is_digit 10 (hd (c_str rest))"
    using assms(2) by (cases rest) (auto simp: c_str_def)
  ultimately have at: "atoi (c_str (fmt_u n @ rest)) = int n"
    using atoi_prefix [OF assms(1)] by simp
  have "fmt_u n \<noteq> []" by (simp add: fmt_u_def)
  then have two: "\<not> length (CHR ''R'' # fmt_u n @ rest) < 2" by (cases "fmt_u n") simp_all
  show ?thesis using two at by (auto simp: parse_reg_def toupper_def Let_def)
qed

lemma parse_reg_no_number:
  assumes "\<not> is_digit 10 c" "\<not> isspace c" "c \<noteq> CHR ''-''" "c \<noteq> CHR ''+''"
  shows "parse_reg (CHR ''R'' # c # rest) = 0"
proof -
  have "atoi (c_str (c # rest)) = 0"
    using assms by (cases "c = CHR 0x00") (simp_all add: atoi_def c_str_def digits_val_def)
  then show ?thesis by (simp add: parse_reg_def toupper_def)
qed

lemma comma_alone:
  assumes m: "m \<in> {''ADD'', ''SUB'', ''MUL'', ''DIV''}" and d: "d \<le> 7"
  shows "asm_line src l (m @ '' R'' @ fmt_u d @ '',R'' @ fmt_u s) = Inl (error_reg src l [])"
proof -
  define w where "w = CHR ''R'' # fmt_u d @ '',R'' @ fmt_u s"
  have p: "plain m" using m plain_mnemonics by auto
  have ends: "\<not> isspace (last (fmt_u s))" "last (fmt_u s) \<noteq> CHR '',''" "fmt_u s \<noteq> []"
    using plain_fmt_u [of s] by (auto simp: plain_def list_all_iff)
  have set: "list_all (\<lambda>c. \<not> isspace c \<and> c \<noteq> CHR '';'' \<and> c \<noteq> CHR 0x0A) w"
    using plain_fmt_u [of s] plain_fmt_u [of d] by (auto simp: w_def plain_def list_all_iff isspace_def)
  then have ns: "list_all (\<lambda>c. \<not> isspace c) w" by (auto simp: list_all_iff)
  have w: "w \<noteq> []" "hd w = CHR ''R''" "last w = last (fmt_u s)" using ends by (simp_all add: w_def)
  have "split_ws (m @ '' '' @ w) = m # split_ws ('' '' @ w)"
    using plain_nospace [OF p] by (intro split_ws_word) (simp_all add: isspace_def)
  moreover have "split_ws ('' '' @ w) = [w]"
    using split_ws_word [OF w(1) ns, of "[]"] by (simp add: split_ws_space isspace_def)
  ultimately have ws: "split_ws (m @ '' '' @ w) = [m, w]" by simp
  have "dropWhile comma_or_space (rev w) = rev w" "dropWhile comma_or_space w = w"
    using w ends by (simp_all add: dropWhile_id hd_rev comma_or_space_def isspace_def)
  then have strip: "strip_comma w = w" "strip_comma [] = []" by (simp_all add: strip_comma_def)
  have "d < 2 ^ 31" using d by simp
  then have "parse_reg w = int d"
    using parse_reg_prefix [of d "'',R'' @ fmt_u s"] d by (simp add: w_def is_digit_def digit_val_def)
  then have reg: "reg_operand src l w = Inr (of_nat d)" "reg_operand src l [] = Inl (error_reg src l [])"
    by (simp_all add: reg_operand_def parse_reg_def)
  obtain op where op: "map_of kOpcodes (upcase m) = Some op" "op \<in> {3, 4, 5, 6}"
    using m opcode_of by auto
  have "asm_words src l [m, w] = Inl (error_reg src l [])"
    by (simp add: asm_words_def word_at_simps strip op(1) operands_of(5) [OF op(2)] reg)
  moreover have "clean (m @ '' '' @ w)"
  proof (rule clean_app [OF clean_plain [OF p]])
    show "clean w" using set w ends by (auto simp: clean_def list_all_iff isspace_def)
  qed simp_all
  ultimately show ?thesis
    using asm_line_clean(1) [of "m @ '' '' @ w" src l] ws by (simp add: w_def)
qed

text \<open>
  C40: what the assembler takes for an operand beyond the syntax the header comment promises. A
  register is what \<open>atoi\<close> makes of the text behind the R: what follows the digits of a number that fits
  into an \<open>int\<close> is ignored, so that \<open>R1x\<close> is R1, and without digits it is register 0, so that \<open>Rfoo\<close> is
  R0. And a comma alone does not separate ("comma- or whitespace-separated operands"): every arithmetic
  instruction on two registers is refused with "bad register ''" when no blank follows the comma.
\<close>

theorem assembler_syntax_gaps:
  assumes "n < 2 ^ 31" "rest = [] \<or> \<not> is_digit 10 (hd rest)"
    and "\<not> is_digit 10 c" "\<not> isspace c" "c \<noteq> CHR ''-''" "c \<noteq> CHR ''+''"
  shows "parse_reg (CHR ''R'' # fmt_u n @ rest) = (if n \<le> 7 then int n else - 1)
    \<and> parse_reg (CHR ''R'' # c # rest) = 0
    \<and> (\<forall>m \<in> {''ADD'', ''SUB'', ''MUL'', ''DIV''}. \<forall>d s. d \<le> 7 \<longrightarrow>
         asm_line src l (m @ '' R'' @ fmt_u d @ '',R'' @ fmt_u s) = Inl (error_reg src l []))"
  using parse_reg_prefix [OF assms(1,2)] parse_reg_no_number [OF assms(3-6)] comma_alone [of _ _ src l] by blast

theorem assembler_syntax_gaps_witness:
  "parse_reg (CHR ''R'' # fmt_u 1 @ ''x'') = 1 \<and> parse_reg (CHR ''R'' # CHR ''f'' # ''x'') = 0"
proof -
  have "(1 :: nat) < 2 ^ 31" "''x'' = [] \<or> \<not> is_digit 10 (hd ''x'')" "\<not> is_digit 10 (CHR ''f'')"
    "\<not> isspace (CHR ''f'')" "CHR ''f'' \<noteq> CHR ''-''" "CHR ''f'' \<noteq> CHR ''+''"
    by (simp_all add: is_digit_def digit_val_def isspace_def)
  from assembler_syntax_gaps [OF this] show ?thesis by simp
qed

text \<open>
  A failed write of the output goes unnoticed: when the file system stores only the first \<open>n\<close>
  bytes, \<open>cmd_assemble\<close> still prints its success line and exits with 0, with a truncated program in
  the output file.
\<close>

theorem assembler_ignores_write_errors:
  assumes "files w src = Some bs" and "source_file prog bs" and "fault w dst = Some (F_write n)"
  shows "\<exists>w'. cmd_assemble src dst w = (Exit 0, w') \<and> stderr w' = stderr w
    \<and> files w' dst = Some (take n (concat (map (le_bytes 4) (source_words prog))))"
  using assms asm_loop_file [OF assms(2), of src 0 "[]"]
  by (simp add: cmd_assemble_def assemble_file_def inst_bytes_le [abs_def])

theorem assembler_ignores_write_errors_witness:
  "\<exists>w w'. cmd_assemble ''p.asm'' ''p.bin'' w = (Exit 0, w') \<and> stderr w' = [] \<and> files w' ''p.bin'' = Some []"
proof -
  let ?w = "no_files\<lparr>files := [''p.asm'' \<mapsto> str_bytes sample_text], fault := (\<lambda>_. Some (F_write 0))\<rparr>"
  have a: "files ?w ''p.asm'' = Some (str_bytes sample_text)" by simp
  have c: "fault ?w ''p.bin'' = Some (F_write 0)" by simp
  have "stderr ?w = []" by (simp add: no_files_def)
  with assembler_ignores_write_errors [OF a sample_file c] show ?thesis by fastforce
qed

end
