(* ===== verification/Dispatch.thy ===== *)
theory Dispatch
  imports Machine
begin

text \<open>
  \<open>VM::run\<close> of \<open>src/vm.cpp\<close>: both dispatch paths, translated separately. A configuration is the
  machine together with the state its closures capture. A step answers \<open>Inl\<close> with the next
  configuration or \<open>Inr\<close> with how the call of \<open>run\<close> ends: it returns a halt reason, or an exception
  thrown by a hook leaves it.
\<close>

type_synonym 'w cfg = "'w VM \<times> 'w"

datatype run_result = Returned HaltReason | Thrown TraceMismatch

type_synonym 'w step_result = "'w cfg + run_result \<times> 'w cfg"

section \<open>Access to the state\<close>

definition upd_state :: "(VMState \<Rightarrow> VMState) \<Rightarrow> 'w VM \<Rightarrow> 'w VM" where
  "upd_state f vm = vm\<lparr>vm_state := f (vm_state vm)\<rparr>"

definition get_reg :: "u32 \<Rightarrow> 'w VM \<Rightarrow> u32" where
  "get_reg r vm = regs (vm_state vm) ! unat r"

definition set_reg :: "u32 \<Rightarrow> u32 \<Rightarrow> 'w VM \<Rightarrow> 'w VM" where
  "set_reg r v vm = upd_state (\<lambda>s. s\<lparr>regs := (regs s)[unat r := v]\<rparr>) vm"

definition set_pc :: "u32 \<Rightarrow> 'w VM \<Rightarrow> 'w VM" where
  "set_pc v vm = upd_state (\<lambda>s. s\<lparr>pc := v\<rparr>) vm"

definition set_flags :: "u32 \<Rightarrow> 'w VM \<Rightarrow> 'w VM" where
  "set_flags f vm = upd_state (\<lambda>s. s\<lparr>flags := f\<rparr>) vm"

definition set_halted :: "HaltReason \<Rightarrow> 'w VM \<Rightarrow> 'w VM" where
  "set_halted r vm = upd_state (\<lambda>s. s\<lparr>halted := r\<rparr>) vm"

lemmas access_defs = upd_state_def get_reg_def set_reg_def set_pc_def set_flags_def set_halted_def
  request_halt_def

section \<open>Computed-goto dispatch\<close>

datatype label = label_HALT | label_LOAD | label_STORE | label_ADD | label_SUB | label_MUL
  | label_DIV | label_JUMP | label_JNZ | label_IN | label_RAND | label_LI

definition dispatch_table :: "label list" where
  "dispatch_table = [label_HALT, label_LOAD, label_STORE, label_ADD, label_SUB,
     label_MUL, label_DIV, label_JUMP, label_JNZ, label_IN, label_RAND, label_LI]"

text \<open>The operands a dispatch leaves in the variables \<open>dst\<close>, \<open>src\<close> and \<open>imm\<close>.\<close>

type_synonym operands = "u32 \<times> u32 \<times> u32"

text \<open>
  \<open>TAIL_DISPATCH()\<close>: fetch, advance, count, fire the snapshot timer, decode. \<open>Inl\<close> is the jump to
  a label, \<open>Inr\<close> a return of the macro's enclosing function.
\<close>

definition tail_dispatch ::
    "'w cfg \<Rightarrow> (label \<times> operands \<times> 'w cfg) + (run_result \<times> 'w cfg)" where
  "tail_dispatch c = (case c of (vm, w) \<Rightarrow>
     let instr = mem_load_u32 (vm_mem vm) (pc (vm_state vm));
         vm = set_pc (pc (vm_state vm) + 4) vm;
         vm = upd_state (\<lambda>s. s\<lparr>cycle_count := cycle_count s + 1\<rparr>) vm;
         (returned, vm, w) =
           (if 0 < snap_interval (vm_state vm) then
              let vm = upd_state (\<lambda>s. s\<lparr>snap_timer := snap_timer s - 1\<rparr>) vm in
              if snap_timer (vm_state vm) = 0 then
                let (vm, w) = make_snapshot (vm, w);
                    vm = upd_state (\<lambda>s. s\<lparr>snap_timer := snap_interval s\<rparr>) vm
                in (halted (vm_state vm) \<noteq> HALT_RUNNING, vm, w)
              else (False, vm, w)
            else (False, vm, w))
     in if returned then Inr (Returned (halted (vm_state vm)), vm, w)
        else
          let op = decode_op instr;
              dst = decode_dst instr;
              src = decode_src instr;
              imm = decode_imm instr
          in if op \<ge> ucast OP_COUNT then
               let vm = set_halted HALT_UNKNOWN_OP vm
               in Inr (Returned (halted (vm_state vm)), vm, w)
             else Inl (dispatch_table ! unat op, (dst, src, imm), (vm, w)))"

text \<open>The handlers. \<open>Inl\<close> is the \<open>TAIL_DISPATCH()\<close> at a handler's end.\<close>

definition do_HALT :: "'w cfg \<Rightarrow> 'w step_result" where
  "do_HALT c = (case c of (vm, w) \<Rightarrow>
     Inr (Returned HALT_NORMAL, set_halted HALT_NORMAL vm, w))"

definition do_LOAD :: "operands \<Rightarrow> 'w cfg \<Rightarrow> 'w step_result" where
  "do_LOAD ops c = (case ops of (dst, src, imm) \<Rightarrow> case c of (vm, w) \<Rightarrow>
     Inl (set_reg dst (mem_load_u32 (vm_mem vm) imm) vm, w))"

text \<open>
  The delta log of \<open>STORE\<close>: a store to the cell of the last entry bumps the entry's counter,
  anything else appends an entry with the value the cell holds before the write.
\<close>

definition log_store :: "mem \<Rightarrow> u32 \<Rightarrow> MemDelta list \<Rightarrow> MemDelta list" where
  "log_store m imm deltas = (
     let pg = ucast (drop_bit 12 imm AND 0xFF);
         off = ucast (imm AND 0xFFF)
     in if deltas \<noteq> [] \<and> page (last deltas) = pg \<and> offset (last deltas) = off
           \<and> run_count (last deltas) < 255
        then butlast deltas @ [(last deltas)\<lparr>run_count := run_count (last deltas) + 1\<rparr>]
        else deltas @ [\<lparr>run_count = 1, page = pg, offset = off,
                        old_value = mem_load_u32 m imm\<rparr>])"

definition do_STORE :: "operands \<Rightarrow> 'w cfg \<Rightarrow> 'w step_result" where
  "do_STORE ops c = (case ops of (dst, src, imm) \<Rightarrow> case c of (vm, w) \<Rightarrow>
     let vm = vm\<lparr>vm_deltas := log_store (vm_mem vm) imm (vm_deltas vm)\<rparr>;
         vm = vm\<lparr>vm_mem := mem_store_u32 (vm_mem vm) imm (get_reg dst vm)\<rparr>
     in Inl (vm, w))"

definition do_ADD :: "operands \<Rightarrow> 'w cfg \<Rightarrow> 'w step_result" where
  "do_ADD ops c = (case ops of (dst, src, imm) \<Rightarrow> case c of (vm, w) \<Rightarrow>
     let a = get_reg dst vm;
         b = get_reg src vm;
         r = a + b;
         vm = set_reg dst r vm;
         f = 0;
         f = (if r = 0 then f OR FLAG_ZF else f);
         f = (if r < a then f OR FLAG_CF else f);
         f = (if r AND 0x80000000 \<noteq> 0 then f OR FLAG_SF else f)
     in Inl (set_flags f vm, w))"

definition do_SUB :: "operands \<Rightarrow> 'w cfg \<Rightarrow> 'w step_result" where
  "do_SUB ops c = (case ops of (dst, src, imm) \<Rightarrow> case c of (vm, w) \<Rightarrow>
     let a = get_reg dst vm;
         b = get_reg src vm;
         r = a - b;
         vm = set_reg dst r vm;
         f = 0;
         f = (if r = 0 then f OR FLAG_ZF else f);
         f = (if a < b then f OR FLAG_CF else f);
         f = (if r AND 0x80000000 \<noteq> 0 then f OR FLAG_SF else f)
     in Inl (set_flags f vm, w))"

definition do_MUL :: "operands \<Rightarrow> 'w cfg \<Rightarrow> 'w step_result" where
  "do_MUL ops c = (case ops of (dst, src, imm) \<Rightarrow> case c of (vm, w) \<Rightarrow>
     let a = get_reg dst vm;
         b = get_reg src vm;
         p = (ucast a :: u64) * ucast b;
         r = ucast p;
         vm = set_reg dst r vm;
         f = 0;
         f = (if r = 0 then f OR FLAG_ZF else f);
         f = (if p > 0xFFFFFFFF then f OR FLAG_CF else f);
         f = (if r AND 0x80000000 \<noteq> 0 then f OR FLAG_SF else f)
     in Inl (set_flags f vm, w))"

definition do_DIV :: "operands \<Rightarrow> 'w cfg \<Rightarrow> 'w step_result" where
  "do_DIV ops c = (case ops of (dst, src, imm) \<Rightarrow> case c of (vm, w) \<Rightarrow>
     let a = get_reg dst vm;
         b = get_reg src vm
     in if b = 0 then
          let vm = set_pc (pc (vm_state vm) - 4) vm;
              vm = set_halted HALT_DIV_ZERO vm
          in Inr (Returned HALT_DIV_ZERO, vm, w)
        else
          let q = a div b;
              vm = set_reg dst q vm;
              f = 0;
              f = (if q = 0 then f OR FLAG_ZF else f);
              f = (if q AND 0x80000000 \<noteq> 0 then f OR FLAG_SF else f)
          in Inl (set_flags f vm, w))"

definition do_JUMP :: "operands \<Rightarrow> 'w cfg \<Rightarrow> 'w step_result" where
  "do_JUMP ops c = (case ops of (dst, src, imm) \<Rightarrow> case c of (vm, w) \<Rightarrow>
     Inl (set_pc imm vm, w))"

definition do_JNZ :: "operands \<Rightarrow> 'w cfg \<Rightarrow> 'w step_result" where
  "do_JNZ ops c = (case ops of (dst, src, imm) \<Rightarrow> case c of (vm, w) \<Rightarrow>
     Inl (if get_reg dst vm \<noteq> 0 then set_pc imm vm else vm, w))"

text \<open>
  \<open>IN\<close> and \<open>RAND\<close>: an absent hook makes them do nothing; the observer sees the value only when
  the producer returned one.
\<close>

definition observe :: "u8 \<Rightarrow> u32 \<Rightarrow> 'w VM \<Rightarrow> 'w \<Rightarrow> 'w" where
  "observe op v vm w = (case on_nondeterministic (vm_io vm) of
     None \<Rightarrow> w | Some f \<Rightarrow> f (cycle_count (vm_state vm)) op v w)"

definition do_IN :: "operands \<Rightarrow> 'w cfg \<Rightarrow> 'w step_result" where
  "do_IN ops c = (case ops of (dst, src, imm) \<Rightarrow> case c of (vm, w) \<Rightarrow>
     (case io_in (vm_io vm) of
        None \<Rightarrow> Inl (vm, w)
      | Some hook \<Rightarrow>
          (case hook (cycle_count (vm_state vm)) w of
             (Inl e, w) \<Rightarrow> Inr (Thrown e, vm, w)
           | (Inr v, w) \<Rightarrow>
               let vm = set_reg dst v vm in Inl (vm, observe OP_IN v vm w))))"

definition do_RAND :: "operands \<Rightarrow> 'w cfg \<Rightarrow> 'w step_result" where
  "do_RAND ops c = (case ops of (dst, src, imm) \<Rightarrow> case c of (vm, w) \<Rightarrow>
     (case io_rand (vm_io vm) of
        None \<Rightarrow> Inl (vm, w)
      | Some hook \<Rightarrow>
          (case hook (cycle_count (vm_state vm)) w of
             (Inl e, w) \<Rightarrow> Inr (Thrown e, vm, w)
           | (Inr v, w) \<Rightarrow>
               let vm = set_reg dst v vm in Inl (vm, observe OP_RAND v vm w))))"

definition do_LI :: "operands \<Rightarrow> 'w cfg \<Rightarrow> 'w step_result" where
  "do_LI ops c = (case ops of (dst, src, imm) \<Rightarrow> case c of (vm, w) \<Rightarrow>
     Inl (set_reg dst imm vm, w))"

fun exec_label :: "label \<Rightarrow> operands \<Rightarrow> 'w cfg \<Rightarrow> 'w step_result" where
  "exec_label label_HALT ops c = do_HALT c"
| "exec_label label_LOAD ops c = do_LOAD ops c"
| "exec_label label_STORE ops c = do_STORE ops c"
| "exec_label label_ADD ops c = do_ADD ops c"
| "exec_label label_SUB ops c = do_SUB ops c"
| "exec_label label_MUL ops c = do_MUL ops c"
| "exec_label label_DIV ops c = do_DIV ops c"
| "exec_label label_JUMP ops c = do_JUMP ops c"
| "exec_label label_JNZ ops c = do_JNZ ops c"
| "exec_label label_IN ops c = do_IN ops c"
| "exec_label label_RAND ops c = do_RAND ops c"
| "exec_label label_LI ops c = do_LI ops c"

definition goto_step :: "'w cfg \<Rightarrow> 'w step_result" where
  "goto_step c = (case tail_dispatch c of
     Inl (l, ops, c') \<Rightarrow> exec_label l ops c'
   | Inr r \<Rightarrow> Inr r)"

definition run_goto :: "'w cfg \<Rightarrow> (run_result \<times> 'w cfg) option" where
  "run_goto = run_loop goto_step"

section \<open>How a step is composed\<close>

text \<open>
  The pieces of \<open>TAIL_DISPATCH()\<close> that the proofs treat one at a time: the advance, the snapshot
  timer, the decoding.
\<close>

definition advance :: "'w VM \<Rightarrow> 'w VM" where
  "advance vm = upd_state (\<lambda>s. s\<lparr>pc := pc s + 4, cycle_count := cycle_count s + 1\<rparr>) vm"

definition snap_tick :: "'w cfg \<Rightarrow> bool \<times> 'w cfg" where
  "snap_tick c = (case c of (vm, w) \<Rightarrow>
     if snap_interval (vm_state vm) = 0 then (False, vm, w)
     else
       let vm = upd_state (\<lambda>s. s\<lparr>snap_timer := snap_timer s - 1\<rparr>) vm in
       if snap_timer (vm_state vm) = 0 then
         let (vm, w) = make_snapshot (vm, w);
             vm = upd_state (\<lambda>s. s\<lparr>snap_timer := snap_interval s\<rparr>) vm
         in (halted (vm_state vm) \<noteq> HALT_RUNNING, vm, w)
       else (False, vm, w))"

definition jump_to :: "u32 \<Rightarrow> 'w cfg \<Rightarrow> 'w step_result" where
  "jump_to instr c =
     (if decode_op instr \<ge> ucast OP_COUNT
      then Inr (Returned HALT_UNKNOWN_OP, set_halted HALT_UNKNOWN_OP (fst c), snd c)
      else exec_label (dispatch_table ! unat (decode_op instr))
             (decode_dst instr, decode_src instr, decode_imm instr) c)"

definition fetch :: "'w VM \<Rightarrow> u32" where
  "fetch vm = mem_load_u32 (vm_mem vm) (pc (vm_state vm))"

lemma goto_step_eq:
  "goto_step (vm, w) =
     (case snap_tick (advance vm, w) of (returned, vm', w') \<Rightarrow>
        if returned then Inr (Returned (halted (vm_state vm')), vm', w')
        else jump_to (fetch vm) (vm', w'))"
  by (simp add: goto_step_def tail_dispatch_def snap_tick_def advance_def jump_to_def fetch_def
      access_defs Let_def word_gt_0 split: prod.splits)

lemma advance_simps [simp]:
  "vm_mem (advance vm) = vm_mem vm" "vm_io (advance vm) = vm_io vm"
  "vm_sink (advance vm) = vm_sink vm" "vm_deltas (advance vm) = vm_deltas vm"
  "vm_mode (advance vm) = vm_mode vm"
  "vm_state (advance vm) = (vm_state vm)\<lparr>pc := pc (vm_state vm) + 4,
     cycle_count := cycle_count (vm_state vm) + 1\<rparr>"
  by (simp_all add: advance_def upd_state_def)

lemma make_snapshot_frame:
  assumes "make_snapshot (vm, w) = (vm', w')"
  shows "vm_mem vm' = vm_mem vm" "vm_io vm' = vm_io vm" "vm_sink vm' = vm_sink vm"
    "vm_mode vm' = vm_mode vm" "vm_deltas vm' = []"
    "cycle_count (vm_state vm') = cycle_count (vm_state vm)"
    "regs (vm_state vm') = regs (vm_state vm)" "pc (vm_state vm') = pc (vm_state vm)"
    "sp (vm_state vm') = sp (vm_state vm)" "flags (vm_state vm') = flags (vm_state vm)"
    "snap_interval (vm_state vm') = snap_interval (vm_state vm)"
    "snap_timer (vm_state vm') = snap_timer (vm_state vm)"
  using assms
  by (auto simp: make_snapshot_def take_snapshot_def request_halt_def Let_def
      split: option.splits prod.splits)

text \<open>The snapshot timer touches only the timer, the halt tag and the delta log.\<close>

lemma snap_tick_frame:
  assumes "snap_tick (vm, w) = (returned, vm', w')"
  shows "vm_mem vm' = vm_mem vm" "vm_io vm' = vm_io vm" "vm_sink vm' = vm_sink vm"
    "vm_mode vm' = vm_mode vm" "vm_deltas vm' = vm_deltas vm \<or> vm_deltas vm' = []"
    "cycle_count (vm_state vm') = cycle_count (vm_state vm)"
    "regs (vm_state vm') = regs (vm_state vm)" "pc (vm_state vm') = pc (vm_state vm)"
    "sp (vm_state vm') = sp (vm_state vm)" "flags (vm_state vm') = flags (vm_state vm)"
    "snap_interval (vm_state vm') = snap_interval (vm_state vm)"
proof -
  let ?vm = "upd_state (\<lambda>s. s\<lparr>snap_timer := snap_timer s - 1\<rparr>) vm"
  obtain v x where m: "make_snapshot (?vm, w) = (v, x)" by fastforce
  note f = make_snapshot_frame [OF m, unfolded upd_state_def, simplified]
  show "vm_mem vm' = vm_mem vm" "vm_io vm' = vm_io vm" "vm_sink vm' = vm_sink vm"
    "vm_mode vm' = vm_mode vm" "vm_deltas vm' = vm_deltas vm \<or> vm_deltas vm' = []"
    "cycle_count (vm_state vm') = cycle_count (vm_state vm)"
    "regs (vm_state vm') = regs (vm_state vm)" "pc (vm_state vm') = pc (vm_state vm)"
    "sp (vm_state vm') = sp (vm_state vm)" "flags (vm_state vm') = flags (vm_state vm)"
    "snap_interval (vm_state vm') = snap_interval (vm_state vm)"
    using assms m f
    by (auto simp: snap_tick_def upd_state_def Let_def split: if_splits prod.splits)
qed

lemma snap_tick_running:
  "snap_tick (vm, w) = (False, vm', w') \<Longrightarrow> halted (vm_state vm) = HALT_RUNNING \<Longrightarrow>
     halted (vm_state vm') = HALT_RUNNING"
  by (auto simp: snap_tick_def upd_state_def Let_def split: if_splits prod.splits)

lemma snap_tick_off [simp]:
  "snap_interval (vm_state vm) = 0 \<Longrightarrow> snap_tick (vm, w) = (False, vm, w)"
  by (simp add: snap_tick_def)

text \<open>With an interval of one cycle, the sink sees every fetch and may stop it.\<close>

definition snapshot_of :: "VMState \<Rightarrow> MemDelta list \<Rightarrow> Snapshot" where
  "snapshot_of st deltas = \<lparr>s_cycle_count = cycle_count st, s_regs = regs st, s_pc = pc st,
     s_sp = sp st, s_flags = flags st, s_halted = halted st, s_deltas = deltas\<rparr>"

lemma snap_tick_fire:
  assumes "vm_sink vm = Some sink" "snap_interval (vm_state vm) \<noteq> 0" "snap_timer (vm_state vm) = 1"
  shows "snap_tick (vm, w) = (
    let (req, w') = sink ((vm_state vm)\<lparr>snap_timer := 0\<rparr>) (snapshot_of (vm_state vm) (vm_deltas vm)) w;
        h = (case req of None \<Rightarrow> halted (vm_state vm) | Some r \<Rightarrow> r)
    in (h \<noteq> HALT_RUNNING,
        vm\<lparr>vm_state := (vm_state vm)\<lparr>halted := h, snap_timer := snap_interval (vm_state vm)\<rparr>,
          vm_deltas := []\<rparr>, w'))"
  using assms
  by (cases "vm_state vm")
    (auto simp: snap_tick_def make_snapshot_def take_snapshot_def snapshot_of_def upd_state_def
      request_halt_def Let_def split: prod.splits option.splits)

lemma snap_tick_wait:
  assumes "snap_interval (vm_state vm) \<noteq> 0" "snap_timer (vm_state vm) \<noteq> 1"
  shows "snap_tick (vm, w) =
    (False, upd_state (\<lambda>s. s\<lparr>snap_timer := snap_timer s - 1\<rparr>) vm, w)"
  using assms by (simp add: snap_tick_def upd_state_def)

lemma snap_tick_every:
  assumes "vm_sink vm = Some sink" "snap_interval (vm_state vm) = 1" "snap_timer (vm_state vm) = 1"
  shows "snap_tick (vm, w) = (
    let (req, w') = sink ((vm_state vm)\<lparr>snap_timer := 0\<rparr>) (snapshot_of (vm_state vm) (vm_deltas vm)) w;
        h = (case req of None \<Rightarrow> halted (vm_state vm) | Some r \<Rightarrow> r)
    in (h \<noteq> HALT_RUNNING,
        vm\<lparr>vm_state := (vm_state vm)\<lparr>halted := h, snap_timer := 1\<rparr>, vm_deltas := []\<rparr>, w'))"
  using snap_tick_fire [of vm sink w] assms by simp

section \<open>What the handlers change\<close>

lemmas handler_defs = do_HALT_def do_LOAD_def do_STORE_def do_ADD_def do_SUB_def do_MUL_def
  do_DIV_def do_JUMP_def do_JNZ_def do_IN_def do_RAND_def do_LI_def

lemma exec_label_frame:
  assumes "exec_label l ops (vm, w) = Inl (vm', w')"
  shows "vm_io vm' = vm_io vm" "vm_sink vm' = vm_sink vm" "vm_mode vm' = vm_mode vm"
    "cycle_count (vm_state vm') = cycle_count (vm_state vm)"
    "sp (vm_state vm') = sp (vm_state vm)" "halted (vm_state vm') = halted (vm_state vm)"
    "snap_interval (vm_state vm') = snap_interval (vm_state vm)"
    "snap_timer (vm_state vm') = snap_timer (vm_state vm)"
    "length (regs (vm_state vm')) = length (regs (vm_state vm))"
  using assms
  by (cases l; force simp: handler_defs access_defs Let_def split_def
      split: option.splits sum.splits if_split_asm)+

lemma exec_label_stop_frame:
  assumes "exec_label l ops (vm, w) = Inr (r, vm', w')"
  shows "vm_io vm' = vm_io vm" "vm_sink vm' = vm_sink vm" "vm_mode vm' = vm_mode vm"
    "cycle_count (vm_state vm') = cycle_count (vm_state vm)"
    "sp (vm_state vm') = sp (vm_state vm)" "regs (vm_state vm') = regs (vm_state vm)"
    "flags (vm_state vm') = flags (vm_state vm)"
    "snap_interval (vm_state vm') = snap_interval (vm_state vm)"
    "snap_timer (vm_state vm') = snap_timer (vm_state vm)"
    "vm_mem vm' = vm_mem vm" "vm_deltas vm' = vm_deltas vm"
  using assms
  by (cases l; force simp: handler_defs access_defs Let_def split_def
      split: option.splits sum.splits if_split_asm)+

text \<open>Where a step of the loop comes from.\<close>

lemma goto_step_InlE:
  assumes "goto_step (vm, w) = Inl c'"
  obtains v x where "snap_tick (advance vm, w) = (False, v, x)"
    "decode_op (fetch vm) < ucast OP_COUNT"
    "exec_label (dispatch_table ! unat (decode_op (fetch vm)))
       (decode_dst (fetch vm), decode_src (fetch vm), decode_imm (fetch vm)) (v, x) = Inl c'"
  using assms
  by (auto simp: goto_step_eq jump_to_def not_le split: prod.splits if_splits)

lemma goto_step_InrE:
  assumes "goto_step (vm, w) = Inr (r, c')"
  obtains (snapshot) v x where "snap_tick (advance vm, w) = (True, v, x)"
    "r = Returned (halted (vm_state v))" "c' = (v, x)"
  | (unknown) v x where "snap_tick (advance vm, w) = (False, v, x)"
    "ucast OP_COUNT \<le> decode_op (fetch vm)"
    "r = Returned HALT_UNKNOWN_OP" "c' = (set_halted HALT_UNKNOWN_OP v, x)"
  | (handler) v x where "snap_tick (advance vm, w) = (False, v, x)"
    "decode_op (fetch vm) < ucast OP_COUNT"
    "exec_label (dispatch_table ! unat (decode_op (fetch vm)))
       (decode_dst (fetch vm), decode_src (fetch vm), decode_imm (fetch vm)) (v, x) = Inr (r, c')"
  using assms
  by (auto simp: goto_step_eq jump_to_def not_le split: prod.splits if_splits)

text \<open>The memory after a continuing handler is the memory before, or one store into it.\<close>

lemma exec_label_memory:
  assumes "exec_label l (dst, src, imm) (vm, w) = Inl (vm', w')"
  shows "vm_mem vm' = vm_mem vm \<and> vm_deltas vm' = vm_deltas vm \<or>
    vm_mem vm' = mem_store_u32 (vm_mem vm) imm (get_reg dst vm) \<and>
    vm_deltas vm' = log_store (vm_mem vm) imm (vm_deltas vm)"
  using assms
  by (cases l; force simp: handler_defs access_defs Let_def split_def
      split: option.splits sum.splits if_split_asm)

end
