(* ===== verification/Naive.thy ===== *)
theory Naive
  imports Dispatch
begin

text \<open>
  The second dispatch path of \<open>VM::run\<close> in \<open>src/vm.cpp\<close>, the \<open>while\<close> / \<open>switch\<close> ladder that the
  dispatch comparison uses as its baseline, and its equivalence with the computed-goto path.
\<close>

section \<open>The switch\<close>

text \<open>
  One \<open>case\<close> per opcode. \<open>Inl\<close> is the \<open>break\<close> that leads back to the loop head, \<open>Inr\<close> a
  \<open>return\<close>; an opcode without a \<open>case\<close> takes the \<open>default\<close> branch, which does nothing.
\<close>

definition switch_control :: "u32 \<Rightarrow> operands \<Rightarrow> 'w cfg \<Rightarrow> 'w step_result" where
  "switch_control op ops c = (case ops of (dst, src, imm) \<Rightarrow> case c of (vm, w) \<Rightarrow>
     if op = ucast OP_JUMP then Inl (set_pc imm vm, w)
     else if op = ucast OP_JNZ then
       (if get_reg dst vm \<noteq> 0 then Inl (set_pc imm vm, w) else Inl (vm, w))
     else if op = ucast OP_IN then
       (case io_in (vm_io vm) of
          Some hook \<Rightarrow>
            (case hook (cycle_count (vm_state vm)) w of
               (Inl e, w) \<Rightarrow> Inr (Thrown e, vm, w)
             | (Inr v, w) \<Rightarrow>
                 (let vm = set_reg dst v vm in
                  case on_nondeterministic (vm_io vm) of
                    Some f \<Rightarrow> Inl (vm, f (cycle_count (vm_state vm)) OP_IN v w)
                  | None \<Rightarrow> Inl (vm, w)))
        | None \<Rightarrow> Inl (vm, w))
     else if op = ucast OP_RAND then
       (case io_rand (vm_io vm) of
          Some hook \<Rightarrow>
            (case hook (cycle_count (vm_state vm)) w of
               (Inl e, w) \<Rightarrow> Inr (Thrown e, vm, w)
             | (Inr v, w) \<Rightarrow>
                 (let vm = set_reg dst v vm in
                  case on_nondeterministic (vm_io vm) of
                    Some f \<Rightarrow> Inl (vm, f (cycle_count (vm_state vm)) OP_RAND v w)
                  | None \<Rightarrow> Inl (vm, w)))
        | None \<Rightarrow> Inl (vm, w))
     else if op = ucast OP_LI then Inl (set_reg dst imm vm, w)
     else Inl (vm, w))"

definition switch_alu :: "u32 \<Rightarrow> operands \<Rightarrow> 'w cfg \<Rightarrow> 'w step_result" where
  "switch_alu op ops c = (case ops of (dst, src, imm) \<Rightarrow> case c of (vm, w) \<Rightarrow>
     let a = get_reg dst vm; b = get_reg src vm in
     if op = ucast OP_ADD then
       (let r = a + b; vm = set_reg dst r vm;
            f = (if r = 0 then FLAG_ZF else 0);
            f = (if r < a then f OR FLAG_CF else f);
            f = (if r AND 0x80000000 \<noteq> 0 then f OR FLAG_SF else f)
        in Inl (set_flags f vm, w))
     else if op = ucast OP_SUB then
       (let r = a - b; vm = set_reg dst r vm;
            f = (if r = 0 then FLAG_ZF else 0);
            f = (if a < b then f OR FLAG_CF else f);
            f = (if r AND 0x80000000 \<noteq> 0 then f OR FLAG_SF else f)
        in Inl (set_flags f vm, w))
     else if op = ucast OP_MUL then
       (let p = (ucast a :: u64) * ucast b; r = ucast p; vm = set_reg dst r vm;
            f = (if r = 0 then FLAG_ZF else 0);
            f = (if p > 0xFFFFFFFF then f OR FLAG_CF else f);
            f = (if r AND 0x80000000 \<noteq> 0 then f OR FLAG_SF else f)
        in Inl (set_flags f vm, w))
     else if op = ucast OP_DIV then
       (if b = 0 then
          Inr (Returned HALT_DIV_ZERO,
            set_halted HALT_DIV_ZERO (set_pc (pc (vm_state vm) - 4) vm), w)
        else
          let q = a div b; vm = set_reg dst q vm;
              f = (if q = 0 then FLAG_ZF else 0);
              f = (if q AND 0x80000000 \<noteq> 0 then f OR FLAG_SF else f)
          in Inl (set_flags f vm, w))
     else switch_control op ops c)"

definition switch_op :: "u32 \<Rightarrow> operands \<Rightarrow> 'w cfg \<Rightarrow> 'w step_result" where
  "switch_op op ops c = (case ops of (dst, src, imm) \<Rightarrow> case c of (vm, w) \<Rightarrow>
     if op = ucast OP_HALT then Inr (Returned HALT_NORMAL, set_halted HALT_NORMAL vm, w)
     else if op = ucast OP_LOAD then Inl (set_reg dst (mem_load_u32 (vm_mem vm) imm) vm, w)
     else if op = ucast OP_STORE then
       (let pg = ucast (drop_bit 12 imm AND 0xFF); off = ucast (imm AND 0xFFF);
            ds = vm_deltas vm;
            ds = (if ds \<noteq> [] \<and> page (last ds) = pg \<and> offset (last ds) = off
                    \<and> run_count (last ds) < 255
                  then butlast ds @ [(last ds)\<lparr>run_count := run_count (last ds) + 1\<rparr>]
                  else ds @ [\<lparr>run_count = 1, page = pg, offset = off,
                              old_value = mem_load_u32 (vm_mem vm) imm\<rparr>])
        in Inl (vm\<lparr>vm_deltas := ds,
                   vm_mem := mem_store_u32 (vm_mem vm) imm (get_reg dst vm)\<rparr>, w))
     else switch_alu op ops c)"

section \<open>The loop\<close>

definition naive_body :: "'w cfg \<Rightarrow> 'w step_result" where
  "naive_body c = (case c of (vm, w) \<Rightarrow>
     let instr = mem_load_u32 (vm_mem vm) (pc (vm_state vm));
         vm = upd_state (\<lambda>s. s\<lparr>pc := pc s + 4, cycle_count := cycle_count s + 1\<rparr>) vm;
         decode = (\<lambda>(vm, w).
           let op = decode_op instr;
               ops = (decode_dst instr, decode_src instr, decode_imm instr)
           in if op \<ge> ucast OP_COUNT
              then Inr (Returned HALT_UNKNOWN_OP, set_halted HALT_UNKNOWN_OP vm, w)
              else switch_op op ops (vm, w))
     in if 0 < snap_interval (vm_state vm) then
          let vm = upd_state (\<lambda>s. s\<lparr>snap_timer := snap_timer s - 1\<rparr>) vm in
          if snap_timer (vm_state vm) = 0 then
            let (vm, w) = make_snapshot (vm, w);
                vm = upd_state (\<lambda>s. s\<lparr>snap_timer := snap_interval s\<rparr>) vm
            in if halted (vm_state vm) \<noteq> HALT_RUNNING
               then Inr (Returned (halted (vm_state vm)), vm, w)
               else decode (vm, w)
          else decode (vm, w)
        else decode (vm, w))"

definition naive_step :: "'w cfg \<Rightarrow> 'w step_result" where
  "naive_step c =
     (if halted (vm_state (fst c)) = HALT_RUNNING then naive_body c
      else Inr (Returned (halted (vm_state (fst c))), c))"

definition run_naive :: "'w cfg \<Rightarrow> (run_result \<times> 'w cfg) option" where
  "run_naive = run_loop naive_step"

text \<open>\<open>VM::run\<close>. \<open>None\<close> is a call that never returns.\<close>

definition vm_run :: "'w cfg \<Rightarrow> (run_result \<times> 'w cfg) option" where
  "vm_run c = (if vm_mode (fst c) = NaiveSwitch then run_naive c else run_goto c)"

section \<open>The two paths agree\<close>

lemma op_cases:
  fixes op :: u32
  assumes "op < 12"
  obtains "op = 0" | "op = 1" | "op = 2" | "op = 3" | "op = 4" | "op = 5" | "op = 6" | "op = 7"
    | "op = 8" | "op = 9" | "op = 10" | "op = 11"
proof -
  have "[0..<12] = [0, 1, 2, 3, 4, 5, 6, 7, 8, 9, 10, 11::nat]"
    by (simp add: upt_rec)
  moreover have "unat op \<in> set [0..<12]"
    using assms by (simp add: word_less_nat_alt)
  ultimately have "unat op \<in> set [0, 1, 2, 3, 4, 5, 6, 7, 8, 9, 10, 11]"
    by simp
  moreover have "op = of_nat (unat op)" by simp
  ultimately show thesis
    using that by (auto simp del: of_nat_unat)
qed

lemma switch_memory:
  "switch_op 0 ops c = do_HALT c"
  "switch_op 1 ops c = do_LOAD ops c"
  "switch_op 2 ops c = do_STORE ops c"
  by (simp_all add: switch_op_def do_HALT_def do_LOAD_def do_STORE_def log_store_def const_defs
      Let_def split_def access_defs)

lemma switch_arith:
  "switch_op 3 ops c = do_ADD ops c"
  "switch_op 4 ops c = do_SUB ops c"
  "switch_op 5 ops c = do_MUL ops c"
  "switch_op 6 ops c = do_DIV ops c"
  by (simp_all add: switch_op_def switch_alu_def do_ADD_def do_SUB_def do_MUL_def do_DIV_def
      const_defs Let_def split_def)

lemma switch_jumps:
  "switch_op 7 ops c = do_JUMP ops c"
  "switch_op 8 ops c = do_JNZ ops c"
  "switch_op 11 ops c = do_LI ops c"
  by (simp_all add: switch_op_def switch_alu_def switch_control_def do_JUMP_def do_JNZ_def
      do_LI_def const_defs Let_def split_def)

lemma switch_io:
  "switch_op 9 ops c = do_IN ops c"
  "switch_op 10 ops c = do_RAND ops c"
  by (auto simp: switch_op_def switch_alu_def switch_control_def do_IN_def do_RAND_def observe_def
      const_defs Let_def split: prod.splits option.splits sum.splits)

lemma switch_op_label:
  assumes "op < 12"
  shows "switch_op op ops c = exec_label (dispatch_table ! unat op) ops c"
  using assms
  by (cases op rule: op_cases)
    (simp_all add: dispatch_table_def switch_memory switch_arith switch_jumps switch_io)

lemma naive_body_eq: "naive_body c = goto_step c"
proof -
  obtain vm w where c: "c = (vm, w)" by (cases c)
  have "ucast OP_COUNT = (12 :: u32)" by (simp add: const_defs)
  then have decode: "(if decode_op i \<ge> ucast OP_COUNT
        then Inr (Returned HALT_UNKNOWN_OP, set_halted HALT_UNKNOWN_OP v, x)
        else switch_op (decode_op i) (decode_dst i, decode_src i, decode_imm i) (v, x))
      = jump_to i (v, x)" for i :: u32 and v :: "'a VM" and x
    by (auto simp: jump_to_def switch_op_label dest: leD)
  show ?thesis
    by (auto simp: c naive_body_def goto_step_eq decode snap_tick_def fetch_def Let_def
        word_gt_0 simp flip: advance_def split: prod.splits if_splits)
qed

lemma goto_step_running:
  assumes "goto_step c = Inl c'" "halted (vm_state (fst c)) = HALT_RUNNING"
  shows "halted (vm_state (fst c')) = HALT_RUNNING"
proof -
  obtain vm w where c: "c = (vm, w)" by (cases c)
  obtain vm' w' where c': "c' = (vm', w')" by (cases c')
  obtain b v x where t: "snap_tick (advance vm, w) = (b, v, x)" by (metis prod_cases3)
  with assms c c' have b: "\<not> b" and j: "jump_to (fetch vm) (v, x) = Inl (vm', w')"
    by (auto simp: goto_step_eq split: if_splits)
  have "halted (vm_state v) = HALT_RUNNING"
    using snap_tick_running [of "advance vm" w v x] t b assms(2) c by simp
  with j show ?thesis
    by (auto simp: c' jump_to_def dest: exec_label_frame(6) split: if_splits)
qed

text \<open>
  From a running machine the two loops take the same steps. The relation is equality of the
  configurations together with the loop condition of the ladder.
\<close>

definition running_eq :: "'w cfg \<Rightarrow> 'w cfg \<Rightarrow> bool" where
  "running_eq c d \<longleftrightarrow> c = d \<and> halted (vm_state (fst c)) = HALT_RUNNING"

interpretation dispatch_paths: lockstep goto_step naive_step running_eq "(=)"
proof unfold_locales
  fix c d :: "'a cfg"
  assume "running_eq c d"
  then have d: "d = c" and h: "halted (vm_state (fst c)) = HALT_RUNNING"
    by (auto simp: running_eq_def)
  have "naive_step d = goto_step c"
    using d h by (simp add: naive_step_def naive_body_eq)
  then show "rel_sum running_eq (=) (goto_step c) (naive_step d)"
    using goto_step_running [OF _ h]
    by (cases "goto_step c") (auto simp: running_eq_def)
qed

lemma run_paths_agree:
  "halted (vm_state (fst c)) = HALT_RUNNING \<Longrightarrow> run_naive c = run_goto c"
  using dispatch_paths.lockstep_run [of c c]
  by (simp add: run_naive_def run_goto_def running_eq_def option.rel_eq)

end
