(* ===== verification/Samples.thy ===== *)
theory Samples
  imports Naive
begin

text \<open>
  Small concrete programs and worlds on which the properties are evaluated, and the definitions
  that a run of the machine on them unfolds.
\<close>

text \<open>\<open>IN R0; HALT\<close>.\<close>

definition in_bin :: bytes where
  "in_bin = [0x00, 0x00, 0x00, 0x24,  0x00, 0x00, 0x00, 0x00]"

text \<open>\<open>LI R1, 1; DIV R1, R0\<close>: a division by zero.\<close>

definition div_bin :: bytes where
  "div_bin = [0x01, 0x00, 0x80, 0x2C,  0x00, 0x00, 0x80, 0x18]"

text \<open>\<open>LI R2, 5; STORE R2, 0x100; IN R0; LOAD R3, 0x100; HALT\<close>.\<close>

definition store_bin :: bytes where
  "store_bin = [0x05, 0x00, 0x00, 0x2D,  0x00, 0x01, 0x00, 0x09,  0x00, 0x00, 0x00, 0x24,
     0x00, 0x01, 0x80, 0x05,  0x00, 0x00, 0x00, 0x00]"

definition sample_world :: "bytes \<Rightarrow> world" where
  "sample_world bs = \<lparr>files = [''p'' \<mapsto> bs], fault = (\<lambda>_. None), stdin = ''42'', stdout = [],
     stderr = []\<rparr>"

lemmas sample_defs = sample_world_def in_bin_def div_bin_def store_bin_def

text \<open>Loading a program into a fresh machine.\<close>

lemmas load_eval = load_program_def MEM_SIZE_def VM_new_def reset_state_def
  set_io_hooks_def set_state_def set_snapshot_interval_def set_snapshot_sink_def
  set_dispatch_mode_def VMState_init_def

text \<open>Stepping it.\<close>

lemma op_one_known: "\<not> (12 :: u32) \<le> 1"
  by (simp add: word_le_nat_alt)

lemmas step_eval = run_loop.simps goto_step_eq advance_def upd_state_def fetch_def
  mem_load_u32_def mem_store_u32_def MEM_MASK_def Let_def jump_to_def decode_op_def
  decode_dst_def decode_src_def decode_imm_def const_defs dispatch_table_def handler_defs
  access_defs observe_def log_store_def snap_tick_def make_snapshot_def take_snapshot_def
  op_one_known split_def

text \<open>A machine with a program loaded and hooks that deliver fixed values.\<close>

definition sample_vm :: "bytes \<Rightarrow> unit VM" where
  "sample_vm bs = snd (load_program bs (VM_new (\<lambda>_ x. (Inr 42, x)) (\<lambda>_ x. (Inr 7, x))))"

lemmas sample_vm_eval = sample_vm_def load_eval sample_defs

end
