(* ===== verification/Undo.thy ===== *)
theory Undo
  imports Samples
begin

text \<open>
  The delta log as an undo log. \<open>undo_deltas\<close> is the loop over a snapshot's deltas in reverse
  order that the debugger's \<open>back\<close> command and the rewind benchmarks share (\<open>src/main.cpp\<close>).
\<close>

definition undo_deltas :: "MemDelta list \<Rightarrow> mem \<Rightarrow> mem" where
  "undo_deltas deltas m = fold apply_old_value (rev deltas) m"

section \<open>The contract of an undo log\<close>

locale undo_log =
  fixes store :: "'a \<Rightarrow> 'v \<Rightarrow> 'm \<Rightarrow> 'm"
    and note_write :: "'m \<Rightarrow> 'a \<Rightarrow> 'l \<Rightarrow> 'l"
    and undo :: "'l \<Rightarrow> 'm \<Rightarrow> 'm"
    and empty_log :: 'l
  assumes undo_empty: "undo empty_log m = m"
    and undo_note: "undo (note_write m a l) (store a v m) = undo l m"
begin

text \<open>Any sequence of logged writes is undone as a whole.\<close>

lemma undo_writes:
  "undo (snd (foldl (\<lambda>(m, l) (a, v). (store a v m, note_write m a l)) (m, l) ws))
     (fst (foldl (\<lambda>(m, l) (a, v). (store a v m, note_write m a l)) (m, l) ws)) = undo l m"
proof (induction ws arbitrary: m l)
  case (Cons x ws)
  obtain a v where "x = (a, v)" by (cases x)
  with Cons.IH [of "store a v m" "note_write m a l"] show ?case by (simp add: undo_note)
qed simp

lemma undo_writes_empty:
  "undo (snd (foldl (\<lambda>(m, l) (a, v). (store a v m, note_write m a l)) (m, empty_log) ws))
     (fst (foldl (\<lambda>(m, l) (a, v). (store a v m, note_write m a l)) (m, empty_log) ws)) = m"
  by (simp only: undo_writes undo_empty)

end

section \<open>The log of the machine meets it\<close>

lemma delta_addr_of_imm:
  "delta_addr \<lparr>run_count = rc, page = ucast (drop_bit 12 imm AND 0xFF),
     offset = ucast (imm AND 0xFFF), old_value = v\<rparr> = imm AND MEM_MASK"
proof (rule bit_word_eqI)
  fix n :: nat
  assume "n < LENGTH(32)"
  then consider "n < 12" | "12 \<le> n" "n < 20" | "20 \<le> n" "n < 32" by fastforce
  then show "bit (delta_addr \<lparr>run_count = rc, page = ucast (drop_bit 12 imm AND 0xFF),
     offset = ucast (imm AND 0xFFF), old_value = v\<rparr>) n = bit (imm AND MEM_MASK) n"
    unfolding delta_addr_def MEM_MASK_def mask_literals
    by cases (auto simp: bit_simps)
qed

lemma delta_addr_of_fields:
  assumes "page d = ucast (drop_bit 12 imm AND 0xFF)" "offset d = ucast (imm AND 0xFFF)"
  shows "delta_addr d = imm AND MEM_MASK"
  using delta_addr_of_imm [of 0 imm 0] assms by (simp add: delta_addr_def)

lemma mem_store_masked: "mem_store_u32 m (a AND MEM_MASK) v = mem_store_u32 m a v"
  by (simp add: mem_store_u32_def)

lemma undo_deltas_snoc: "undo_deltas (ds @ [d]) m = undo_deltas ds (apply_old_value d m)"
  by (simp add: undo_deltas_def)

lemma undo_deltas_empty [simp]: "undo_deltas [] m = m"
  by (simp add: undo_deltas_def)

lemma undo_log_store:
  "undo_deltas (log_store m imm ds) (mem_store_u32 m imm v) = undo_deltas ds m"
proof -
  let ?pg = "ucast (drop_bit 12 imm AND 0xFF) :: u8" and ?off = "ucast (imm AND 0xFFF) :: u16"
  show ?thesis
  proof (cases "ds \<noteq> [] \<and> page (last ds) = ?pg \<and> offset (last ds) = ?off
      \<and> run_count (last ds) < 255")
    case True
    let ?d = "last ds" and ?d' = "(last ds)\<lparr>run_count := run_count (last ds) + 1\<rparr>"
    have "log_store m imm ds = butlast ds @ [?d']"
      using True by (simp add: log_store_def Let_def)
    moreover have "apply_old_value ?d' (mem_store_u32 m imm v) = apply_old_value ?d m"
      using True
      by (simp add: apply_old_value_store delta_addr_of_fields mem_store_masked mem_store_store)
    moreover have "undo_deltas ds m = undo_deltas (butlast ds) (apply_old_value ?d m)"
      using True undo_deltas_snoc [of "butlast ds" ?d m] by simp
    ultimately show ?thesis by (simp add: undo_deltas_snoc)
  next
    case False
    then have "log_store m imm ds = ds @ [\<lparr>run_count = 1, page = ?pg, offset = ?off,
        old_value = mem_load_u32 m imm\<rparr>]"
      by (auto simp: log_store_def Let_def)
    then show ?thesis
      by (simp add: undo_deltas_snoc apply_old_value_store delta_addr_of_imm mem_store_masked
          mem_store_store mem_store_load)
  qed
qed

interpretation vm_log: undo_log "\<lambda>a v m. mem_store_u32 m a v" log_store undo_deltas "[]"
  by unfold_locales (simp_all add: undo_log_store)

text \<open>What a step of the loop does to the memory that the log leads back to.\<close>

definition base_mem :: "'w VM \<Rightarrow> mem" where
  "base_mem vm = undo_deltas (vm_deltas vm) (vm_mem vm)"

lemma exec_label_base:
  "exec_label l ops (vm, w) = Inl (vm', w') \<Longrightarrow> base_mem vm' = base_mem vm"
  using exec_label_memory [of l "fst ops" "fst (snd ops)" "snd (snd ops)" vm w vm' w']
  by (auto simp: base_mem_def undo_log_store)

lemma exec_label_stop_base:
  "exec_label l ops (vm, w) = Inr (r, vm', w') \<Longrightarrow> base_mem vm' = base_mem vm"
  by (simp add: base_mem_def exec_label_stop_frame(10,11) [of l ops vm w r vm' w'])

text \<open>With checkpointing off nothing drains the log, so it leads back to the start of the run.\<close>

lemma goto_step_base_off:
  assumes "snap_interval (vm_state vm) = 0"
  shows "goto_step (vm, w) = Inl (vm', w') \<Longrightarrow>
      base_mem vm' = base_mem vm \<and> snap_interval (vm_state vm') = 0"
    and "goto_step (vm, w) = Inr (r, vm', w') \<Longrightarrow> base_mem vm' = base_mem vm"
proof -
  have base_adv: "base_mem (advance vm) = base_mem vm" by (simp add: base_mem_def)
  { assume "goto_step (vm, w) = Inl (vm', w')"
    then show "base_mem vm' = base_mem vm \<and> snap_interval (vm_state vm') = 0"
      by (rule goto_step_InlE)
        (use assms in \<open>auto dest: exec_label_base exec_label_frame(7) simp: base_adv\<close>) }
  { assume "goto_step (vm, w) = Inr (r, vm', w')"
    then show "base_mem vm' = base_mem vm"
      by (rule goto_step_InrE)
        (use assms in \<open>auto dest: exec_label_stop_base simp: base_adv base_mem_def access_defs\<close>) }
qed

end
