(* ===== verification/Invariants.thy ===== *)
theory Invariants
  imports Undo
begin

text \<open>
  What no instruction changes: the installed closures, the dispatch mode, the stack pointer, the
  number of registers, the snapshot interval and the memory outside the arena. And what a run
  depends on: nothing outside the arena.
\<close>

section \<open>The fixed part of the machine\<close>

definition same_fixed :: "'w VM \<Rightarrow> 'w VM \<Rightarrow> bool" where
  "same_fixed u v \<longleftrightarrow> vm_io v = vm_io u \<and> vm_sink v = vm_sink u \<and> vm_mode v = vm_mode u
     \<and> sp (vm_state v) = sp (vm_state u)
     \<and> length (regs (vm_state v)) = length (regs (vm_state u))
     \<and> snap_interval (vm_state v) = snap_interval (vm_state u)
     \<and> (\<forall>a. MEM_SIZE \<le> unat a \<longrightarrow> vm_mem v a = vm_mem u a)"

lemma same_fixed_refl [simp]: "same_fixed u u"
  by (simp add: same_fixed_def)

lemma same_fixed_trans: "same_fixed u v \<Longrightarrow> same_fixed v x \<Longrightarrow> same_fixed u x"
  by (simp add: same_fixed_def)

lemma same_fixed_tick: "snap_tick (advance u, x) = (b, v, y) \<Longrightarrow> same_fixed u v"
  using snap_tick_frame [of "advance u" x b v y] by (simp add: same_fixed_def)

lemma same_fixed_handler:
  assumes "exec_label l ops (u, x) = Inl (v, y)"
  shows "same_fixed u v"
  using exec_label_frame [OF assms]
    exec_label_memory [of l "fst ops" "fst (snd ops)" "snd (snd ops)" u x v y] assms
  by (auto simp: same_fixed_def mem_store_outside)

lemma same_fixed_handler_stop:
  assumes "exec_label l ops (u, x) = Inr (r, v, y)"
  shows "same_fixed u v"
  using exec_label_stop_frame [OF assms] by (simp add: same_fixed_def)

lemma same_fixed_halted [simp]: "same_fixed u (set_halted h u)"
  by (simp add: same_fixed_def access_defs)

lemma goto_step_fixed: "goto_step c = Inl d \<Longrightarrow> same_fixed (fst c) (fst d)"
  by (cases c; cases d)
    (auto elim!: goto_step_InlE dest!: same_fixed_tick same_fixed_handler intro: same_fixed_trans)

lemma goto_step_stop_fixed:
  assumes "goto_step c = Inr q"
  shows "same_fixed (fst c) (fst (snd q))"
proof -
  obtain u x r v y where cq: "c = (u, x)" "q = (r, v, y)" by (metis prod_cases3 surj_pair)
  with assms have "goto_step (u, x) = Inr (r, v, y)" by simp
  then show ?thesis
  proof (cases rule: goto_step_InrE)
    case (handler a b)
    from same_fixed_trans [OF same_fixed_tick [OF handler(1)] same_fixed_handler_stop [OF handler(3)]]
    show ?thesis by (simp add: cq)
  next
    case (unknown a b)
    from same_fixed_trans [OF same_fixed_tick [OF unknown(1)] same_fixed_halted] unknown(4)
    show ?thesis by (simp add: cq)
  next
    case (snapshot a b)
    from same_fixed_tick [OF snapshot(1)] snapshot(3) show ?thesis by (simp add: cq)
  qed
qed

lemma run_goto_fixed:
  assumes "run_goto c = Some q"
  shows "same_fixed (fst c) (fst (snd q))"
  using assms unfolding run_goto_def
  by (rule run_loop_invariant [where I = "\<lambda>d. same_fixed (fst c) (fst d)"])
    (blast intro: same_fixed_refl same_fixed_trans goto_step_fixed goto_step_stop_fixed)+

section \<open>Independence of what lies outside the arena\<close>

definition arena_eq :: "'w VM \<Rightarrow> 'w VM \<Rightarrow> bool" where
  "arena_eq u v \<longleftrightarrow> mem_agree (vm_mem u) (vm_mem v) \<and> vm_state u = vm_state v
     \<and> vm_deltas u = vm_deltas v \<and> vm_io u = vm_io v \<and> vm_sink u = vm_sink v
     \<and> vm_mode u = vm_mode v"

definition arena_eq_cfg :: "'w cfg \<Rightarrow> 'w cfg \<Rightarrow> bool" where
  "arena_eq_cfg c d \<longleftrightarrow> arena_eq (fst c) (fst d) \<and> snd c = snd d"

lemma arena_eq_handler:
  assumes "arena_eq u v"
  shows "rel_sum arena_eq_cfg (rel_prod (=) arena_eq_cfg) (exec_label l ops (u, x))
    (exec_label l ops (v, x))"
proof -
  obtain dst src imm where ops: "ops = (dst, src, imm)" by (cases ops)
  note a = assms [unfolded arena_eq_def]
  have "mem_load_u32 (vm_mem v) imm = mem_load_u32 (vm_mem u) imm"
    using mem_load_agree a by metis
  with a show ?thesis
    by (cases l; simp add: ops handler_defs access_defs log_store_def observe_def Let_def
        arena_eq_cfg_def arena_eq_def mem_store_agree split: option.splits prod.splits sum.splits)
qed

lemma arena_eq_tick:
  "arena_eq u v \<Longrightarrow> rel_prod (=) arena_eq_cfg (snap_tick (u, x)) (snap_tick (v, x))"
  by (auto simp: arena_eq_def arena_eq_cfg_def snap_tick_def make_snapshot_def take_snapshot_def
      request_halt_def upd_state_def Let_def split: prod.splits option.splits)

lemma arena_eq_step:
  assumes "arena_eq_cfg c d"
  shows "rel_sum arena_eq_cfg (rel_prod (=) arena_eq_cfg) (goto_step c) (goto_step d)"
proof -
  obtain u x v where c: "c = (u, x)" and d: "d = (v, x)" and uv: "arena_eq u v"
    using assms by (cases c; cases d) (auto simp: arena_eq_cfg_def)
  have f: "fetch v = fetch u"
    using uv mem_load_agree by (fastforce simp: arena_eq_def fetch_def)
  have "arena_eq (advance u) (advance v)" using uv by (simp add: arena_eq_def)
  from arena_eq_tick [OF this, of x] obtain b u1 v1 y
    where t: "snap_tick (advance u, x) = (b, u1, y)" "snap_tick (advance v, x) = (b, v1, y)"
      and uv1: "arena_eq u1 v1"
    by (cases "snap_tick (advance u, x)"; cases "snap_tick (advance v, x)")
      (auto simp: arena_eq_cfg_def)
  from uv1 have h: "arena_eq (set_halted r u1) (set_halted r v1)" "vm_state v1 = vm_state u1" for r
    by (simp_all add: arena_eq_def access_defs)
  show ?thesis
    using t arena_eq_handler [OF uv1] h uv1
    by (simp add: c d goto_step_eq f jump_to_def arena_eq_cfg_def)
qed

interpretation arena: lockstep goto_step goto_step arena_eq_cfg "rel_prod (=) arena_eq_cfg"
  by unfold_locales (rule arena_eq_step)

end
