(* ===== verification/Runs.thy ===== *)
theory Runs
  imports Invariants
begin

text \<open>
  Properties of whole calls of \<open>VM::run\<close>: the two dispatch modes, the undo log, the fixed part of
  the machine and the arena.
\<close>

section \<open>The dispatch mode does not matter\<close>

definition with_mode :: "DispatchMode \<Rightarrow> 'w cfg \<Rightarrow> 'w cfg" where
  "with_mode m c = (set_dispatch_mode m (fst c), snd c)"

lemma with_mode_fields [simp]:
  "vm_mem (fst (with_mode m c)) = vm_mem (fst c)"
  "vm_state (fst (with_mode m c)) = vm_state (fst c)"
  "vm_mode (fst (with_mode m c)) = m" "snd (with_mode m c) = snd c"
  by (simp_all add: with_mode_def set_dispatch_mode_def)

lemma exec_label_mode:
  "exec_label l ops (with_mode m c) =
     map_sum (with_mode m) (map_prod id (with_mode m)) (exec_label l ops c)"
  by (cases l; cases c; cases ops)
    (simp_all add: with_mode_def set_dispatch_mode_def handler_defs access_defs observe_def Let_def
      split: option.splits prod.splits sum.splits)

lemma snap_tick_mode:
  "snap_tick (with_mode m c) = map_prod id (with_mode m) (snap_tick c)"
  by (cases c)
    (auto simp: with_mode_def set_dispatch_mode_def snap_tick_def make_snapshot_def
      take_snapshot_def request_halt_def upd_state_def Let_def split: prod.splits option.splits)

lemma goto_step_mode:
  "goto_step (with_mode m c) =
     map_sum (with_mode m) (map_prod id (with_mode m)) (goto_step c)"
proof -
  obtain vm w where c: "c = (vm, w)" by (cases c)
  obtain b v x where t: "snap_tick (advance vm, w) = (b, v, x)" by (metis prod_cases3)
  have "advance (set_dispatch_mode m vm) = set_dispatch_mode m (advance vm)"
    by (simp add: set_dispatch_mode_def advance_def upd_state_def)
  then have a: "snap_tick (advance (set_dispatch_mode m vm), w) = (b, set_dispatch_mode m v, x)"
    using snap_tick_mode [of m "(advance vm, w)"] t by (simp add: with_mode_def)
  have f: "fetch (set_dispatch_mode m vm) = fetch vm"
    by (simp add: fetch_def set_dispatch_mode_def)
  have h: "set_halted r (set_dispatch_mode m v) = set_dispatch_mode m (set_halted r v)"
    "vm_state (set_dispatch_mode m v) = vm_state v" for r
    by (simp_all add: set_dispatch_mode_def access_defs)
  have e: "exec_label l ops (set_dispatch_mode m v, x) =
      map_sum (with_mode m) (map_prod id (with_mode m)) (exec_label l ops (v, x))" for l ops
    using exec_label_mode [of l ops m "(v, x)"] by (simp add: with_mode_def)
  have w: "with_mode m (u, y) = (set_dispatch_mode m u, y)" for u :: "'a VM" and y
    by (simp add: with_mode_def)
  show ?thesis
    by (simp add: c w goto_step_eq a t f jump_to_def h e)
qed

interpretation other_mode: lockstep goto_step goto_step "\<lambda>c d. d = with_mode m c"
  "\<lambda>r s. s = map_prod id (with_mode m) r" for m
proof unfold_locales
  fix c d :: "'a cfg"
  assume "d = with_mode m c"
  then show "rel_sum (\<lambda>c d. d = with_mode m c) (\<lambda>r s. s = map_prod id (with_mode m) r)
      (goto_step c) (goto_step d)"
    by (cases "goto_step c") (simp_all add: goto_step_mode)
qed

lemma run_goto_mode:
  "run_goto (with_mode m c) = map_option (map_prod id (with_mode m)) (run_goto c)"
  using other_mode.lockstep_run [of "with_mode m c" m c]
  by (auto simp: run_goto_def elim!: option.rel_cases)

text \<open>
  C9: the naive ladder and the computed-goto path of \<open>VM::run\<close> are equivalent: started on the
  same running machine in either mode, both return or neither does, with the same result, the
  same machine (up to the mode itself) and the same effects of the closures.
\<close>

theorem dispatch_modes_agree:
  assumes "halted (vm_state vm) = HALT_RUNNING"
  shows "vm_run (set_dispatch_mode NaiveSwitch vm, w) =
    map_option (\<lambda>(r, vm', w'). (r, set_dispatch_mode NaiveSwitch vm', w'))
      (vm_run (set_dispatch_mode ComputedGoto vm, w))"
proof -
  have modes: "set_dispatch_mode m (set_dispatch_mode m' v) = set_dispatch_mode m v"
    for m m' and v :: "'a VM"
    by (simp add: set_dispatch_mode_def)
  let ?g = "set_dispatch_mode ComputedGoto vm" and ?n = "set_dispatch_mode NaiveSwitch vm"
  have "vm_run (?n, w) = run_naive (?n, w)" "vm_run (?g, w) = run_goto (?g, w)"
    by (simp_all add: vm_run_def set_dispatch_mode_def)
  moreover have "run_naive (?n, w) = run_goto (?n, w)"
    using assms by (intro run_paths_agree) (simp add: set_dispatch_mode_def)
  moreover have "(?n, w) = with_mode NaiveSwitch (?g, w)"
    by (simp add: with_mode_def modes)
  ultimately show ?thesis
    by (simp only: run_goto_mode)
      (simp add: with_mode_def map_prod_def case_prod_unfold id_def)
qed

lemma vm_run_cases:
  assumes "vm_run c = Some q"
  obtains "run_goto c = Some q"
  | "halted (vm_state (fst c)) \<noteq> HALT_RUNNING" "q = (Returned (halted (vm_state (fst c))), c)"
proof (cases "halted (vm_state (fst c)) = HALT_RUNNING")
  case True
  then show thesis
    using assms that(1) run_paths_agree [OF True] by (simp add: vm_run_def split: if_splits)
next
  case False
  then have "run_naive c = Some (Returned (halted (vm_state (fst c))), c)"
    by (simp add: run_naive_def run_loop_stop naive_step_def)
  then show thesis
    using assms that False by (simp add: vm_run_def split: if_splits)
qed

text \<open>
  The example of \<open>dispatch_modes_agree\<close>: \<open>LI R1, 1; DIV R1, R0\<close>, which both modes run to the same
  division trap.
\<close>

theorem dispatch_modes_agree_witness:
  "\<exists>vm'. vm_run (set_dispatch_mode NaiveSwitch (sample_vm div_bin), ()) =
     Some (Returned HALT_DIV_ZERO, vm', ())"
proof -
  have h: "halted (vm_state (sample_vm div_bin)) = HALT_RUNNING"
    by (simp add: sample_vm_eval)
  have "\<exists>vm'. vm_run (set_dispatch_mode ComputedGoto (sample_vm div_bin), ()) =
     Some (Returned HALT_DIV_ZERO, vm', ())"
    apply (simp add: sample_vm_eval vm_run_def run_goto_def)
    apply (simp add: step_eval)
    done
  then show ?thesis
    using dispatch_modes_agree [OF h, of "()"] by auto
qed

text \<open>
  The modes are not equivalent on a machine that is already halted when \<open>run\<close> is called: on
  a fresh machine whose halt tag is \<open>HALT_STEP\<close> the ladder returns that tag without executing
  anything, and the computed-goto path executes an instruction.
\<close>

theorem halted_entry_distinguishes:
  "\<exists>(vm :: unit VM) vm'. halted (vm_state vm) = HALT_STEP
     \<and> vm_run (set_dispatch_mode NaiveSwitch vm, ()) =
         Some (Returned HALT_STEP, set_dispatch_mode NaiveSwitch vm, ())
     \<and> vm_run (set_dispatch_mode ComputedGoto vm, ()) = Some (Returned HALT_NORMAL, vm', ())
     \<and> cycle_count (vm_state vm') = cycle_count (vm_state vm) + 1"
proof (intro exI conjI)
  let ?vm = "request_halt HALT_STEP (sample_vm [])"
  show "halted (vm_state ?vm) = HALT_STEP" by (simp add: request_halt_def)
  show "vm_run (set_dispatch_mode NaiveSwitch ?vm, ()) =
      Some (Returned HALT_STEP, set_dispatch_mode NaiveSwitch ?vm, ())"
    by (simp add: vm_run_def run_naive_def run_loop_stop naive_step_def set_dispatch_mode_def
        request_halt_def const_defs)
  show "vm_run (set_dispatch_mode ComputedGoto ?vm, ()) = Some (Returned HALT_NORMAL,
      set_halted HALT_NORMAL (advance (set_dispatch_mode ComputedGoto ?vm)), ())"
    apply (simp add: sample_vm_eval vm_run_def run_goto_def request_halt_def)
    apply (simp add: step_eval)
    done
qed (simp add: sample_vm_eval access_defs advance_def)

section \<open>The undo log of a whole run\<close>

lemma run_goto_base_off:
  fixes vm vm' :: "'w VM"
  assumes "run_goto (vm, w) = Some (r, vm', w')" and "snap_interval (vm_state vm) = 0"
  shows "base_mem vm' = base_mem vm"
proof -
  let ?I = "\<lambda>c :: 'w cfg. base_mem (fst c) = base_mem vm \<and> snap_interval (vm_state (fst c)) = 0"
  let ?Q = "\<lambda>q :: run_result \<times> 'w cfg. base_mem (fst (snd q)) = base_mem vm"
  have "?Q (r, vm', w')"
    using assms(1) [unfolded run_goto_def]
  proof (rule run_loop_invariant [where I = ?I])
    show "?I (vm, w)" using assms(2) by simp
  next
    fix c d assume "?I c" "goto_step c = Inl d"
    then show "?I d"
      using goto_step_base_off(1) [of "fst c" "snd c" "fst d" "snd d"] by simp
  next
    fix c q assume "?I c" "goto_step c = Inr q"
    then show "?Q q"
      using goto_step_base_off(2) [of "fst c" "snd c" "fst q" "fst (snd q)" "snd (snd q)"] by simp
  qed
  then show ?thesis by simp
qed

text \<open>
  C10: with checkpointing off, the delta log that \<open>STORE\<close> keeps is a complete undo log of a call of
  \<open>run\<close>, however it ends: undoing its entries newest first (with \<open>apply_old_value\<close>, as \<open>back\<close> and
  the rewind benchmarks do) restores every byte of memory, in spite of the run-length folding.
\<close>

theorem run_is_undoable:
  assumes "vm_run (vm, w) = Some (r, vm', w')"
    and "snap_interval (vm_state vm) = 0" and "vm_deltas vm = []"
  shows "undo_deltas (vm_deltas vm') (vm_mem vm') = vm_mem vm"
proof -
  have "base_mem vm' = base_mem vm"
    using assms(1) by (rule vm_run_cases) (simp_all add: run_goto_base_off assms(2))
  with assms(3) show ?thesis by (simp add: base_mem_def)
qed

lemma sample_run_store:
  "\<exists>vm'. vm_run (sample_vm store_bin, ()) = Some (Returned HALT_NORMAL, vm', ())
     \<and> vm_mem vm' 0x100 = 5 \<and> regs (vm_state vm') ! 3 = 5 \<and> length (vm_deltas vm') = 1"
  apply (simp add: sample_vm_eval vm_run_def run_goto_def)
  apply (simp add: step_eval)
  done

theorem run_is_undoable_witness:
  "\<exists>vm'. vm_run (sample_vm store_bin, ()) = Some (Returned HALT_NORMAL, vm', ())
     \<and> vm_mem vm' 0x100 = 5 \<and> undo_deltas (vm_deltas vm') (vm_mem vm') = vm_mem (sample_vm store_bin)"
proof -
  have "snap_interval (vm_state (sample_vm store_bin)) = 0" "vm_deltas (sample_vm store_bin) = []"
    by (simp_all add: sample_vm_eval)
  then show ?thesis
    using sample_run_store run_is_undoable [of "sample_vm store_bin" "()"] by blast
qed

section \<open>What a run leaves alone and what it reads\<close>

text \<open>
  No program changes the installed closures, the dispatch mode, the stack pointer, the number
  of registers, the snapshot interval or anything outside the 1 MiB arena, however it ends.
\<close>

theorem run_frame:
  assumes "vm_run (vm, w) = Some (r, vm', w')"
  shows "vm_io vm' = vm_io vm \<and> vm_sink vm' = vm_sink vm \<and> vm_mode vm' = vm_mode vm
    \<and> sp (vm_state vm') = sp (vm_state vm)
    \<and> length (regs (vm_state vm')) = length (regs (vm_state vm))
    \<and> snap_interval (vm_state vm') = snap_interval (vm_state vm)
    \<and> (\<forall>a. MEM_SIZE \<le> unat a \<longrightarrow> vm_mem vm' a = vm_mem vm a)"
proof -
  have "same_fixed vm vm'"
    using assms by (rule vm_run_cases) (auto dest: run_goto_fixed)
  then show ?thesis by (simp add: same_fixed_def)
qed

theorem run_frame_witness:
  "\<exists>vm'. vm_run (sample_vm store_bin, ()) = Some (Returned HALT_NORMAL, vm', ())
     \<and> vm_mem vm' 0x100 = 5 \<and> vm_mem vm' 0x100000 = vm_mem (sample_vm store_bin) 0x100000"
proof -
  obtain vm' where "vm_run (sample_vm store_bin, ()) = Some (Returned HALT_NORMAL, vm', ())"
    "vm_mem vm' 0x100 = 5"
    using sample_run_store by blast
  with run_frame [OF this(1)] show ?thesis by (simp add: MEM_SIZE_def)
qed

text \<open>
  C26: the masked accesses confine the program to the arena. Two machines that agree on the
  \<open>MEM_SIZE\<close> bytes below the mask, and in everything else, run alike, whatever any other address
  holds: both return or neither does, with the same result and effects and again agreeing.
\<close>

theorem run_reads_arena_only:
  assumes "mem_agree (vm_mem vm) m"
  shows "rel_option (\<lambda>(r, u, x) (s, v, y). r = s \<and> x = y \<and> vm_state u = vm_state v
      \<and> vm_deltas u = vm_deltas v \<and> mem_agree (vm_mem u) (vm_mem v))
    (vm_run (vm, w)) (vm_run (vm\<lparr>vm_mem := m\<rparr>, w))"
proof -
  let ?rel = "rel_option (\<lambda>(r, u, x) (s, v, y). r = s \<and> x = y \<and> vm_state u = vm_state v
      \<and> vm_deltas u = vm_deltas v \<and> mem_agree (vm_mem u) (vm_mem v))"
  let ?c = "(vm, w)" and ?d = "(vm\<lparr>vm_mem := m\<rparr>, w)"
  have "arena_eq_cfg ?c ?d" using assms by (simp add: arena_eq_cfg_def arena_eq_def)
  then have "rel_option (rel_prod (=) arena_eq_cfg) (run_goto ?c) (run_goto ?d)"
    unfolding run_goto_def by (rule arena.lockstep_run)
  then have goto: "?rel (run_goto ?c) (run_goto ?d)"
    by (rule option.rel_mono_strong)
      (auto simp: rel_prod_sel arena_eq_cfg_def arena_eq_def split: prod.splits)
  show ?thesis
  proof (cases "vm_mode vm = NaiveSwitch")
    case mode: True
    show ?thesis
    proof (cases "halted (vm_state vm) = HALT_RUNNING")
      case True
      then show ?thesis
        using goto mode run_paths_agree [of ?c] run_paths_agree [of ?d] by (simp add: vm_run_def)
    next
      case False
      then show ?thesis
        using mode assms by (simp add: vm_run_def run_naive_def run_loop_stop naive_step_def)
    qed
  qed (use goto in \<open>simp add: vm_run_def\<close>)
qed

theorem run_reads_arena_only_witness:
  "\<exists>v. vm_run ((sample_vm store_bin)\<lparr>vm_mem := (vm_mem (sample_vm store_bin))(0x100000 := 9)\<rparr>, ())
     = Some (Returned HALT_NORMAL, v, ()) \<and> regs (vm_state v) ! 3 = 5"
proof -
  let ?m = "(vm_mem (sample_vm store_bin))(0x100000 := 9)"
  have agree: "mem_agree (vm_mem (sample_vm store_bin)) ?m"
    by (simp add: mem_agree_def MEM_SIZE_def)
  show ?thesis
    using run_reads_arena_only [OF agree, of "()"] sample_run_store
    by (fastforce simp: option_rel_Some1 split: prod.splits)
qed

end
