(* ===== verification/Parametric.thy ===== *)
theory Parametric
  imports Invariants
begin

text \<open>
  The machine does not look into its closures: two machines with the same memory, state and delta
  log take the same steps as long as their hooks deliver the same values. These are the facts the
  record / replay, save / restore and debugger proofs compare runs with.
\<close>

definition same_core :: "'a VM \<Rightarrow> 'b VM \<Rightarrow> bool" where
  "same_core u v \<longleftrightarrow> vm_mem u = vm_mem v \<and> vm_state u = vm_state v \<and> vm_deltas u = vm_deltas v"

lemma same_core_refl [simp]: "same_core u u"
  by (simp add: same_core_def)

lemma same_coreD:
  assumes "same_core u v"
  shows "vm_mem u = vm_mem v" "vm_state u = vm_state v" "vm_deltas u = vm_deltas v"
  using assms by (simp_all add: same_core_def)

lemma same_core_upd:
  assumes "same_core u v"
  shows "same_core (set_reg r x u) (set_reg r x v)" "same_core (set_pc p u) (set_pc p v)"
    "same_core (set_flags f u) (set_flags f v)" "same_core (set_halted h u) (set_halted h v)"
    "same_core (advance u) (advance v)"
  using assms by (simp_all add: same_core_def access_defs)

lemma same_core_fetch: "same_core u v \<Longrightarrow> fetch u = fetch v"
  by (simp add: same_core_def fetch_def)

definition is_io :: "label \<Rightarrow> bool" where
  "is_io l \<longleftrightarrow> l = label_IN \<or> l = label_RAND"

text \<open>A handler that calls no hook does the same to both machines and leaves the captured states.\<close>

definition pure_rel :: "'a VM \<Rightarrow> 'a \<Rightarrow> 'b VM \<Rightarrow> 'b \<Rightarrow> 'a cfg \<Rightarrow> 'b cfg \<Rightarrow> bool" where
  "pure_rel u x v y c d \<longleftrightarrow> same_core (fst c) (fst d) \<and> snd c = x \<and> snd d = y
     \<and> vm_io (fst c) = vm_io u \<and> vm_io (fst d) = vm_io v
     \<and> vm_sink (fst c) = vm_sink u \<and> vm_sink (fst d) = vm_sink v
     \<and> vm_mode (fst c) = vm_mode u \<and> vm_mode (fst d) = vm_mode v"

lemma exec_label_pure:
  assumes "\<not> is_io l" and core: "same_core u v"
  shows "rel_sum (pure_rel u x v y) (rel_prod (=) (pure_rel u x v y))
    (exec_label l ops (u, x)) (exec_label l ops (v, y))"
proof -
  obtain dst src imm where ops: "ops = (dst, src, imm)" by (cases ops)
  note c = same_coreD [OF core]
  show ?thesis
    using assms(1)
    by (cases l; simp add: is_io_def ops handler_defs access_defs Let_def pure_rel_def
        same_core_def c)
qed

text \<open>The snapshot timer without a sink.\<close>

lemma snap_tick_no_sink:
  assumes "same_core u v" "vm_sink u = None" "vm_sink v = None"
    and "snap_tick (u, x) = (b, u', x')"
  shows "\<exists>v'. snap_tick (v, y) = (b, v', y) \<and> same_core u' v' \<and> x' = x
    \<and> vm_io v' = vm_io v \<and> vm_sink v' = None \<and> vm_mode v' = vm_mode v"
  using assms
  by (auto simp: same_core_def snap_tick_def make_snapshot_def upd_state_def Let_def
      split: if_splits)

section \<open>Runs that differ only in bookkeeping\<close>

text \<open>
  The part of a machine that the instructions read and write. Two machines that agree on it, with
  hooks that deliver the same values, execute the same instructions, whatever their delta logs,
  snapshot timers, sinks and captured states are. \<open>R\<close> relates the captured states.
\<close>

definition same_arch :: "'a VM \<Rightarrow> 'b VM \<Rightarrow> bool" where
  "same_arch u v \<longleftrightarrow> vm_mem u = vm_mem v \<and> cycle_count (vm_state u) = cycle_count (vm_state v)
     \<and> regs (vm_state u) = regs (vm_state v) \<and> pc (vm_state u) = pc (vm_state v)
     \<and> sp (vm_state u) = sp (vm_state v) \<and> flags (vm_state u) = flags (vm_state v)"

definition hook_rel :: "('a \<Rightarrow> 'b \<Rightarrow> bool) \<Rightarrow> (u64 \<Rightarrow> 'a \<Rightarrow> (TraceMismatch + u32) \<times> 'a) \<Rightarrow>
    (u64 \<Rightarrow> 'b \<Rightarrow> (TraceMismatch + u32) \<times> 'b) \<Rightarrow> bool" where
  "hook_rel R h k \<longleftrightarrow> (\<forall>c x y. R x y \<longrightarrow> fst (h c x) = fst (k c y) \<and> R (snd (h c x)) (snd (k c y)))"

definition io_rel :: "('a \<Rightarrow> 'b \<Rightarrow> bool) \<Rightarrow> 'a IOHooks \<Rightarrow> 'b IOHooks \<Rightarrow> bool" where
  "io_rel R i j \<longleftrightarrow> rel_option (hook_rel R) (io_in i) (io_in j)
     \<and> rel_option (hook_rel R) (io_rand i) (io_rand j)
     \<and> rel_option (\<lambda>f g. \<forall>c p v x y. R x y \<longrightarrow> R (f c p v x) (g c p v y))
         (on_nondeterministic i) (on_nondeterministic j)"

definition arch_cfg :: "('a \<Rightarrow> 'b \<Rightarrow> bool) \<Rightarrow> 'a cfg \<Rightarrow> 'b cfg \<Rightarrow> bool" where
  "arch_cfg R c d \<longleftrightarrow> same_arch (fst c) (fst d) \<and> R (snd c) (snd d)"

lemma observe_rel:
  "io_rel R (vm_io u) (vm_io v) \<Longrightarrow> cycle_count (vm_state u) = cycle_count (vm_state v) \<Longrightarrow> R x y \<Longrightarrow>
     R (observe p k u x) (observe p k v y)"
  by (auto simp: io_rel_def observe_def split: option.splits elim!: option.rel_cases)

lemma set_reg_arch:
  "same_arch u v \<Longrightarrow> same_arch (set_reg r x u) (set_reg r x v)"
  by (simp add: same_arch_def access_defs)

lemma set_reg_io [simp]: "vm_io (set_reg r x u) = vm_io u"
  "cycle_count (vm_state (set_reg r x u)) = cycle_count (vm_state u)"
  by (simp_all add: access_defs)

lemma input_param:
  assumes arch: "same_arch u v" and io: "io_rel R (vm_io u) (vm_io v)" and R: "R x y"
  shows "rel_sum (arch_cfg R) (rel_prod (=) (arch_cfg R)) (do_IN ops (u, x)) (do_IN ops (v, y))"
    and "rel_sum (arch_cfg R) (rel_prod (=) (arch_cfg R)) (do_RAND ops (u, x)) (do_RAND ops (v, y))"
proof -
  obtain dst src imm where ops: "ops = (dst, src, imm)" by (cases ops)
  have cyc: "cycle_count (vm_state v) = cycle_count (vm_state u)" using arch by (simp add: same_arch_def)
  have step: "rel_sum (arch_cfg R) (rel_prod (=) (arch_cfg R))
      (case h (cycle_count (vm_state u)) x of (Inl e, w) \<Rightarrow> Inr (Thrown e, u, w)
        | (Inr k, w) \<Rightarrow> let vm = set_reg dst k u in Inl (vm, observe p k vm w))
      (case h' (cycle_count (vm_state u)) y of (Inl e, w) \<Rightarrow> Inr (Thrown e, v, w)
        | (Inr k, w) \<Rightarrow> let vm = set_reg dst k v in Inl (vm, observe p k vm w))"
    if "hook_rel R h h'" for h h' p
  proof -
    obtain a x' where hx: "h (cycle_count (vm_state u)) x = (a, x')" by fastforce
    obtain b y' where hy: "h' (cycle_count (vm_state u)) y = (b, y')" by fastforce
    have "a = b" "R x' y'" using that R hx hy unfolding hook_rel_def by (metis fst_conv, metis snd_conv)
    moreover have "R (observe p k (set_reg dst k u) x') (observe p k (set_reg dst k v) y')" for k
      by (rule observe_rel) (simp_all add: io cyc \<open>R x' y'\<close>)
    ultimately show ?thesis
      using hx hy arch set_reg_arch [OF arch]
      by (cases b) (simp_all add: arch_cfg_def Let_def)
  qed
  have ins: "rel_option (hook_rel R) (io_in (vm_io u)) (io_in (vm_io v))"
    "rel_option (hook_rel R) (io_rand (vm_io u)) (io_rand (vm_io v))"
    using io by (simp_all add: io_rel_def)
  have same: "arch_cfg R (u, x) (v, y)" using arch R by (simp add: arch_cfg_def)
  from ins(1) show "rel_sum (arch_cfg R) (rel_prod (=) (arch_cfg R)) (do_IN ops (u, x)) (do_IN ops (v, y))"
    by cases (use same step [of _ _ OP_IN] in \<open>simp_all add: do_IN_def ops cyc\<close>)
  from ins(2) show "rel_sum (arch_cfg R) (rel_prod (=) (arch_cfg R)) (do_RAND ops (u, x)) (do_RAND ops (v, y))"
    by cases (use same step [of _ _ OP_RAND] in \<open>simp_all add: do_RAND_def ops cyc\<close>)
qed

lemma exec_label_param:
  assumes arch: "same_arch u v" and io: "io_rel R (vm_io u) (vm_io v)" and R: "R x y"
  shows "rel_sum (arch_cfg R) (rel_prod (=) (arch_cfg R)) (exec_label l ops (u, x)) (exec_label l ops (v, y))"
proof (cases "is_io l")
  case True
  with input_param [OF assms, of ops] show ?thesis
    by (auto simp only: is_io_def exec_label.simps)
next
  case False
  obtain dst src imm where ops: "ops = (dst, src, imm)" by (cases ops)
  from False show ?thesis
    using arch R
    by (cases l; simp add: is_io_def ops handler_defs access_defs Let_def arch_cfg_def same_arch_def)
qed

lemma same_arch_fetch: "same_arch u v \<Longrightarrow> fetch u = fetch v"
  by (simp add: same_arch_def fetch_def)

lemma same_arch_advance: "same_arch u v \<Longrightarrow> same_arch (advance u) (advance v)"
  by (simp add: same_arch_def)

lemma same_arch_trans: "same_arch u v \<Longrightarrow> same_arch v x \<Longrightarrow> same_arch u x"
  by (simp add: same_arch_def)

lemma same_arch_sym: "same_arch u v \<Longrightarrow> same_arch v u"
  by (simp add: same_arch_def)

lemma snap_tick_arch: "snap_tick (u, x) = (b, u', x') \<Longrightarrow> same_arch u' u"
  using snap_tick_frame [of u x b u' x'] by (simp add: same_arch_def)

lemma set_halted_arch: "same_arch u v \<Longrightarrow> same_arch (set_halted h u) (set_halted h v)"
  by (simp add: same_arch_def access_defs)

text \<open>After the tick, the two loops do the same.\<close>

lemma jump_param:
  assumes "same_arch u v" "io_rel R (vm_io u) (vm_io v)" "R x y"
  shows "rel_sum (arch_cfg R) (rel_prod (=) (arch_cfg R)) (jump_to i (u, x)) (jump_to i (v, y))"
  using exec_label_param [OF assms] assms
  by (simp add: jump_to_def) (simp add: arch_cfg_def set_halted_arch)

section \<open>Runs without a sink\<close>

text \<open>A running machine without a sink executes to a halt of the program, whatever its timer does.\<close>

definition quiet :: "'w VM \<Rightarrow> bool" where
  "quiet vm \<longleftrightarrow> vm_sink vm = None \<and> halted (vm_state vm) = HALT_RUNNING"

lemma quiet_tick:
  assumes "quiet u" "snap_tick (advance u, x) = (b, u', x')"
  shows "\<not> b" "x' = x" "quiet u'" "vm_io u' = vm_io u" "same_arch u' (advance u)"
proof -
  show "\<not> b" "x' = x"
    using assms by (auto simp: quiet_def snap_tick_def make_snapshot_def upd_state_def Let_def
        split: if_splits)
  then show "quiet u'" "vm_io u' = vm_io u" "same_arch u' (advance u)"
    using assms snap_tick_frame(2,3) [OF assms(2)] snap_tick_running [of "advance u" x u' x']
      snap_tick_arch [OF assms(2)]
    by (auto simp: quiet_def)
qed

lemma quiet_step:
  assumes "quiet u" "goto_step (u, x) = Inl c"
  shows "quiet (fst c)" "vm_io (fst c) = vm_io u"
  using goto_step_fixed [OF assms(2)] goto_step_running [OF assms(2)] assms(1)
  by (simp_all add: quiet_def same_fixed_def)

definition quiet_rel :: "('a \<Rightarrow> 'b \<Rightarrow> bool) \<Rightarrow> 'a cfg \<Rightarrow> 'b cfg \<Rightarrow> bool" where
  "quiet_rel R c d \<longleftrightarrow> arch_cfg R c d \<and> quiet (fst c) \<and> quiet (fst d)
     \<and> io_rel R (vm_io (fst c)) (vm_io (fst d))"

lemma quiet_goto_step:
  assumes "quiet_rel R c d"
  shows "rel_sum (arch_cfg R) (rel_prod (=) (arch_cfg R)) (goto_step c) (goto_step d)"
proof -
  obtain u x v y where c: "c = (u, x)" and d: "d = (v, y)" by (cases c; cases d)
  from assms have q: "quiet u" "quiet v" and arch: "same_arch u v" and R: "R x y"
    and io: "io_rel R (vm_io u) (vm_io v)"
    by (simp_all add: c d quiet_rel_def arch_cfg_def)
  obtain a u' x' where tu: "snap_tick (advance u, x) = (a, u', x')" by (metis prod_cases3)
  obtain b v' y' where tv: "snap_tick (advance v, y) = (b, v', y')" by (metis prod_cases3)
  note qu = quiet_tick [OF q(1) tu] and qv = quiet_tick [OF q(2) tv]
  have "same_arch u' v'"
    using qu(5) qv(5) same_arch_advance [OF arch] by (blast intro: same_arch_trans same_arch_sym)
  from jump_param [OF this, of R x y "fetch u"] io R
  have j: "rel_sum (arch_cfg R) (rel_prod (=) (arch_cfg R)) (jump_to (fetch u) (u', x)) (jump_to (fetch u) (v', y))"
    by (simp add: qu qv)
  have f: "fetch v = fetch u" using same_arch_fetch [OF arch] by simp
  show ?thesis
    using j by (simp add: c d goto_step_eq tu tv qu(1,2) qv(1,2) f)
qed

interpretation quiet_runs: lockstep goto_step goto_step "quiet_rel R" "rel_prod (=) (arch_cfg R)" for R
proof unfold_locales
  fix c :: "'a cfg" and d :: "'b cfg"
  assume rel: "quiet_rel R c d"
  from quiet_goto_step [OF rel]
  show "rel_sum (quiet_rel R) (rel_prod (=) (arch_cfg R)) (goto_step c) (goto_step d)"
  proof cases
    case (1 c' d')
    then show ?thesis
      using rel quiet_step [of "fst c" "snd c" c'] quiet_step [of "fst d" "snd d" d']
      by (simp add: quiet_rel_def)
  next
    case (2 r s)
    then show ?thesis by simp
  qed
qed

end
