(* ===== verification/Isa.thy ===== *)
theory Isa
  imports Runs Parametric
begin

text \<open>
  The instruction set as documented: a transition system on natural numbers, with the modular
  arithmetic and the flag rules written out, labelled with the inputs that the program receives.
  The dispatch loop of \<open>src/vm.cpp\<close> refines it.
\<close>

section \<open>Instructions\<close>

datatype instr = Halt | Load nat nat | Store nat nat | Add nat nat | Sub nat nat | Mul nat nat
  | Div nat nat | Jump nat | Jnz nat nat | In nat | Rand nat | Li nat nat | Undefined nat

text \<open>The fields of an instruction word, as numbers.\<close>

definition isa_decode :: "nat \<Rightarrow> instr" where
  "isa_decode i = (
     let op = i div 2 ^ 26; d = i div 2 ^ 23 mod 8; s = i div 2 ^ 20 mod 8; a = i mod 2 ^ 20 in
     if op < 12
     then [Halt, Load d a, Store d a, Add d s, Sub d s, Mul d s, Div d s, Jump a, Jnz d a, In d,
           Rand d, Li d a] ! op
     else Undefined op)"

section \<open>Architectural state\<close>

record arch =
  a_cycle :: nat
  a_reg :: "nat \<Rightarrow> nat"
  a_pc :: nat
  a_zf :: bool
  a_cf :: bool
  a_sf :: bool
  a_mem :: "nat \<Rightarrow> nat"

definition a_load32 :: "(nat \<Rightarrow> nat) \<Rightarrow> nat \<Rightarrow> nat" where
  "a_load32 m a = m (a mod 2 ^ 20) + m ((a + 1) mod 2 ^ 20) * 256
     + m ((a + 2) mod 2 ^ 20) * 65536 + m ((a + 3) mod 2 ^ 20) * 16777216"

definition a_store32 :: "(nat \<Rightarrow> nat) \<Rightarrow> nat \<Rightarrow> nat \<Rightarrow> nat \<Rightarrow> nat" where
  "a_store32 m a v = m(a mod 2 ^ 20 := v mod 256, (a + 1) mod 2 ^ 20 := v div 256 mod 256,
     (a + 2) mod 2 ^ 20 := v div 65536 mod 256, (a + 3) mod 2 ^ 20 := v div 16777216 mod 256)"

definition a_instr :: "arch \<Rightarrow> instr" where
  "a_instr s = isa_decode (a_load32 (a_mem s) (a_pc s))"

text \<open>The program counter and the cycle count after a fetch.\<close>

definition a_next :: "arch \<Rightarrow> arch" where
  "a_next s = s\<lparr>a_pc := (a_pc s + 4) mod 2 ^ 32, a_cycle := (a_cycle s + 1) mod 2 ^ 64\<rparr>"

text \<open>An ALU result: the exact value \<open>v\<close> is stored modulo \<open>2 ^ 32\<close>.\<close>

definition a_alu :: "nat \<Rightarrow> int \<Rightarrow> bool \<Rightarrow> arch \<Rightarrow> arch" where
  "a_alu d v carry s = (
     let r = nat (v mod 2 ^ 32) in
     s\<lparr>a_reg := (a_reg s)(d := r), a_zf := r = 0, a_cf := carry, a_sf := 2 ^ 31 \<le> r\<rparr>)"

definition a_set :: "nat \<Rightarrow> nat \<Rightarrow> arch \<Rightarrow> arch" where
  "a_set d v s = s\<lparr>a_reg := (a_reg s)(d := v)\<rparr>"

section \<open>Transitions\<close>

datatype event = Silent | Input nat nat

inductive isa_step :: "event \<Rightarrow> arch \<Rightarrow> arch \<Rightarrow> bool" where
  step_load: "a_instr s = Load d a \<Longrightarrow>
    isa_step Silent s (a_set d (a_load32 (a_mem s) a) (a_next s))"
| step_store: "a_instr s = Store d a \<Longrightarrow>
    isa_step Silent s ((a_next s)\<lparr>a_mem := a_store32 (a_mem s) a (a_reg s d)\<rparr>)"
| step_add: "a_instr s = Add d r \<Longrightarrow> v = int (a_reg s d) + int (a_reg s r) \<Longrightarrow>
    isa_step Silent s (a_alu d v (2 ^ 32 \<le> v) (a_next s))"
| step_sub: "a_instr s = Sub d r \<Longrightarrow> v = int (a_reg s d) - int (a_reg s r) \<Longrightarrow>
    isa_step Silent s (a_alu d v (v < 0) (a_next s))"
| step_mul: "a_instr s = Mul d r \<Longrightarrow> v = int (a_reg s d) * int (a_reg s r) \<Longrightarrow>
    isa_step Silent s (a_alu d v (2 ^ 32 \<le> v) (a_next s))"
| step_div: "a_instr s = Div d r \<Longrightarrow> a_reg s r \<noteq> 0 \<Longrightarrow>
    isa_step Silent s (a_alu d (int (a_reg s d div a_reg s r)) False (a_next s))"
| step_jump: "a_instr s = Jump a \<Longrightarrow> isa_step Silent s ((a_next s)\<lparr>a_pc := a\<rparr>)"
| step_jnz_taken: "a_instr s = Jnz d a \<Longrightarrow> a_reg s d \<noteq> 0 \<Longrightarrow>
    isa_step Silent s ((a_next s)\<lparr>a_pc := a\<rparr>)"
| step_jnz_skip: "a_instr s = Jnz d a \<Longrightarrow> a_reg s d = 0 \<Longrightarrow> isa_step Silent s (a_next s)"
| step_li: "a_instr s = Li d a \<Longrightarrow> isa_step Silent s (a_set d a (a_next s))"
| step_in: "a_instr s = In d \<Longrightarrow> v < 2 ^ 32 \<Longrightarrow> isa_step (Input 9 v) s (a_set d v (a_next s))"
| step_rand: "a_instr s = Rand d \<Longrightarrow> v < 2 ^ 32 \<Longrightarrow>
    isa_step (Input 10 v) s (a_set d v (a_next s))"

text \<open>How the machine stops by itself: the reason and the final state.\<close>

inductive isa_halt :: "nat \<Rightarrow> arch \<Rightarrow> arch \<Rightarrow> bool" where
  halt_normal: "a_instr s = Halt \<Longrightarrow> isa_halt 1 s (a_next s)"
| halt_div_zero: "a_instr s = Div d r \<Longrightarrow> a_reg s r = 0 \<Longrightarrow>
    isa_halt 2 s ((a_next s)\<lparr>a_pc := a_pc s\<rparr>)"
| halt_unknown: "a_instr s = Undefined n \<Longrightarrow> isa_halt 3 s (a_next s)"

inductive isa_run :: "event list \<Rightarrow> arch \<Rightarrow> arch \<Rightarrow> bool" where
  run_refl: "isa_run [] s s"
| run_silent: "isa_step Silent s t \<Longrightarrow> isa_run es t u \<Longrightarrow> isa_run es s u"
| run_input: "isa_step (Input op v) s t \<Longrightarrow> isa_run es t u \<Longrightarrow> isa_run (Input op v # es) s u"

inductive_cases isa_stepE: "isa_step e s t"
inductive_cases isa_haltE: "isa_halt r s t"

section \<open>The abstraction\<close>

definition abs_mem :: "mem \<Rightarrow> nat \<Rightarrow> nat" where
  "abs_mem m a = (if a < 2 ^ 20 then unat (m (word_of_nat a)) else 0)"

definition abs_arch :: "mem \<Rightarrow> VMState \<Rightarrow> arch" where
  "abs_arch m s = \<lparr>a_cycle = unat (cycle_count s), a_reg = (\<lambda>r. unat (regs s ! r)),
     a_pc = unat (pc s), a_zf = bit (flags s) 0, a_cf = bit (flags s) 1, a_sf = bit (flags s) 2,
     a_mem = abs_mem m\<rparr>"

abbreviation abs_vm :: "'w VM \<Rightarrow> arch" where
  "abs_vm vm \<equiv> abs_arch (vm_mem vm) (vm_state vm)"

section \<open>Words as numbers\<close>

lemma unat_masked: "unat (x AND MEM_MASK) = unat x mod 2 ^ 20"
proof -
  have "x AND MEM_MASK = take_bit 20 x"
    by (simp only: MEM_MASK_def mask_literals take_bit_eq_mask)
  then have "unat (x AND MEM_MASK) = take_bit 20 (unat x)"
    by (simp only: unsigned_take_bit_eq)
  then show ?thesis by (simp only: take_bit_eq_mod)
qed

lemma mod_mod_2_32: "(n mod 2 ^ 32) mod 2 ^ 20 = n mod (2 ^ 20 :: nat)"
  by (rule mod_mod_cancel) (rule le_imp_power_dvd, simp)

lemma unat_masked_add: "unat ((a + word_of_nat i) AND MEM_MASK) = (unat a + i) mod 2 ^ 20"
proof -
  have "unat (a + word_of_nat i) = (unat a + i) mod 2 ^ 32"
    by (simp add: unat_word_ariths(1) unat_of_nat mod_add_right_eq)
  then show ?thesis by (simp only: unat_masked mod_mod_2_32)
qed

lemma masked_of_nat: "word_of_nat ((unat a + i) mod 2 ^ 20) = (a + word_of_nat i) AND MEM_MASK"
  by (simp only: unat_masked_add [symmetric] of_nat_unat ucast_id)

lemma masked_of_nat_steps:
  "word_of_nat (unat a mod 2 ^ 20) = a AND MEM_MASK"
  "word_of_nat ((unat a + 1) mod 2 ^ 20) = (a + 1) AND MEM_MASK"
  "word_of_nat ((unat a + 2) mod 2 ^ 20) = (a + 2) AND MEM_MASK"
  "word_of_nat ((unat a + 3) mod 2 ^ 20) = (a + 3) AND MEM_MASK"
  using masked_of_nat [of a 0] masked_of_nat [of a 1] masked_of_nat [of a 2] masked_of_nat [of a 3]
  by simp_all

text \<open>A word read from memory is the sum of its bytes at their weights.\<close>

lemma unat_joined:
  fixes b0 b1 b2 b3 :: u8
  shows "unat (ucast b0 OR push_bit 8 (ucast b1) OR push_bit 16 (ucast b2)
    OR push_bit 24 (ucast b3) :: u32) = unat b0 + unat b1 * 256 + unat b2 * 65536 + unat b3 * 16777216"
proof -
  have b: "unat b0 < 256" "unat b1 < 256" "unat b2 < 256" "unat b3 < 256"
    using unsigned_less [of b0] unsigned_less [of b1] unsigned_less [of b2] unsigned_less [of b3]
    by simp_all
  have p: "unat (push_bit n (ucast b) :: u32) = push_bit n (unat b)" if "n \<le> 24" for n and b :: u8
  proof -
    have "push_bit n (unat b) < 2 ^ 32"
    proof -
      have "push_bit n (unat b) < 2 ^ 8 * 2 ^ n"
        using unsigned_less [of b] by (simp add: push_bit_eq_mult)
      also have "\<dots> \<le> 2 ^ 8 * 2 ^ 24"
        using that by (intro mult_le_mono power_increasing) simp_all
      finally show ?thesis by simp
    qed
    moreover have "unat b < 2 ^ 8" using unsigned_less [of b] by simp
    then have "take_bit 32 (unat b) = unat b" by (simp add: take_bit_nat_eq_self)
    ultimately show ?thesis
      by (simp add: unsigned_push_bit_eq unsigned_ucast_eq take_bit_nat_eq_self)
  qed
  have "unat (ucast b0 OR push_bit 8 (ucast b1) OR push_bit 16 (ucast b2)
      OR push_bit 24 (ucast b3) :: u32)
    = ((unat b0 OR push_bit 8 (unat b1)) OR push_bit 16 (unat b2)) OR push_bit 24 (unat b3)"
    using b by (simp add: unsigned_or_eq p unsigned_ucast_eq take_bit_nat_eq_self or.assoc)
  also have "\<dots> = unat b0 + unat b1 * 256 + unat b2 * 65536 + unat b3 * 16777216"
    using b by (simp add: nat_or_push_bit)
  finally show ?thesis .
qed

section \<open>Memory and decoding\<close>

lemma abs_mem_mod: "abs_mem m (n mod 2 ^ 20) = unat (m (word_of_nat (n mod 2 ^ 20)))"
  by (simp add: abs_mem_def)

lemma abs_load: "unat (mem_load_u32 m a) = a_load32 (abs_mem m) (unat a)"
  unfolding mem_load_u32_def Let_def unat_joined a_load32_def abs_mem_mod masked_of_nat_steps
    masked_add ..

lemma arena_word_eq_iff:
  assumes "n < 2 ^ 20"
  shows "word_of_nat n = x AND MEM_MASK \<longleftrightarrow> n = unat x mod 2 ^ 20"
proof
  assume "word_of_nat n = x AND MEM_MASK"
  then have "unat (word_of_nat n :: u32) = unat x mod 2 ^ 20" by (simp only: unat_masked)
  with assms show "n = unat x mod 2 ^ 20" by (simp add: unat_of_nat)
next
  assume "n = unat x mod 2 ^ 20"
  then show "word_of_nat n = x AND MEM_MASK" by (simp only: masked_of_nat_steps(1))
qed

lemma abs_mem_upd:
  "abs_mem (m((x + word_of_nat i) AND MEM_MASK := b))
     = (abs_mem m)((unat x + i) mod 2 ^ 20 := unat b)"
proof
  fix n
  have e: "(unat x + i) mod 2 ^ 20 = unat ((x + word_of_nat i) AND MEM_MASK)"
    by (simp only: unat_masked_add)
  have "n < 2 ^ 20 \<Longrightarrow> word_of_nat n = (x + word_of_nat i) AND MEM_MASK
      \<longleftrightarrow> n = (unat x + i) mod 2 ^ 20"
    by (simp only: arena_word_eq_iff e unat_masked)
  then show "abs_mem (m((x + word_of_nat i) AND MEM_MASK := b)) n
      = ((abs_mem m)((unat x + i) mod 2 ^ 20 := unat b)) n"
    by (auto simp: abs_mem_def)
qed

lemma abs_mem_upds:
  "abs_mem (m(a AND MEM_MASK := b)) = (abs_mem m)(unat a mod 2 ^ 20 := unat b)"
  "abs_mem (m((a + 1) AND MEM_MASK := b)) = (abs_mem m)((unat a + 1) mod 2 ^ 20 := unat b)"
  "abs_mem (m((a + 2) AND MEM_MASK := b)) = (abs_mem m)((unat a + 2) mod 2 ^ 20 := unat b)"
  "abs_mem (m((a + 3) AND MEM_MASK := b)) = (abs_mem m)((unat a + 3) mod 2 ^ 20 := unat b)"
  using abs_mem_upd [of m a 0 b] abs_mem_upd [of m a 1 b] abs_mem_upd [of m a 2 b]
    abs_mem_upd [of m a 3 b] by simp_all

lemma unat_bytes:
  fixes v :: u32
  shows "unat (ucast v :: u8) = unat v mod 256"
    "unat (ucast (drop_bit 8 v) :: u8) = unat v div 256 mod 256"
    "unat (ucast (drop_bit 16 v) :: u8) = unat v div 65536 mod 256"
    "unat (ucast (drop_bit 24 v) :: u8) = unat v div 16777216 mod 256"
  by (simp_all only: unat_narrow unat_drop_bit) simp_all

lemma abs_store:
  "abs_mem (mem_store_u32 m a v) = a_store32 (abs_mem m) (unat a) (unat v)"
  unfolding mem_store_u32_def Let_def masked_add mask_idem a_store32_def
  by (simp only: abs_mem_upds(4) unat_bytes(4), simp only: abs_mem_upds(3) unat_bytes(3),
      simp only: abs_mem_upds(2) unat_bytes(2), simp only: abs_mem_upds(1) unat_bytes(1))

lemma unat_fields:
  "unat (decode_op i) = unat i div 2 ^ 26" "unat (decode_dst i) = unat i div 2 ^ 23 mod 8"
  "unat (decode_src i) = unat i div 2 ^ 20 mod 8" "unat (decode_imm i) = unat i mod 2 ^ 20"
proof -
  have "unat i < 2 ^ 32" using unsigned_less [of i] by simp
  then have "unat i div 2 ^ 26 < 2 ^ 6" by (simp add: less_mult_imp_div_less)
  then show "unat (decode_op i) = unat i div 2 ^ 26"
    unfolding decode_op_def mask_literals unat_and_mask unat_drop_bit by (rule mod_less)
qed (simp_all only: decode_dst_def decode_src_def decode_imm_def mask_literals unat_and_mask
      unat_drop_bit, simp_all)

lemma isa_decode_word:
  "isa_decode (unat i) = (
     let d = unat (decode_dst i); s = unat (decode_src i); a = unat (decode_imm i) in
     if unat (decode_op i) < 12
     then [Halt, Load d a, Store d a, Add d s, Sub d s, Mul d s, Div d s, Jump a, Jnz d a, In d,
           Rand d, Li d a] ! unat (decode_op i)
     else Undefined (unat (decode_op i)))"
  by (simp only: isa_decode_def unat_fields Let_def)

text \<open>The instruction that the loop fetches.\<close>

lemma abs_instr: "a_instr (abs_vm vm) = isa_decode (unat (fetch vm))"
  by (simp add: a_instr_def abs_arch_def fetch_def abs_load)

text \<open>Advancing, and the parts of a step that the abstraction does not see.\<close>

lemma abs_advance: "abs_vm (advance vm) = a_next (abs_vm vm)"
  by (simp add: abs_arch_def a_next_def unat_word_ariths)

lemma abs_tick:
  "snap_tick (vm, w) = (b, vm', w') \<Longrightarrow> abs_vm vm' = abs_vm vm"
  using snap_tick_frame [of vm w b vm' w'] by (simp add: abs_arch_def)


section \<open>The arithmetic\<close>

lemma sign_bit: "r AND 0x80000000 \<noteq> 0 \<longleftrightarrow> 2 ^ 31 \<le> unat r" for r :: u32
proof -
  have "r AND 2 ^ 31 = 0 \<longleftrightarrow> \<not> bit r 31" by (rule and_exp_eq_0_iff_not_bit)
  moreover have "bit r 31 \<longleftrightarrow> bit (unat r) 31" by (simp add: bit_unsigned_iff)
  moreover have "bit (unat r) 31 \<longleftrightarrow> odd (unat r div 2 ^ 31)" by (rule bit_iff_odd)
  moreover have "unat r < 2 ^ 32" using unsigned_less [of r] by simp
  then have "odd (unat r div 2 ^ 31) \<longleftrightarrow> 2 ^ 31 \<le> unat r"
    by (cases "unat r < 2 ^ 31") (simp_all add: le_div_geq)
  ultimately show ?thesis by simp
qed

lemma add_carry: "a + b < a \<longleftrightarrow> 2 ^ 32 \<le> uint a + uint b" for a b :: u32
proof -
  have b: "uint a < 2 ^ 32" "uint b < 2 ^ 32" "0 \<le> uint a" "0 \<le> uint b"
    using uint_lt2p [of a] uint_lt2p [of b] by simp_all
  have "uint (a + b) = (uint a + uint b) mod 2 ^ 32" by (simp add: uint_word_ariths)
  moreover have "uint a + uint b < 2 ^ 32 \<Longrightarrow> (uint a + uint b) mod 2 ^ 32 = uint a + uint b"
    using b by (intro mod_pos_pos_trivial) simp_all
  moreover have "(uint a + uint b) mod 2 ^ 32 = uint a + uint b - 2 ^ 32" if "2 ^ 32 \<le> uint a + uint b"
  proof -
    have "(uint a + uint b) mod 2 ^ 32 = (uint a + uint b - 2 ^ 32) mod 2 ^ 32" by simp
    also have "\<dots> = uint a + uint b - 2 ^ 32"
      using b that by (intro mod_pos_pos_trivial) simp_all
    finally show ?thesis .
  qed
  ultimately show ?thesis
    using b by (cases "uint a + uint b < 2 ^ 32") (simp_all add: word_less_def)
qed

lemma wide_mul:
  fixes a b :: u32
  defines "p \<equiv> (ucast a :: u64) * ucast b"
  shows "uint p = uint a * uint b" "uint (ucast p :: u32) = (uint a * uint b) mod 2 ^ 32"
    "p > 0xFFFFFFFF \<longleftrightarrow> 2 ^ 32 \<le> uint a * uint b"
proof -
  have b: "uint a < 2 ^ 32" "uint b < 2 ^ 32" "0 \<le> uint a" "0 \<le> uint b"
    using uint_lt2p [of a] uint_lt2p [of b] by simp_all
  then have "uint a * uint b < 2 ^ 32 * 2 ^ 32" by (intro mult_strict_mono) simp_all
  then show p: "uint p = uint a * uint b"
    unfolding p_def using b by (simp add: uint_word_ariths unsigned_ucast_eq take_bit_eq_mod)
  show "uint (ucast p :: u32) = (uint a * uint b) mod 2 ^ 32"
    using p by (simp add: unsigned_ucast_eq take_bit_eq_mod)
  show "p > 0xFFFFFFFF \<longleftrightarrow> 2 ^ 32 \<le> uint a * uint b"
    by (simp add: word_less_def p) linarith
qed

lemma a_alu_word:
  fixes r :: u32
  assumes "uint r = v mod 2 ^ 32"
  shows "a_alu d v c s = s\<lparr>a_reg := (a_reg s)(d := unat r), a_zf := r = 0, a_cf := c,
     a_sf := r AND 0x80000000 \<noteq> 0\<rparr>"
proof -
  have "nat (v mod 2 ^ 32) = unat r" by (simp only: assms [symmetric] unat_eq_nat_uint)
  with sign_bit [of r] show ?thesis by (simp add: a_alu_def Let_def unat_eq_0)
qed


text \<open>Register and flag updates through the abstraction.\<close>

definition well_formed :: "'w VM \<Rightarrow> bool" where
  "well_formed vm \<longleftrightarrow> length (regs (vm_state vm)) = 8"

lemma abs_regs_upd:
  "r < length xs \<Longrightarrow> (\<lambda>i. unat ((xs[r := v]) ! i)) = (\<lambda>i. unat (xs ! i))(r := unat v)"
  by (auto simp: nth_list_update)

lemma abs_set_reg:
  "well_formed vm \<Longrightarrow> unat d < 8 \<Longrightarrow> abs_vm (set_reg d v vm) = a_set (unat d) (unat v) (abs_vm vm)"
  by (simp add: well_formed_def abs_arch_def access_defs a_set_def abs_regs_upd)

lemma abs_set_pc: "abs_vm (set_pc p vm) = (abs_vm vm)\<lparr>a_pc := unat p\<rparr>"
  by (simp add: abs_arch_def access_defs)

lemma abs_set_halted: "abs_vm (set_halted h vm) = abs_vm vm"
  by (simp add: abs_arch_def access_defs)

lemma flag_bits:
  "bit FLAG_ZF 0" "\<not> bit FLAG_ZF (Suc 0)" "\<not> bit FLAG_ZF 2"
  "bit FLAG_CF (Suc 0)" "\<not> bit FLAG_CF 0" "\<not> bit FLAG_CF 2"
  "bit FLAG_SF 2" "\<not> bit FLAG_SF 0" "\<not> bit FLAG_SF (Suc 0)"
  by (simp_all add: FLAG_ZF_def FLAG_CF_def FLAG_SF_def bit_simps)

lemma abs_alu_result:
  assumes "well_formed vm" "unat d < 8" "uint r = v mod 2 ^ 32"
  shows "abs_vm (set_flags ((if r AND 0x80000000 \<noteq> 0 then FLAG_SF else 0) OR
      ((if c then FLAG_CF else 0) OR (if r = 0 then FLAG_ZF else 0))) (set_reg d r vm)) =
    a_alu (unat d) v c (abs_vm vm)"
  using assms
  by (auto simp: a_alu_word well_formed_def abs_arch_def access_defs abs_regs_upd bit_or_iff
      flag_bits)

lemma flag_steps:
  "(if r AND 0x80000000 \<noteq> 0 then (if c then (if r = 0 then 0 OR FLAG_ZF else 0) OR FLAG_CF
        else (if r = 0 then 0 OR FLAG_ZF else 0)) OR FLAG_SF
      else (if c then (if r = 0 then 0 OR FLAG_ZF else 0) OR FLAG_CF
        else (if r = 0 then 0 OR FLAG_ZF else 0))) =
    ((if r AND 0x80000000 \<noteq> 0 then FLAG_SF else 0) OR
      ((if c then FLAG_CF else 0) OR (if r = 0 then FLAG_ZF else 0)))" for r :: u32
  by (auto simp: or.commute or.left_commute)

lemma abs_ADD:
  assumes "well_formed vm" "unat dst < 8"
  shows "\<exists>vm'. do_ADD (dst, src, imm) (vm, w) = Inl (vm', w) \<and> abs_vm vm' =
    (let v = uint (get_reg dst vm) + uint (get_reg src vm)
     in a_alu (unat dst) v (2 ^ 32 \<le> v) (abs_vm vm))"
  using abs_alu_result [OF assms, of "get_reg dst vm + get_reg src vm"
      "uint (get_reg dst vm) + uint (get_reg src vm)"]
  by (simp add: do_ADD_def Let_def flag_steps add_carry uint_word_ariths)

lemma abs_SUB:
  assumes "well_formed vm" "unat dst < 8"
  shows "\<exists>vm'. do_SUB (dst, src, imm) (vm, w) = Inl (vm', w) \<and> abs_vm vm' =
    (let v = uint (get_reg dst vm) - uint (get_reg src vm)
     in a_alu (unat dst) v (v < 0) (abs_vm vm))"
  using abs_alu_result [OF assms, of "get_reg dst vm - get_reg src vm"
      "uint (get_reg dst vm) - uint (get_reg src vm)"]
  by (simp add: do_SUB_def Let_def flag_steps word_less_def uint_word_ariths)

lemma abs_MUL:
  assumes "well_formed vm" "unat dst < 8"
  shows "\<exists>vm'. do_MUL (dst, src, imm) (vm, w) = Inl (vm', w) \<and> abs_vm vm' =
    (let v = uint (get_reg dst vm) * uint (get_reg src vm)
     in a_alu (unat dst) v (2 ^ 32 \<le> v) (abs_vm vm))"
  using abs_alu_result [OF assms wide_mul(2), of "get_reg dst vm" "get_reg src vm"]
  by (simp only: do_MUL_def Let_def flag_steps wide_mul(3) prod.case) simp

lemma div_flags:
  "(if q AND 0x80000000 \<noteq> 0 then (if q = 0 then 0 OR FLAG_ZF else 0) OR FLAG_SF
      else (if q = 0 then 0 OR FLAG_ZF else 0)) =
    ((if q AND 0x80000000 \<noteq> 0 then FLAG_SF else 0) OR
      ((if False then FLAG_CF else 0) OR (if q = 0 then FLAG_ZF else 0)))" for q :: u32
  by (auto simp: or.commute)

lemma abs_DIV:
  assumes "well_formed vm" "unat dst < 8" "get_reg src vm \<noteq> 0"
  shows "\<exists>vm'. do_DIV (dst, src, imm) (vm, w) = Inl (vm', w) \<and> abs_vm vm' =
    a_alu (unat dst) (uint (get_reg dst vm) div uint (get_reg src vm)) False (abs_vm vm)"
proof -
  let ?q = "get_reg dst vm div get_reg src vm"
  have "uint ?q = (uint (get_reg dst vm) div uint (get_reg src vm)) mod 2 ^ 32"
    using uint_lt2p [of ?q] by (simp add: uint_div [symmetric] mod_pos_pos_trivial)
  from abs_alu_result [OF assms(1,2) this, of False] show ?thesis
    using assms(3) by (simp only: do_DIV_def Let_def div_flags prod.case) simp
qed


section \<open>Steps refine\<close>

definition devices_present :: "'w VM \<Rightarrow> bool" where
  "devices_present vm \<longleftrightarrow> io_in (vm_io vm) \<noteq> None \<and> io_rand (vm_io vm) \<noteq> None"

lemma well_formed_tick: "snap_tick (vm, w) = (b, vm', w') \<Longrightarrow> well_formed vm' = well_formed vm"
  using snap_tick_frame(7) [of vm w b vm' w'] by (simp add: well_formed_def)

lemma abs_get_reg: "a_reg (abs_vm vm) (unat r) = unat (get_reg r vm)"
  by (simp add: abs_arch_def get_reg_def)

lemma a_next_reg [simp]:
  "a_reg (a_next s) = a_reg s" "a_mem (a_next s) = a_mem s"
  by (simp_all add: a_next_def)

lemma refine_memory:
  assumes "well_formed v" "unat dst < 8" "abs_vm v = a_next s"
  shows "a_instr s = Load (unat dst) (unat imm) \<Longrightarrow> exec_label label_LOAD (dst, src, imm) (v, w) = Inl (v', w') \<Longrightarrow>
      isa_step Silent s (abs_vm v')"
    and "a_instr s = Store (unat dst) (unat imm) \<Longrightarrow> exec_label label_STORE (dst, src, imm) (v, w) = Inl (v', w') \<Longrightarrow>
      isa_step Silent s (abs_vm v')"
    and "a_instr s = Li (unat dst) (unat imm) \<Longrightarrow> exec_label label_LI (dst, src, imm) (v, w) = Inl (v', w') \<Longrightarrow>
      isa_step Silent s (abs_vm v')"
proof -
  have mem: "a_mem s = abs_mem (vm_mem v)" and reg: "a_reg s (unat dst) = unat (get_reg dst v)"
    using arg_cong [OF assms(3), of a_mem] arg_cong [OF assms(3), of a_reg] abs_get_reg [of v dst]
    by (simp_all add: abs_arch_def)
  show "isa_step Silent s (abs_vm v')"
    if "a_instr s = Load (unat dst) (unat imm)" "exec_label label_LOAD (dst, src, imm) (v, w) = Inl (v', w')"
    using step_load [OF that(1)] that(2) assms
    by (auto simp: do_LOAD_def abs_set_reg abs_load mem)
  show "isa_step Silent s (abs_vm v')"
    if "a_instr s = Store (unat dst) (unat imm)" "exec_label label_STORE (dst, src, imm) (v, w) = Inl (v', w')"
  proof -
    have "abs_vm v' = (abs_vm v)\<lparr>a_mem := a_store32 (a_mem s) (unat imm) (a_reg s (unat dst))\<rparr>"
      using that(2) by (auto simp: do_STORE_def Let_def abs_arch_def abs_store mem reg get_reg_def)
    with step_store [OF that(1)] assms(3) show ?thesis by simp
  qed
  show "isa_step Silent s (abs_vm v')"
    if "a_instr s = Li (unat dst) (unat imm)" "exec_label label_LI (dst, src, imm) (v, w) = Inl (v', w')"
    using step_li [OF that(1)] that(2) assms by (auto simp: do_LI_def abs_set_reg)
qed

lemma refine_alu:
  assumes "well_formed v" "unat dst < 8" "abs_vm v = a_next s"
  shows "a_instr s = Add (unat dst) (unat src) \<Longrightarrow> exec_label label_ADD (dst, src, imm) (v, w) = Inl (v', w') \<Longrightarrow>
      isa_step Silent s (abs_vm v')"
    and "a_instr s = Sub (unat dst) (unat src) \<Longrightarrow> exec_label label_SUB (dst, src, imm) (v, w) = Inl (v', w') \<Longrightarrow>
      isa_step Silent s (abs_vm v')"
    and "a_instr s = Mul (unat dst) (unat src) \<Longrightarrow> exec_label label_MUL (dst, src, imm) (v, w) = Inl (v', w') \<Longrightarrow>
      isa_step Silent s (abs_vm v')"
    and "a_instr s = Div (unat dst) (unat src) \<Longrightarrow> exec_label label_DIV (dst, src, imm) (v, w) = Inl (v', w') \<Longrightarrow>
      isa_step Silent s (abs_vm v')"
proof -
  have reg: "int (a_reg s (unat r)) = uint (get_reg r v)" "a_reg s (unat r) = unat (get_reg r v)" for r
    using abs_get_reg [of v r] assms(3) by simp_all
  note ops = abs_ADD [OF assms(1,2), of src imm w] abs_SUB [OF assms(1,2), of src imm w]
    abs_MUL [OF assms(1,2), of src imm w] abs_DIV [OF assms(1,2), of src imm w]
  show "isa_step Silent s (abs_vm v')"
    if "a_instr s = Add (unat dst) (unat src)" "exec_label label_ADD (dst, src, imm) (v, w) = Inl (v', w')"
    using step_add [OF that(1) refl] ops(1) that(2) assms(3) by (auto simp: reg Let_def)
  show "isa_step Silent s (abs_vm v')"
    if "a_instr s = Sub (unat dst) (unat src)" "exec_label label_SUB (dst, src, imm) (v, w) = Inl (v', w')"
    using step_sub [OF that(1) refl] ops(2) that(2) assms(3) by (auto simp: reg Let_def)
  show "isa_step Silent s (abs_vm v')"
    if "a_instr s = Mul (unat dst) (unat src)" "exec_label label_MUL (dst, src, imm) (v, w) = Inl (v', w')"
    using step_mul [OF that(1) refl] ops(3) that(2) assms(3) by (auto simp: reg Let_def)
  show "isa_step Silent s (abs_vm v')"
    if i: "a_instr s = Div (unat dst) (unat src)"
      and e: "exec_label label_DIV (dst, src, imm) (v, w) = Inl (v', w')"
  proof -
    have nz: "get_reg src v \<noteq> 0" using e by (auto simp: do_DIV_def Let_def split: if_splits)
    have "a_reg s (unat src) \<noteq> 0" using nz by (simp add: reg(2) unat_eq_0)
    from step_div [OF i this] ops(4) [OF nz] e assms(3) show ?thesis
      by (auto simp: reg zdiv_int)
  qed
qed


lemma refine_jump:
  assumes "abs_vm v = a_next s"
  shows "a_instr s = Jump (unat imm) \<Longrightarrow> exec_label label_JUMP (dst, src, imm) (v, w) = Inl (v', w') \<Longrightarrow>
      isa_step Silent s (abs_vm v')"
    and "a_instr s = Jnz (unat dst) (unat imm) \<Longrightarrow> exec_label label_JNZ (dst, src, imm) (v, w) = Inl (v', w') \<Longrightarrow>
      isa_step Silent s (abs_vm v')"
proof -
  have reg: "a_reg s (unat dst) = unat (get_reg dst v)"
    using abs_get_reg [of v dst] assms by simp
  show "isa_step Silent s (abs_vm v')"
    if "a_instr s = Jump (unat imm)" "exec_label label_JUMP (dst, src, imm) (v, w) = Inl (v', w')"
    using step_jump [OF that(1)] that(2) assms by (auto simp: do_JUMP_def abs_set_pc)
  show "isa_step Silent s (abs_vm v')"
    if i: "a_instr s = Jnz (unat dst) (unat imm)" and e: "exec_label label_JNZ (dst, src, imm) (v, w) = Inl (v', w')"
    using step_jnz_taken [OF i] step_jnz_skip [OF i] e assms
    by (auto simp: do_JNZ_def abs_set_pc reg unat_eq_0 split: if_splits)
qed

lemma refine_input:
  assumes "well_formed v" "unat dst < 8" "abs_vm v = a_next s" "devices_present v"
  shows "a_instr s = In (unat dst) \<Longrightarrow> exec_label label_IN (dst, src, imm) (v, w) = Inl (v', w') \<Longrightarrow>
      \<exists>val. isa_step (Input 9 val) s (abs_vm v')"
    and "a_instr s = Rand (unat dst) \<Longrightarrow> exec_label label_RAND (dst, src, imm) (v, w) = Inl (v', w') \<Longrightarrow>
      \<exists>val. isa_step (Input 10 val) s (abs_vm v')"
proof -
  have lt: "unat x < 2 ^ 32" for x :: u32 using unsigned_less [of x] by simp
  show "\<exists>val. isa_step (Input 9 val) s (abs_vm v')"
    if i: "a_instr s = In (unat dst)" and e: "exec_label label_IN (dst, src, imm) (v, w) = Inl (v', w')"
  proof -
    obtain x where "v' = set_reg dst x v"
      using e assms(4) by (auto simp: do_IN_def devices_present_def Let_def split: prod.splits sum.splits)
    with step_in [OF i lt [of x]] assms(1-3) show ?thesis by (auto simp: abs_set_reg)
  qed
  show "\<exists>val. isa_step (Input 10 val) s (abs_vm v')"
    if i: "a_instr s = Rand (unat dst)" and e: "exec_label label_RAND (dst, src, imm) (v, w) = Inl (v', w')"
  proof -
    obtain x where "v' = set_reg dst x v"
      using e assms(4) by (auto simp: do_RAND_def devices_present_def Let_def split: prod.splits sum.splits)
    with step_rand [OF i lt [of x]] assms(1-3) show ?thesis by (auto simp: abs_set_reg)
  qed
qed

text \<open>The instruction that a label executes.\<close>

fun instr_of :: "label \<Rightarrow> nat \<Rightarrow> nat \<Rightarrow> nat \<Rightarrow> instr" where
  "instr_of label_HALT d s a = Halt"
| "instr_of label_LOAD d s a = Load d a"
| "instr_of label_STORE d s a = Store d a"
| "instr_of label_ADD d s a = Add d s"
| "instr_of label_SUB d s a = Sub d s"
| "instr_of label_MUL d s a = Mul d s"
| "instr_of label_DIV d s a = Div d s"
| "instr_of label_JUMP d s a = Jump a"
| "instr_of label_JNZ d s a = Jnz d a"
| "instr_of label_IN d s a = In d"
| "instr_of label_RAND d s a = Rand d"
| "instr_of label_LI d s a = Li d a"

lemma opcode_known: "x < ucast OP_COUNT \<longleftrightarrow> unat x < 12" for x :: u32
  by (simp add: const_defs word_less_nat_alt)

lemma abs_instr_label:
  assumes "decode_op (fetch vm) < ucast OP_COUNT"
  shows "a_instr (abs_vm vm) = instr_of (dispatch_table ! unat (decode_op (fetch vm)))
    (unat (decode_dst (fetch vm))) (unat (decode_src (fetch vm))) (unat (decode_imm (fetch vm)))"
proof -
  have op: "unat (decode_op (fetch vm)) < 12" using assms by (simp only: opcode_known)
  have "[Halt, Load d a, Store d a, Add d s, Sub d s, Mul d s, Div d s, Jump a, Jnz d a, In d,
      Rand d, Li d a] = map (\<lambda>l. instr_of l d s a) dispatch_table" for d s a
    by (simp add: dispatch_table_def)
  moreover have "length dispatch_table = 12" by (simp add: dispatch_table_def)
  ultimately show ?thesis
    using op by (simp add: abs_instr isa_decode_word Let_def)
qed

lemma refine_label:
  assumes wf: "well_formed v" "unat dst < 8" and abs: "abs_vm v = a_next s" and dev: "devices_present v"
    and i: "a_instr s = instr_of l (unat dst) (unat src) (unat imm)"
    and e: "exec_label l (dst, src, imm) (v, w) = Inl (v', w')"
  shows "\<exists>e. isa_step e s (abs_vm v')"
proof -
  note m = refine_memory [OF wf abs] and a = refine_alu [OF wf abs]
    and j = refine_jump [OF abs] and n = refine_input [OF wf abs dev]
  show ?thesis
  proof (cases l)
    case label_HALT
    with e show ?thesis by (simp add: do_HALT_def)
  next
    case label_IN
    with i e n(1) show ?thesis by (metis instr_of.simps(10))
  next
    case label_RAND
    with i e n(2) show ?thesis by (metis instr_of.simps(11))
  next
    case label_LOAD
    with i e m(1) show ?thesis by (metis instr_of.simps(2))
  next
    case label_STORE
    with i e m(2) show ?thesis by (metis instr_of.simps(3))
  next
    case label_LI
    with i e m(3) show ?thesis by (metis instr_of.simps(12))
  next
    case label_ADD
    with i e a(1) show ?thesis by (metis instr_of.simps(4))
  next
    case label_SUB
    with i e a(2) show ?thesis by (metis instr_of.simps(5))
  next
    case label_MUL
    with i e a(3) show ?thesis by (metis instr_of.simps(6))
  next
    case label_DIV
    with i e a(4) show ?thesis by (metis instr_of.simps(7))
  next
    case label_JUMP
    with i e j(1) show ?thesis by (metis instr_of.simps(8))
  next
    case label_JNZ
    with i e j(2) show ?thesis by (metis instr_of.simps(9))
  qed
qed

text \<open>A continuing step of the loop is a step of the instruction set.\<close>

lemma goto_step_refines:
  assumes step: "goto_step (vm, w) = Inl (vm', w')" and wf: "well_formed vm" and dev: "devices_present vm"
  shows "\<exists>e. isa_step e (abs_vm vm) (abs_vm vm')"
proof -
  from step obtain v x where t: "snap_tick (advance vm, w) = (False, v, x)"
    and op: "decode_op (fetch vm) < ucast OP_COUNT"
    and e: "exec_label (dispatch_table ! unat (decode_op (fetch vm)))
       (decode_dst (fetch vm), decode_src (fetch vm), decode_imm (fetch vm)) (v, x) = Inl (vm', w')"
    by (rule goto_step_InlE)
  have "abs_vm v = a_next (abs_vm vm)"
    using abs_tick [OF t] by (simp only: abs_advance)
  moreover have "well_formed v" using wf well_formed_tick [OF t] by (simp add: well_formed_def)
  moreover have "devices_present v"
    using dev snap_tick_frame(2) [OF t] by (simp add: devices_present_def)
  ultimately show ?thesis
    using decode_dst_bound abs_instr_label [OF op] e by (intro refine_label)
qed

text \<open>A stop that is not a soft halt is a halt of the instruction set.\<close>

lemma trap_rewinds:
  assumes "abs_vm v = a_next (abs_vm vm)" "pc (vm_state v) = pc (vm_state vm) + 4"
  shows "abs_vm (set_halted h (set_pc (pc (vm_state v) - 4) v)) =
    (a_next (abs_vm vm))\<lparr>a_pc := a_pc (abs_vm vm)\<rparr>"
  using assms(1) unfolding abs_set_halted abs_set_pc assms(2)
  by (simp add: abs_arch_def)

lemma goto_step_halts:
  assumes step: "goto_step (vm, w) = Inr (Returned r, vm', w')"
    and off: "snap_interval (vm_state vm) = 0"
  shows "isa_halt (unat r) (abs_vm vm) (abs_vm vm')"
  using step
proof (cases rule: goto_step_InrE)
  case (snapshot v x)
  with off show ?thesis by simp
next
  case (unknown v x)
  have op: "\<not> unat (decode_op (fetch vm)) < 12"
    using unknown(2) by (simp only: opcode_known [symmetric] not_less)
  then have "a_instr (abs_vm vm) = Undefined (unat (decode_op (fetch vm)))"
    by (simp add: abs_instr isa_decode_word Let_def)
  from halt_unknown [OF this] have halt: "isa_halt 3 (abs_vm vm) (a_next (abs_vm vm))" .
  have v: "v = advance vm" using unknown(1) off by simp
  have "vm' = set_halted HALT_UNKNOWN_OP (advance vm)" using unknown(4) v by simp
  then have "abs_vm vm' = abs_vm (advance vm)" by (simp only: abs_set_halted)
  also have "\<dots> = a_next (abs_vm vm)" by (rule abs_advance)
  finally have "abs_vm vm' = a_next (abs_vm vm)" .
  with halt unknown(3) show ?thesis by (simp add: HALT_UNKNOWN_OP_def)
next
  case (handler v x)
  let ?l = "dispatch_table ! unat (decode_op (fetch vm))"
  have v: "v = advance vm" using handler(1) off by simp
  have abs: "abs_vm v = a_next (abs_vm vm)" "pc (vm_state v) = pc (vm_state vm) + 4"
    unfolding v by (rule abs_advance, simp)
  have i: "a_instr (abs_vm vm) = instr_of ?l (unat (decode_dst (fetch vm)))
      (unat (decode_src (fetch vm))) (unat (decode_imm (fetch vm)))"
    by (rule abs_instr_label) (rule handler(2))
  show ?thesis
  proof (cases ?l)
    case label_HALT
    with handler(3) have "r = HALT_NORMAL" "vm' = set_halted HALT_NORMAL v"
      by (simp_all add: do_HALT_def)
    with halt_normal [of "abs_vm vm"] i label_HALT abs show ?thesis
      by (simp add: abs_set_halted HALT_NORMAL_def)
  next
    case label_DIV
    with handler(3) have r: "r = HALT_DIV_ZERO" "get_reg (decode_src (fetch vm)) v = 0"
      "vm' = set_halted HALT_DIV_ZERO (set_pc (pc (vm_state v) - 4) v)"
      by (auto simp: do_DIV_def Let_def split: if_splits)
    have "a_reg (abs_vm vm) (unat (decode_src (fetch vm))) = 0"
      using r(2) abs_get_reg [of v "decode_src (fetch vm)"] abs(1) by simp
    with halt_div_zero [of "abs_vm vm"] i label_DIV show ?thesis
      by (simp add: r(1,3) trap_rewinds [OF abs] HALT_DIV_ZERO_def)
  qed (use handler(3) in \<open>auto simp: handler_defs Let_def split: option.splits prod.splits sum.splits\<close>)
qed

section \<open>Runs refine\<close>

lemma isa_run_step: "isa_step e s t \<Longrightarrow> isa_run es t u \<Longrightarrow> \<exists>es'. isa_run es' s u"
  by (cases e) (blast intro: run_silent run_input)+

lemma run_goto_refines:
  assumes "run_goto c = Some q" and "fst q = Returned r"
    and "well_formed (fst c)" "devices_present (fst c)" "snap_interval (vm_state (fst c)) = 0"
  shows "\<exists>es s. isa_run es (abs_vm (fst c)) s \<and> isa_halt (unat r) s (abs_vm (fst (snd q)))"
  using assms unfolding run_goto_def
proof (induction rule: run_loop_induct)
  case (stop c q)
  then have "isa_halt (unat r) (abs_vm (fst c)) (abs_vm (fst (snd q)))"
    using goto_step_halts [of "fst c" "snd c" r "fst (snd q)" "snd (snd q)"] by (cases q) auto
  then show ?case using run_refl by blast
next
  case (again c c' q)
  have fixed: "same_fixed (fst c) (fst c')" using again(1) by (rule goto_step_fixed)
  then obtain es s where "isa_run es (abs_vm (fst c')) s" "isa_halt (unat r) s (abs_vm (fst (snd q)))"
    using again by (auto simp: same_fixed_def well_formed_def devices_present_def)
  moreover obtain e where "isa_step e (abs_vm (fst c)) (abs_vm (fst c'))"
    using goto_step_refines [of "fst c" "snd c" "fst c'" "snd c'"] again by auto
  ultimately show ?case using isa_run_step by blast
qed

text \<open>
  C2: \<open>VM::run\<close> implements the instruction set. With checkpointing off and both producers
  installed, a call that returns the reason \<open>r\<close> has executed a sequence of instruction-set
  transitions, whose arithmetic, flags, memory accesses and wrap-around are those of the
  natural-number model, to a state in which the instruction set halts for the reason \<open>r\<close>, and it
  leaves the machine in the corresponding final state. In either dispatch mode. The instruction set is
  that of the handlers: a division leaves the carry clear whatever its remainder (the comment at
  \<open>FLAG_CF\<close> in opcodes.hpp says otherwise), and a jump goes to any address, aligned or not.
\<close>

theorem run_refines_isa:
  assumes "vm_run (vm, w) = Some (Returned r, vm', w')"
    and "halted (vm_state vm) = HALT_RUNNING" "snap_interval (vm_state vm) = 0"
    and "length (regs (vm_state vm)) = 8" "io_in (vm_io vm) \<noteq> None" "io_rand (vm_io vm) \<noteq> None"
  shows "\<exists>es s. isa_run es (abs_arch (vm_mem vm) (vm_state vm)) s
    \<and> isa_halt (unat r) s (abs_arch (vm_mem vm') (vm_state vm'))"
  using assms(1)
proof (rule vm_run_cases)
  assume "run_goto (vm, w) = Some (Returned r, vm', w')"
  from run_goto_refines [OF this] assms show ?thesis
    by (simp add: well_formed_def devices_present_def)
qed (use assms(2) in simp)

theorem run_refines_isa_witness:
  "\<exists>vm' es s. vm_run (sample_vm store_bin, ()) = Some (Returned HALT_NORMAL, vm', ())
     \<and> isa_run es (abs_vm (sample_vm store_bin)) s \<and> isa_halt 1 s (abs_vm vm')"
proof -
  obtain vm' where r: "vm_run (sample_vm store_bin, ()) = Some (Returned HALT_NORMAL, vm', ())"
    using sample_run_store by blast
  have "halted (vm_state (sample_vm store_bin)) = HALT_RUNNING"
    "snap_interval (vm_state (sample_vm store_bin)) = 0"
    "length (regs (vm_state (sample_vm store_bin))) = 8"
    "io_in (vm_io (sample_vm store_bin)) \<noteq> None" "io_rand (vm_io (sample_vm store_bin)) \<noteq> None"
    by (simp_all add: sample_vm_eval)
  from run_refines_isa [OF r this] r show ?thesis by (auto simp: HALT_NORMAL_def)
qed

section \<open>The instruction set is deterministic and total\<close>

lemma isa_progress: "(\<exists>e t. isa_step e s t) \<or> (\<exists>r t. isa_halt r s t)"
proof (cases "a_instr s")
  case (Div d r)
  then show ?thesis by (cases "a_reg s r = 0") (blast intro: step_div halt_div_zero)+
next
  case (Jnz d a)
  then show ?thesis by (cases "a_reg s d = 0") (blast intro: step_jnz_taken step_jnz_skip)+
next
  case (In d)
  then show ?thesis using step_in [of s d 0] by auto
next
  case (Rand d)
  then show ?thesis using step_rand [of s d 0] by auto
qed (blast intro: isa_step.intros isa_halt.intros)+

lemma isa_step_fun: "isa_step e s t \<Longrightarrow> isa_step e s t' \<Longrightarrow> t = t'"
  by (erule isa_stepE; erule isa_stepE; simp)

lemma isa_halt_fun: "isa_halt r s t \<Longrightarrow> isa_halt r' s t' \<Longrightarrow> r = r' \<and> t = t'"
  by (erule isa_haltE; erule isa_haltE; simp)

lemma isa_step_not_halt: "isa_step e s t \<Longrightarrow> \<not> isa_halt r s t'"
  by (auto elim!: isa_stepE isa_haltE)


text \<open>An instruction that takes no input cannot throw, and it leaves the captured state alone.\<close>

lemma goto_step_silent:
  assumes nio: "\<And>d. a_instr (abs_vm vm) \<noteq> In d \<and> a_instr (abs_vm vm) \<noteq> Rand d"
    and off: "snap_interval (vm_state vm) = 0"
  shows "goto_step (vm, w) = Inr q \<Longrightarrow> snd (snd q) = w \<and> (\<exists>r. fst q = Returned r)"
    and "goto_step (vm, w) = Inl c \<Longrightarrow> snd c = w"
proof -
  let ?l = "dispatch_table ! unat (decode_op (fetch vm))"
  have l: "\<not> is_io ?l" if "decode_op (fetch vm) < ucast OP_COUNT"
    using nio abs_instr_label [OF that] by (cases ?l) (auto simp: is_io_def)
  { assume "goto_step (vm, w) = Inr q"
    then show "snd (snd q) = w \<and> (\<exists>r. fst q = Returned r)"
      using l off
      by (cases q; cases ?l)
        (auto elim!: goto_step_InrE simp: is_io_def handler_defs Let_def split: if_splits) }
  { assume "goto_step (vm, w) = Inl c"
    then show "snd c = w"
      using l off
      by (cases c; cases ?l)
        (auto elim!: goto_step_InlE simp: is_io_def handler_defs Let_def split: if_splits) }
qed

lemma isa_step_silent_instr: "isa_step Silent s t \<Longrightarrow> a_instr s \<noteq> In d \<and> a_instr s \<noteq> Rand d"
  by (erule isa_stepE) simp_all

lemma isa_halt_instr: "isa_halt r s t \<Longrightarrow> a_instr s \<noteq> In d \<and> a_instr s \<noteq> Rand d"
  by (erule isa_haltE) simp_all

lemma isa_step_event: "isa_step e s t \<Longrightarrow> isa_step e' s t' \<Longrightarrow> e' = Silent \<Longrightarrow> e = Silent"
  by (erule isa_stepE; erule isa_stepE; simp)

lemma silent_run_returns:
  assumes "isa_run es a s" "isa_halt r s t" "es = []" "a = abs_vm vm"
    and "well_formed vm" "devices_present vm" "snap_interval (vm_state vm) = 0"
  shows "\<exists>vm'. run_goto (vm, w) = Some (Returned (word_of_nat r), vm', w) \<and> abs_vm vm' = t"
  using assms
proof (induction arbitrary: vm rule: isa_run.induct)
  case (run_refl s)
  note silent = goto_step_silent [OF _ run_refl(6), of w]
  have nio: "\<And>d. a_instr (abs_vm vm) \<noteq> In d \<and> a_instr (abs_vm vm) \<noteq> Rand d"
    using isa_halt_instr [OF run_refl(1)] run_refl(3) by simp
  show ?case
  proof (cases "goto_step (vm, w)")
    case (Inl c)
    then obtain e where "isa_step e s (abs_vm (fst c))"
      using goto_step_refines [of vm w "fst c" "snd c"] run_refl by auto
    with isa_step_not_halt run_refl(1) show ?thesis by blast
  next
    case (Inr q)
    with silent(1) [OF nio] obtain k v where q: "q = (Returned k, v, w)" by (cases q) auto
    have "isa_halt (unat k) s (abs_vm v)"
      using goto_step_halts [of vm w k v w] Inr q run_refl by simp
    with isa_halt_fun run_refl(1) have "unat k = r" "abs_vm v = t" by blast+
    then show ?thesis
      using Inr q by (auto simp: run_goto_def run_loop_stop)
  qed
next
  case (run_silent s u es x)
  have nio: "\<And>d. a_instr (abs_vm vm) \<noteq> In d \<and> a_instr (abs_vm vm) \<noteq> Rand d"
    using isa_step_silent_instr [OF run_silent(1)] run_silent(6) by simp
  note silent = goto_step_silent [OF nio run_silent(9), of w]
  show ?case
  proof (cases "goto_step (vm, w)")
    case (Inl c)
    with silent(2) obtain v where c: "c = (v, w)" by (cases c) auto
    obtain e where "isa_step e s (abs_vm v)"
      using goto_step_refines [of vm w v w] Inl c run_silent by auto
    with isa_step_event [OF this run_silent(1) refl] isa_step_fun run_silent(1)
    have "u = abs_vm v" by blast
    moreover have "same_fixed vm v" using goto_step_fixed [OF Inl] by (simp add: c)
    ultimately have "\<exists>vm'. run_goto (v, w) = Some (Returned (word_of_nat r), vm', w) \<and> abs_vm vm' = t"
      using run_silent by (auto simp: same_fixed_def well_formed_def devices_present_def)
    then show ?thesis using Inl c by (simp add: run_goto_def run_loop_next)
  next
    case (Inr q)
    with silent(1) obtain k v where q: "q = (Returned k, v, w)" by (cases q) auto
    have "isa_halt (unat k) s (abs_vm v)"
      using goto_step_halts [of vm w k v w] Inr q run_silent by simp
    with isa_step_not_halt run_silent(1) show ?thesis by blast
  qed
qed simp

text \<open>
  C13: the converse, for programs that take no input: when the instruction set reaches a halt for
  the reason \<open>r\<close> without an input, the call of \<open>run\<close> does return, with that reason, in the
  corresponding machine and without having touched the state of the closures. The instruction set is
  that of C2, with the carry clear after every division.
\<close>

theorem silent_program_returns:
  assumes "isa_run [] (abs_arch (vm_mem vm) (vm_state vm)) s" "isa_halt r s t"
    and "halted (vm_state vm) = HALT_RUNNING" "snap_interval (vm_state vm) = 0"
    and "length (regs (vm_state vm)) = 8" "io_in (vm_io vm) \<noteq> None" "io_rand (vm_io vm) \<noteq> None"
  shows "\<exists>vm'. vm_run (vm, w) = Some (Returned (word_of_nat r), vm', w)
    \<and> abs_arch (vm_mem vm') (vm_state vm') = t"
proof -
  have "vm_run (vm, w) = run_goto (vm, w)"
    using assms(3) run_paths_agree [of "(vm, w)"] by (simp add: vm_run_def)
  with silent_run_returns [OF assms(1,2) refl refl] assms(4-7) show ?thesis
    by (simp add: well_formed_def devices_present_def)
qed

text \<open>The hypotheses hold for \<open>LI R1, 1; DIV R1, R0\<close>, which traps in its second instruction.\<close>

theorem silent_program_returns_witness:
  "\<exists>vm'. vm_run (sample_vm div_bin, ()) = Some (Returned 2, vm', ())"
proof -
  let ?s = "abs_vm (sample_vm div_bin)"
  let ?t = "a_set 1 1 (a_next ?s)"
  note eval = a_instr_def isa_decode_def a_load32_def abs_arch_def abs_mem_def sample_vm_eval
    a_set_def a_next_def Let_def
  have "a_instr ?s = Li 1 1" by (simp add: eval)
  then have step: "isa_step Silent ?s ?t" by (rule step_li)
  have "a_instr ?t = Div 1 0" "a_reg ?t 0 = 0" by (simp_all add: eval)
  then have halt: "isa_halt 2 ?t ((a_next ?t)\<lparr>a_pc := a_pc ?t\<rparr>)" by (rule halt_div_zero)
  have "halted (vm_state (sample_vm div_bin)) = HALT_RUNNING"
    "snap_interval (vm_state (sample_vm div_bin)) = 0"
    "length (regs (vm_state (sample_vm div_bin))) = 8"
    "io_in (vm_io (sample_vm div_bin)) \<noteq> None" "io_rand (vm_io (sample_vm div_bin)) \<noteq> None"
    by (simp_all add: sample_vm_eval)
  from silent_program_returns [OF run_silent [OF step run_refl] halt this, of "()"]
  show ?thesis by auto
qed

text \<open>The state after an instruction, field by field.\<close>

lemma a_upd_sel [simp]:
  "a_pc (a_set d v s) = a_pc s" "a_cycle (a_set d v s) = a_cycle s"
  "a_reg (a_set d v s) = (a_reg s)(d := v)" "a_mem (a_set d v s) = a_mem s"
  "a_pc (a_alu d x b s) = a_pc s" "a_cycle (a_alu d x b s) = a_cycle s"
  "a_reg (a_alu d x b s) = (a_reg s)(d := nat (x mod 2 ^ 32))" "a_mem (a_alu d x b s) = a_mem s"
  "a_pc (a_next s) = (a_pc s + 4) mod 2 ^ 32" "a_cycle (a_next s) = (a_cycle s + 1) mod 2 ^ 64"
  "a_reg (a_next s) = a_reg s" "a_mem (a_next s) = a_mem s"
  by (simp_all add: a_set_def a_next_def a_alu_def Let_def)

end
