(* ===== verification/Mt19937.thy ===== *)
theory Mt19937
  imports Prelude
begin

text \<open>
  \<open>std::mt19937\<close>, the generator of \<open>RAND\<close>: the C++ standard fixes its algorithm, so the values it
  delivers are determined by the seed.
\<close>

record mt19937 =
  mt_state :: "u32 list"
  mt_index :: nat

fun mt_seed_from :: "nat \<Rightarrow> nat \<Rightarrow> u32 \<Rightarrow> u32 list" where
  "mt_seed_from 0 i x = []"
| "mt_seed_from (Suc n) i x =
     x # mt_seed_from n (Suc i) (1812433253 * (x XOR drop_bit 30 x) + of_nat (Suc i))"

definition mt_init :: "u32 \<Rightarrow> mt19937" where
  "mt_init seed = \<lparr>mt_state = mt_seed_from 624 0 seed, mt_index = 624\<rparr>"

definition mt_mix :: "u32 \<Rightarrow> u32 \<Rightarrow> u32 \<Rightarrow> u32" where
  "mt_mix hi lo far = (
     let y = (hi AND 0x80000000) OR (lo AND 0x7FFFFFFF)
     in far XOR drop_bit 1 y XOR (if y AND 1 = 0 then 0 else 0x9908B0DF))"

definition mt_twist :: "u32 list \<Rightarrow> u32 list" where
  "mt_twist xs = foldl (\<lambda>xs i.
     xs[i := mt_mix (xs ! i) (xs ! ((i + 1) mod 624)) (xs ! ((i + 397) mod 624))]) xs [0..<624]"

definition mt_temper :: "u32 \<Rightarrow> u32" where
  "mt_temper y = (
     let y = y XOR drop_bit 11 y;
         y = y XOR (push_bit 7 y AND 0x9D2C5680);
         y = y XOR (push_bit 15 y AND 0xEFC60000)
     in y XOR drop_bit 18 y)"

definition mt_next :: "mt19937 \<Rightarrow> u32 \<times> mt19937" where
  "mt_next g = (
     let g = (if mt_index g \<ge> 624 then \<lparr>mt_state = mt_twist (mt_state g), mt_index = 0\<rparr> else g)
     in (mt_temper (mt_state g ! mt_index g), g\<lparr>mt_index := mt_index g + 1\<rparr>))"

end
