(* ===== verification/Commands.thy ===== *)
theory Commands
  imports Parametric Mt19937
begin

text \<open>
  The commands \<open>run\<close>, \<open>record\<close> and \<open>replay\<close> of \<open>src/main.cpp\<close>, with what they print and write.
  Each is a function of the world; \<open>None\<close> is a command whose program never halts.
\<close>

section \<open>Shared pieces\<close>

definition flag_char :: "u32 \<Rightarrow> u32 \<Rightarrow> char \<Rightarrow> char" where
  "flag_char f bit_mask c = (if f AND bit_mask \<noteq> 0 then c else CHR ''-'')"

definition dump_state :: "VMState \<Rightarrow> HaltReason \<Rightarrow> string" where
  "dump_state s reason =
     ''halt reason: '' @ fmt_u32 reason @ nl @
     ''halt_legend: (1=normal 2=div0 3=unk 4=trace_eof 5=diverge 6=checkpoint)'' @ nl @
     ''cycles      : '' @ fmt_u64 (cycle_count s) @ nl @
     ''pc / sp     : 0x'' @ fmt_08x (pc s) @ '' / 0x'' @ fmt_08x (sp s) @ nl @
     ''flags (ZCS): '' @ [flag_char (flags s) 1 (CHR ''Z''), flag_char (flags s) 2 (CHR ''C''),
        flag_char (flags s) 4 (CHR ''S'')] @ nl @
     ''regs        : R0='' @ fmt_u32 (regs s ! 0) @ '' R1='' @ fmt_u32 (regs s ! 1) @
     '' R2='' @ fmt_u32 (regs s ! 2) @ '' R3='' @ fmt_u32 (regs s ! 3) @
     '' R4='' @ fmt_u32 (regs s ! 4) @ '' R5='' @ fmt_u32 (regs s ! 5) @
     '' R6='' @ fmt_u32 (regs s ! 6) @ '' R7='' @ fmt_u32 (regs s ! 7) @ nl"

text \<open>\<open>read_file\<close>: the bytes, or the message printed before \<open>exit(1)\<close>.\<close>

definition read_file :: "string \<Rightarrow> world \<Rightarrow> world + bytes" where
  "read_file path w = (case files w path of
     None \<Rightarrow> Inl (print_err (''retrovm: cannot open '' @ sq @ path @ sq @ nl) w)
   | Some bs \<Rightarrow> Inr bs)"

definition exit_code :: "HaltReason \<Rightarrow> int" where
  "exit_code r = (if r = HALT_NORMAL then 0 else 2)"

definition too_large :: string where
  "too_large = ''program too large for 1 MiB memory'' @ nl"

section \<open>Host I/O\<close>

text \<open>The state the default closures capture: the console and the thread's generator.\<close>

type_synonym host = "world \<times> mt19937"

text \<open>\<open>v = 0; if (scanf("%u", &v) != 1) v = 0;\<close>\<close>

definition scan_or_zero :: "world \<Rightarrow> u32 \<times> world" where
  "scan_or_zero w = (case scanf_u (stdin w) of (r, rest) \<Rightarrow>
     (case r of Some v \<Rightarrow> v | None \<Rightarrow> 0, w\<lparr>stdin := rest\<rparr>))"

definition host_in :: "u64 \<Rightarrow> host \<Rightarrow> (TraceMismatch + u32) \<times> host" where
  "host_in cycle h = (case h of (w, g) \<Rightarrow> case scan_or_zero w of (v, w) \<Rightarrow> (Inr v, w, g))"

definition host_rand :: "u64 \<Rightarrow> host \<Rightarrow> (TraceMismatch + u32) \<times> host" where
  "host_rand cycle h = (case h of (w, g) \<Rightarrow> case mt_next g of (v, g) \<Rightarrow> (Inr v, w, g))"

section \<open>run\<close>

text \<open>\<open>entropy\<close> is what \<open>std::random_device\<close> delivers to seed the generator.\<close>

definition cmd_run :: "u32 \<Rightarrow> string \<Rightarrow> world \<Rightarrow> (outcome \<times> world) option" where
  "cmd_run entropy bin w = (case read_file bin w of
     Inl w \<Rightarrow> Some (Exit 1, w)
   | Inr bs \<Rightarrow>
      (case load_program bs (VM_new host_in host_rand) of
         (False, _) \<Rightarrow> Some (Exit 1, print_err (''retrovm: '' @ too_large) w)
       | (True, vm) \<Rightarrow>
          let w = print_out (''retrovm: running '' @ sq @ bin @ sq @ '' ('' @ fmt_u (length bs) @
                '' bytes)'' @ nl) w
          in (case vm_run (vm, w, mt_init entropy) of
                None \<Rightarrow> None
              | Some (Thrown e, _, w, _) \<Rightarrow> Some (Uncaught (mismatch_what e), w)
              | Some (Returned r, vm, w, _) \<Rightarrow>
                  Some (Exit (exit_code r), print_out (dump_state (vm_state vm) r) w))))"

section \<open>record\<close>

definition kRecordRandSeed :: u32 where "kRecordRandSeed = 0xC0FFEE"

type_synonym 'g recorder = "world \<times> 'g \<times> TraceWriter"

definition record_in :: "u64 \<Rightarrow> 'g recorder \<Rightarrow> (TraceMismatch + u32) \<times> 'g recorder" where
  "record_in cycle x = (case x of (w, g, fs) \<Rightarrow>
     case scan_or_zero w of (v, w) \<Rightarrow> (Inr v, w, g, fs))"

definition record_rand ::
    "('g \<Rightarrow> u32 \<times> 'g) \<Rightarrow> u64 \<Rightarrow> 'g recorder \<Rightarrow> (TraceMismatch + u32) \<times> 'g recorder" where
  "record_rand gen cycle x = (case x of (w, g, fs) \<Rightarrow> case gen g of (v, g) \<Rightarrow> (Inr v, w, g, fs))"

definition record_observer :: "u64 \<Rightarrow> u8 \<Rightarrow> u32 \<Rightarrow> 'g recorder \<Rightarrow> 'g recorder" where
  "record_observer cycle op v x = (case x of (w, g, fs) \<Rightarrow> (w, g, trace_append cycle op v fs))"

definition record_hooks :: "('g \<Rightarrow> u32 \<times> 'g) \<Rightarrow> 'g recorder IOHooks" where
  "record_hooks gen = \<lparr>on_nondeterministic = Some record_observer, io_in = Some record_in,
     io_rand = Some (record_rand gen)\<rparr>"

text \<open>The machine of a recording; the constructor's own hooks are replaced before the run.\<close>

definition record_vm :: "bytes \<Rightarrow> bool \<times> mt19937 recorder VM" where
  "record_vm bs = (case load_program bs (VM_new record_in (record_rand mt_next)) of
     (ok, vm) \<Rightarrow> (ok, set_io_hooks (record_hooks mt_next) vm))"

definition cmd_record :: "string \<Rightarrow> u32 \<Rightarrow> world \<Rightarrow> (outcome \<times> world) option" where
  "cmd_record bin seed w = (case read_file bin w of
     Inl w \<Rightarrow> Some (Exit 1, w)
   | Inr bs \<Rightarrow>
      (case record_vm bs of
         (False, _) \<Rightarrow> Some (Exit 1, print_err (''retrovm: '' @ too_large) w)
       | (True, vm) \<Rightarrow>
          let w = print_out (''retrovm: record '' @ sq @ bin @ sq @ '' ('' @ fmt_u (length bs) @
                '' bytes) seed=0x'' @ fmt_08x seed @ nl) w
          in (case vm_run (vm, w, mt_init seed, []) of
                None \<Rightarrow> None
              | Some (Thrown e, _, w, _) \<Rightarrow> Some (Uncaught (mismatch_what e), w)
              | Some (Returned r, vm, w, _, fs) \<Rightarrow>
                  (let trace_path = bin @ ''.trace'' in
                   case flush_to_file trace_path fs w of
                     (Some err, w) \<Rightarrow> Some (Uncaught err, w)
                   | (None, w) \<Rightarrow>
                       let w = print_out (''trace       : '' @ fmt_u (length fs) @ '' frames -> '' @
                             trace_path @ nl) w;
                           w = print_out (dump_state (vm_state vm) r) w
                       in Some (Exit (exit_code r), w)))))"

section \<open>replay\<close>

text \<open>
  \<open>consume\<close>: the next frame must be for the cycle and opcode the machine is at; its value is
  handed over and the cursor advances. Otherwise the machine's request is reported.
\<close>

definition consume :: "TraceReader \<Rightarrow> u64 \<Rightarrow> u8 \<Rightarrow> nat \<Rightarrow> (TraceMismatch + u32) \<times> nat" where
  "consume reader cycle want_op idx = (case frame_at reader idx of
     None \<Rightarrow> (Inl \<lparr>expected_cycle = cycle, expected_op = want_op, actual_cycle = 0, actual_op = 0,
                  frame_idx = idx, premature_eof = True\<rparr>, idx)
   | Some f \<Rightarrow>
       if f_cycle f \<noteq> cycle \<or> f_opcode f \<noteq> want_op
       then (Inl \<lparr>expected_cycle = cycle, expected_op = want_op, actual_cycle = f_cycle f,
                 actual_op = f_opcode f, frame_idx = idx, premature_eof = False\<rparr>, idx)
       else (Inr (f_value f), idx + 1))"

type_synonym replayer = "world \<times> nat"

definition replay_hook :: "TraceReader \<Rightarrow> u8 \<Rightarrow> u64 \<Rightarrow> replayer \<Rightarrow>
    (TraceMismatch + u32) \<times> replayer" where
  "replay_hook reader op cycle x = (case x of (w, cursor) \<Rightarrow>
     case consume reader cycle op cursor of (v, cursor) \<Rightarrow> (v, w, cursor))"

definition trace_line :: "u64 \<Rightarrow> u8 \<Rightarrow> u32 \<Rightarrow> string" where
  "trace_line cycle op v = ''  [trace] cycle='' @ pad_right 4 (CHR '' '') (fmt_u64 cycle) @
     '' opcode=0x'' @ fmt_02X op @ '' value='' @ fmt_u32 v @ nl"

definition replay_observer :: "u64 \<Rightarrow> u8 \<Rightarrow> u32 \<Rightarrow> replayer \<Rightarrow> replayer" where
  "replay_observer cycle op v x = (case x of (w, cursor) \<Rightarrow>
     (print_out (trace_line cycle op v) w, cursor))"

definition replay_hooks :: "TraceReader \<Rightarrow> replayer IOHooks" where
  "replay_hooks reader = \<lparr>on_nondeterministic = Some replay_observer,
     io_in = Some (replay_hook reader OP_IN), io_rand = Some (replay_hook reader OP_RAND)\<rparr>"

definition replay_vm :: "TraceReader \<Rightarrow> bytes \<Rightarrow> bool \<times> replayer VM" where
  "replay_vm reader bs =
     (case load_program bs (VM_new (replay_hook reader OP_IN) (replay_hook reader OP_RAND)) of
        (ok, vm) \<Rightarrow> (ok, set_io_hooks (replay_hooks reader) vm))"

definition divergence_text :: "TraceMismatch \<Rightarrow> string" where
  "divergence_text d =
     nl @ ''*** Divergence Detected! ***'' @ nl @ ''  '' @ mismatch_what d @ nl @
     ''  expected at cycle='' @ fmt_u64 (expected_cycle d) @ ''  opcode=0x'' @
       fmt_02X (expected_op d) @ nl @
     (if premature_eof d then []
      else ''  trace  frame#'' @ pad_right 4 (CHR '' '') (fmt_u (frame_idx d)) @ ''    opcode=0x'' @
        fmt_02X (actual_op d) @ ''  cycle='' @ fmt_u64 (actual_cycle d) @ nl)"

definition replay_banner :: "string \<Rightarrow> string \<Rightarrow> nat \<Rightarrow> TraceReader \<Rightarrow> string" where
  "replay_banner bin trace_path n reader =
     ''retrovm: replay '' @ sq @ bin @ sq @ '' ('' @ fmt_u n @ '' bytes) against trace '' @
       sq @ trace_path @ sq @ nl @
     ''trace       : '' @ fmt_u (rd_frame_count reader) @ '' frames, version '' @
       fmt_u32 (rd_version reader) @ '', magic \"'' @ map (\<lambda>b. char_of (unat b)) (rd_magic reader) @
       ''\"'' @ nl"

definition cmd_replay :: "string \<Rightarrow> string \<Rightarrow> world \<Rightarrow> (outcome \<times> world) option" where
  "cmd_replay bin trace_path w = (case read_file bin w of
     Inl w \<Rightarrow> Some (Exit 1, w)
   | Inr bs \<Rightarrow>
      (case TraceReader_open trace_path w of
         Inl err \<Rightarrow> Some (Uncaught err, w)
       | Inr reader \<Rightarrow>
          let w = print_out (replay_banner bin trace_path (length bs) reader) w
          in (case replay_vm reader bs of
                (False, _) \<Rightarrow> Some (Exit 1, print_err (''retrovm: '' @ too_large) w)
              | (True, vm) \<Rightarrow>
                 (case vm_run (vm, w, 0) of
                    None \<Rightarrow> None
                  | Some (Thrown d, vm, w, cursor) \<Rightarrow>
                      let r = (if premature_eof d then HALT_TRACE_EOF else HALT_DIVERGED);
                          w = print_err (divergence_text d) w;
                          w = print_out (dump_state (vm_state vm) r) w;
                          w = print_err (''replay aborted: '' @ fmt_u cursor @
                                '' frame(s) consumed of '' @ fmt_u (rd_frame_count reader) @ nl) w
                      in Some (Exit 3, w)
                  | Some (Returned r, vm, w, cursor) \<Rightarrow>
                      if cursor < rd_frame_count reader then
                        let w = print_err (nl @ ''*** Divergence Detected! ***'' @ nl @ ''  '' @
                              fmt_u (rd_frame_count reader - cursor) @
                              '' unread frame(s) remain in trace (program ended early)'' @ nl) w
                        in Some (Exit 3, print_out (dump_state (vm_state vm) r) w)
                      else
                        let w = print_out (''replay VERIFIED'' @ nl) w
                        in Some (Exit (exit_code r), print_out (dump_state (vm_state vm) r) w)))))"

end
