(* ===== verification/EndToEnd.thy ===== *)
theory EndToEnd
  imports AsmText Isa Commands
begin

text \<open>
  Two commands in sequence: a source text through \<open>asm\<close> and \<open>run\<close>, against the instruction set.
\<close>

section \<open>From the source text to the exit code\<close>

text \<open>The instruction a line of source names, as the instruction set has it.\<close>

fun isa_instr :: "AsmText.instr \<Rightarrow> Isa.instr" where
  "isa_instr I_HALT = Halt"
| "isa_instr (I_LOAD d i) = Load d i"
| "isa_instr (I_STORE d i) = Store d i"
| "isa_instr (I_ADD d s) = Add d s"
| "isa_instr (I_SUB d s) = Sub d s"
| "isa_instr (I_MUL d s) = Mul d s"
| "isa_instr (I_DIV d s) = Div d s"
| "isa_instr (I_JUMP i) = Jump i"
| "isa_instr (I_JNZ d i) = Jnz d i"
| "isa_instr (I_IN d) = In d"
| "isa_instr (I_RAND d) = Rand d"
| "isa_instr (I_LI d i) = Li d i"

lemma masked_small: "n < 2 ^ k \<Longrightarrow> k \<le> 32 \<Longrightarrow> unat ((of_nat n :: u32) AND mask k) = n"
proof -
  assume n: "n < 2 ^ k" "k \<le> 32"
  then have "n < 2 ^ 32" using power_increasing [of k 32 "2 :: nat"] by linarith
  then have "unat (of_nat n :: u32) = n" by (simp add: unsigned_of_nat take_bit_nat_eq_self)
  then show ?thesis using n(1) by (simp add: unat_and_mask)
qed

lemma isa_decode_encode:
  assumes "op < 12" "d \<le> 7" "s \<le> 7" "i < 2 ^ 20"
  shows "isa_decode (unat (encode (of_nat op) (of_nat d) (of_nat s) (of_nat i))) =
    [Halt, Load d i, Store d i, Add d s, Sub d s, Mul d s, Div d s, Jump i, Jnz d i, In d, Rand d, Li d i] ! op"
  using assms masked_small [of op 6] masked_small [of d 3] masked_small [of s 3] masked_small [of i 20]
  by (simp add: isa_decode_word Let_def mask_literals)

lemma decode_instr_word: "valid_instr i \<Longrightarrow> isa_decode (unat (instr_word i)) = isa_instr i"
  using isa_decode_encode [of 0 0 0 0] isa_decode_encode [of 1 _ 0] isa_decode_encode [of 2 _ 0]
    isa_decode_encode [of 3 _ _ 0] isa_decode_encode [of 4 _ _ 0] isa_decode_encode [of 5 _ _ 0]
    isa_decode_encode [of 6 _ _ 0] isa_decode_encode [of 7 0 0] isa_decode_encode [of 8 _ 0]
    isa_decode_encode [of 9 _ 0 0] isa_decode_encode [of 10 _ 0 0] isa_decode_encode [of 11 _ 0]
  by (cases i) (simp_all add: const_defs)

text \<open>A machine of the instruction set that has just been started on a program.\<close>

definition power_on :: "AsmText.instr list \<Rightarrow> arch \<Rightarrow> bool" where
  "power_on prog s \<longleftrightarrow> a_cycle s = 0 \<and> a_pc s = 0 \<and> (\<forall>r < 8. a_reg s r = 0) \<and> \<not> a_zf s \<and> \<not> a_cf s \<and> \<not> a_sf s
     \<and> (\<forall>k < length prog. isa_decode (a_load32 (a_mem s) (4 * k)) = isa_instr (prog ! k))
     \<and> (\<forall>a \<ge> 4 * length prog. a_mem s a = 0)"

lemma loaded_power_on:
  assumes load: "load_program (concat (map (le_bytes 4) (map instr_word prog))) (VM_new f g) = (True, vm)"
    and valid: "list_all valid_instr prog"
  shows "power_on prog (abs_vm vm)"
proof -
  let ?bs = "concat (map (le_bytes 4) (map instr_word prog))"
  have len: "4 * length prog \<le> 2 ^ 20" and m: "vm_mem vm = (\<lambda>a. if unat a < length ?bs then ?bs ! unat a else 0)"
    and st: "vm_state vm = vm_state (VM_new f g)"
    using load length_program [of "map instr_word prog"]
    by (auto simp: load_program_def VM_new_def reset_state_def MEM_SIZE_def split: if_splits)
  have "isa_decode (a_load32 (abs_mem (vm_mem vm)) (4 * k)) = isa_instr (prog ! k)" if k: "k < length prog" for k
  proof -
    have "unat (of_nat (4 * k) :: u32) = 4 * k"
      using k len by (subst unsigned_of_nat) (simp add: take_bit_nat_eq_self)
    then have "a_load32 (abs_mem (vm_mem vm)) (4 * k) = unat (instr_word (prog ! k))"
      using loaded_word [OF load, of k] k abs_load [of "vm_mem vm" "of_nat (4 * k)"] by simp
    then show ?thesis using valid k by (simp add: decode_instr_word list_all_length)
  qed
  moreover have "abs_mem (vm_mem vm) a = 0" if "4 * length prog \<le> a" for a
  proof (cases "a < 2 ^ 20")
    case True
    then have "unat (of_nat a :: u32) = a" by (simp add: unsigned_of_nat take_bit_nat_eq_self)
    then show ?thesis using that length_program [of "map instr_word prog"] by (simp add: abs_mem_def m)
  qed (simp add: abs_mem_def)
  ultimately show ?thesis
    by (simp add: power_on_def abs_arch_def st VM_new_def reset_state_def VMState_init_def)
qed

text \<open>
  C7: from the source text to the exit code. Take a source file in the assembler's syntax (the files of
  C6: comments, white space, letter case and number base as the writer likes, the last newline or
  not) whose program fits into memory, and suppose that by the instruction set, started on its instructions with all
  registers 0, the program halts for the reason \<open>r\<close> without reading an input. Then \<open>asm\<close> and \<open>run\<close> one
  after the other both succeed: \<open>run\<close> returns, with the exit code that belongs to \<open>r\<close>, after
  printing the dump of a final state for which everything holds that the instruction set
  guarantees of its own.
\<close>

theorem asm_then_run:
  assumes src: "files w src = Some bs" "source_file prog bs" "fault w dst = None"
    and fits: "4 * length (source_words prog) \<le> MEM_SIZE"
    and isa: "\<And>s0. power_on (source_instrs prog) s0 \<Longrightarrow> \<exists>s t. isa_run [] s0 s \<and> isa_halt r s t \<and> Q t"
  shows "\<exists>w1 w2 m st. cmd_assemble src dst w = (Exit 0, w1)
    \<and> cmd_run entropy dst w1 = Some (Exit (exit_code (of_nat r)), w2)
    \<and> stdout w2 = stdout w1 @ ''retrovm: running '' @ sq @ dst @ sq @ '' ('' @
        fmt_u (4 * length (source_words prog)) @ '' bytes)'' @ nl @ dump_state st (of_nat r)
    \<and> Q (abs_arch m st)"
proof -
  let ?prog = "source_instrs prog"
  define bin where "bin = concat (map (le_bytes 4) (source_words prog))"
  have words: "source_words prog = map instr_word ?prog" by (simp add: source_words_def)
  define w1 where "w1 = print_out (''asm: '' @ fmt_u (length (source_words prog)) @ '' instructions -> '' @ dst @ nl)
    (write_file dst bin w)"
  have w1: "cmd_assemble src dst w = (Exit 0, w1)" "files w1 dst = Some bin"
    using cmd_assemble_file [OF src] by (simp_all add: w1_def bin_def)
  have len: "length bin = 4 * length (source_words prog)" unfolding bin_def by (rule length_program)
  obtain vm where load: "load_program bin (VM_new host_in host_rand) = (True, vm)"
    using fits len by (simp add: load_program_def)
  have "list_all valid_instr ?prog" using src(2) by (simp add: source_file_def valid_source_instrs)
  from isa [OF loaded_power_on [OF load [unfolded bin_def words] this]] obtain s t
    where s: "isa_run [] (abs_vm vm) s" "isa_halt r s t" and Q: "Q t" by blast
  have vm: "halted (vm_state vm) = HALT_RUNNING" "snap_interval (vm_state vm) = 0" "length (regs (vm_state vm)) = 8"
    "io_in (vm_io vm) \<noteq> None" "io_rand (vm_io vm) \<noteq> None" "vm_mode vm = ComputedGoto"
    using load by (auto simp: load_program_def VM_new_def reset_state_def VMState_init_def split: if_splits)
  let ?w = "print_out (''retrovm: running '' @ sq @ dst @ sq @ '' ('' @ fmt_u (length bin) @ '' bytes)'' @ nl) w1"
  obtain vm' where run: "run_goto (vm, ?w, mt_init entropy) = Some (Returned (of_nat r), vm', ?w, mt_init entropy)"
    and abs: "abs_vm vm' = t"
    using silent_run_returns [OF s refl refl] vm by (fastforce simp: well_formed_def devices_present_def)
  have "cmd_run entropy dst w1 = Some (Exit (exit_code (of_nat r)), print_out (dump_state (vm_state vm') (of_nat r)) ?w)"
    using w1(2) load run vm(6) by (simp add: cmd_run_def read_file_def vm_run_def Let_def)
  with w1(1) Q abs show ?thesis
    by (intro exI [of _ w1] exI [of _ "print_out (dump_state (vm_state vm') (of_nat r)) ?w"]
        exI [of _ "vm_mem vm'"] exI [of _ "vm_state vm'"]) (simp add: len del: print_out_print_out)
qed

text \<open>Six times seven, written as the programs of the repository are.\<close>

definition product_source :: asm_source where
  "product_source =
     [\<lparr>al_instr = None, al_indent = [], al_words = [], al_comment = Some '' six times seven''\<rparr>,
      \<lparr>al_instr = None, al_indent = [], al_words = [], al_comment = None\<rparr>,
      \<lparr>al_instr = Some (I_LI 1 6), al_indent = [], al_words = [(''LI'', ''    ''), (''R1,'', '' ''), (''6'', [])],
        al_comment = None\<rparr>,
      \<lparr>al_instr = Some (I_LI 2 7), al_indent = [], al_words = [(''LI'', ''    ''), (''R2,'', '' ''), (''7'', [])],
        al_comment = None\<rparr>,
      \<lparr>al_instr = Some (I_MUL 1 2), al_indent = [], al_words = [(''MUL'', ''   ''), (''R1,'', '' ''), (''R2'', [])],
        al_comment = None\<rparr>,
      \<lparr>al_instr = Some I_HALT, al_indent = [], al_words = [(''HALT'', [])], al_comment = None\<rparr>]"

definition product_text :: string where
  "product_text = ''; six times seven'' @ nl @ nl @ ''LI    R1, 6'' @ nl @ ''LI    R2, 7'' @ nl @
     ''MUL   R1, R2'' @ nl @ ''HALT'' @ nl"

lemma product_file: "source_file product_source (str_bytes product_text)"
proof -
  have f: "fmt_u 1 = ''1''" "fmt_u 2 = ''2''" "fmt_u 6 = ''6''" "fmt_u 7 = ''7''"
    "upcase ''LI'' = ''LI''" "upcase ''MUL'' = ''MUL''" "upcase ''HALT'' = ''HALT''"
    by code_simp+
  have "valid_source product_source"
    by (simp add: valid_source_def product_source_def valid_line_def white_def isspace_def mnemonic_def
        first_operand_def reg_word_def imm_word_def f f(1) [unfolded One_nat_def])
  moreover have "product_text = source_text product_source"
    by (simp add: product_text_def source_text_def product_source_def source_line_def)
  ultimately show ?thesis by (simp add: source_file_def)
qed

lemma product_halts:
  assumes on: "power_on [I_LI 1 6, I_LI 2 7, I_MUL 1 2, I_HALT] s0"
  shows "\<exists>s t. isa_run [] s0 s \<and> isa_halt 1 s t \<and> a_reg t 1 = 42"
proof -
  have code: "isa_decode (a_load32 (a_mem s0) (4 * k)) = isa_instr ([I_LI 1 6, I_LI 2 7, I_MUL 1 2, I_HALT] ! k)"
    if "k < 4" for k
    using on that by (simp add: power_on_def)
  have pc: "a_pc s0 = 0" using on by (simp add: power_on_def)
  let ?s1 = "a_set 1 6 (a_next s0)"
  have "a_instr s0 = Li 1 6" using code [of 0] pc by (simp add: a_instr_def)
  then have s1: "isa_step Silent s0 ?s1" by (rule step_li)
  let ?s2 = "a_set 2 7 (a_next ?s1)"
  have "a_instr ?s1 = Li 2 7" using code [of 1] pc by (simp add: a_instr_def)
  then have s2: "isa_step Silent ?s1 ?s2" by (rule step_li)
  let ?s3 = "a_alu 1 42 False (a_next ?s2)"
  have "a_instr ?s2 = Mul 1 2" using code [of 2] pc by (simp add: a_instr_def)
  from step_mul [OF this refl] have s3: "isa_step Silent ?s2 ?s3" by simp
  have "a_instr ?s3 = Halt" using code [of 3] pc by (simp add: a_instr_def)
  then have "isa_halt 1 ?s3 (a_next ?s3)" by (rule halt_normal)
  moreover have "isa_run [] s0 ?s3" using run_silent [OF s1 run_silent [OF s2 run_silent [OF s3 run_refl]]] .
  ultimately show ?thesis
    by (intro exI [of _ ?s3] exI [of _ "a_next ?s3"]) simp
qed

theorem asm_then_run_witness:
  "\<exists>w1 w2 st. cmd_assemble ''p.asm'' ''p.bin'' (no_files\<lparr>files := [''p.asm'' \<mapsto> str_bytes product_text]\<rparr>)
       = (Exit 0, w1)
     \<and> cmd_run 7 ''p.bin'' w1 = Some (Exit 0, w2)
     \<and> stdout w2 = stdout w1 @ ''retrovm: running '' @ sq @ ''p.bin'' @ sq @ '' ('' @
         fmt_u (4 * length (source_words product_source)) @ '' bytes)'' @ nl @ dump_state st HALT_NORMAL
     \<and> unat (regs st ! 1) = 42"
proof -
  let ?w = "no_files\<lparr>files := [''p.asm'' \<mapsto> str_bytes product_text]\<rparr>"
  have a: "files ?w ''p.asm'' = Some (str_bytes product_text)" by simp
  have c: "fault ?w ''p.bin'' = None" by (simp add: no_files_def)
  have prog: "source_instrs product_source = [I_LI 1 6, I_LI 2 7, I_MUL 1 2, I_HALT]"
    by (simp add: source_instrs_def product_source_def map_filter_simps)
  have d: "4 * length (source_words product_source) \<le> MEM_SIZE"
    by (simp add: source_words_def prog MEM_SIZE_def)
  have isa: "\<exists>s t. isa_run [] s0 s \<and> isa_halt 1 s t \<and> a_reg t 1 = 42"
    if "power_on (source_instrs product_source) s0" for s0
    using product_halts that by (simp only: prog)
  have e: "exit_code HALT_NORMAL = 0" "(of_nat 1 :: u32) = HALT_NORMAL" by (simp_all add: exit_code_def HALT_NORMAL_def)
  have reg: "unat (regs st ! 1) = a_reg (abs_arch m st) 1" for m st by (simp add: abs_arch_def)
  have "\<exists>w1 w2 m st. cmd_assemble ''p.asm'' ''p.bin'' ?w = (Exit 0, w1)
     \<and> cmd_run 7 ''p.bin'' w1 = Some (Exit (exit_code (of_nat 1)), w2)
     \<and> stdout w2 = stdout w1 @ ''retrovm: running '' @ sq @ ''p.bin'' @ sq @ '' ('' @
         fmt_u (4 * length (source_words product_source)) @ '' bytes)'' @ nl @ dump_state st (of_nat 1)
     \<and> a_reg (abs_arch m st) 1 = 42"
    by (rule asm_then_run [where Q = "\<lambda>t. a_reg t 1 = 42" and r = 1, OF a product_file c d isa])
  then show ?thesis
    unfolding e reg [symmetric] by (elim exE conjE) (intro exI conjI)
qed

end
