(* ===== verification/Checkpoint.thy ===== *)
theory Checkpoint
  imports Opcodes Host
begin

text \<open>
  The \<open>.state\<close> format of \<open>include/retrovm/checkpoint.hpp\<close> and \<open>src/checkpoint.cpp\<close>: 16 bytes of
  header and 48 bytes of body, every field little-endian.
\<close>

section \<open>The structures\<close>

record CheckpointState =
  ck_frame_index :: u32
  ck_halted :: HaltReason
  ck_flags :: u32
  ck_regs :: "u32 list"
  ck_pc :: u32
  ck_sp :: u32

record CheckpointFileHeader =
  h_magic :: bytes
  h_version :: u32
  h_frame_index :: u32

record CheckpointFileBody =
  b_halted :: u32
  b_flags :: u32
  b_regs :: "u32 list"
  b_pc :: u32
  b_sp :: u32

definition sizeof_CheckpointFileHeader :: nat where "sizeof_CheckpointFileHeader = 16"
definition sizeof_CheckpointFileBody :: nat where "sizeof_CheckpointFileBody = 48"

lemmas sizeof_checkpoint_defs = sizeof_CheckpointFileHeader_def sizeof_CheckpointFileBody_def

definition ck_header_bytes :: "CheckpointFileHeader \<Rightarrow> bytes" where
  "ck_header_bytes h = h_magic h @ le_bytes 4 (h_version h) @ le_bytes 4 (h_frame_index h)"

definition ck_body_bytes :: "CheckpointFileBody \<Rightarrow> bytes" where
  "ck_body_bytes b = le_bytes 4 (b_halted b) @ le_bytes 4 (b_flags b)
     @ concat (map (\<lambda>i. le_bytes 4 (b_regs b ! i)) [0..<8])
     @ le_bytes 4 (b_pc b) @ le_bytes 4 (b_sp b)"

text \<open>What \<open>fread\<close> into the structures makes of the file's bytes.\<close>

definition ck_header_of :: "bytes \<Rightarrow> CheckpointFileHeader" where
  "ck_header_of bs = \<lparr>h_magic = take 8 bs, h_version = of_le_bytes (take 4 (drop 8 bs)),
     h_frame_index = of_le_bytes (take 4 (drop 12 bs))\<rparr>"

definition ck_body_of :: "bytes \<Rightarrow> CheckpointFileBody" where
  "ck_body_of bs = \<lparr>b_halted = of_le_bytes (take 4 bs), b_flags = of_le_bytes (take 4 (drop 4 bs)),
     b_regs = map (\<lambda>i. of_le_bytes (take 4 (drop (8 + i * 4) bs))) [0..<8],
     b_pc = of_le_bytes (take 4 (drop 40 bs)), b_sp = of_le_bytes (take 4 (drop 44 bs))\<rparr>"

section \<open>Saving\<close>

definition diag :: "string \<Rightarrow> string \<Rightarrow> string \<Rightarrow> world \<Rightarrow> world" where
  "diag what path detail w =
     print_err (''retrovm: '' @ what @ '' '' @ sq @ path @ sq @ '' ('' @ detail @ '')'' @ nl) w"

definition make_body :: "CheckpointState \<Rightarrow> CheckpointFileBody" where
  "make_body s = \<lparr>b_halted = ck_halted s, b_flags = ck_flags s,
     b_regs = map (\<lambda>i. ck_regs s ! i) [0..<8], b_pc = ck_pc s, b_sp = ck_sp s\<rparr>"

definition make_header :: "CheckpointState \<Rightarrow> CheckpointFileHeader" where
  "make_header s = \<lparr>h_magic = str_bytes ''RVMSTATE'', h_version = 1,
     h_frame_index = ck_frame_index s\<rparr>"

definition state_bytes :: "CheckpointState \<Rightarrow> bytes" where
  "state_bytes s = ck_header_bytes (make_header s) @ ck_body_bytes (make_body s)"

text \<open>
  \<open>checkpoint_save\<close>. A write that fails after \<open>n\<close> bytes, or a close that loses all but \<open>n\<close> bytes,
  leaves a prefix of the data in the truncated file.
\<close>

definition checkpoint_save :: "string \<Rightarrow> CheckpointState \<Rightarrow> world \<Rightarrow> bool \<times> world" where
  "checkpoint_save path s w = (
     let data = state_bytes s in
     case fault w path of
       Some F_open_write \<Rightarrow> (False, diag ''cannot open for writing'' path ''fopen wb failed'' w)
     | Some (F_write n) \<Rightarrow>
         if n < length data
         then (False, diag ''write failed'' path ''fwrite returned short''
                 (write_file path (take n data) w))
         else (True, write_file path data w)
     | Some (F_close n) \<Rightarrow>
         (False, diag ''close failed'' path ''fclose returned non-zero''
            (write_file path (take n data) w))
     | _ \<Rightarrow> (True, write_file path data w))"

section \<open>Loading\<close>

definition checkpoint_load :: "string \<Rightarrow> world \<Rightarrow> CheckpointState option \<times> world" where
  "checkpoint_load path w = (case files w path of
     None \<Rightarrow> (None, diag ''cannot open for reading'' path ''fopen rb failed'' w)
   | Some bs \<Rightarrow>
       if length bs < sizeof_CheckpointFileHeader + sizeof_CheckpointFileBody
       then (None, diag ''read failed'' path ''file shorter than expected (60 B)'' w)
       else
         let hdr = ck_header_of bs;
             body = ck_body_of (drop sizeof_CheckpointFileHeader bs)
         in if h_magic hdr \<noteq> str_bytes ''RVMSTATE''
            then (None, diag ''bad magic'' path ''expected RVMSTATE in header'' w)
            else if h_version hdr \<noteq> 1
            then (None, diag ''unsupported .state'' path
                    (''unknown version '' @ fmt_u32 (h_version hdr) @ '' (want 1)'') w)
            else (Some \<lparr>ck_frame_index = h_frame_index hdr, ck_halted = b_halted body,
                    ck_flags = b_flags body, ck_regs = b_regs body, ck_pc = b_pc body,
                    ck_sp = b_sp body\<rparr>, w))"

section \<open>The format\<close>

lemma length_le_words [simp]: "length (concat (map (\<lambda>i. le_bytes 4 (f i)) xs)) = length xs * 4"
  by (induction xs) simp_all

lemma length_state_bytes: "length (state_bytes s) = 64"
  by (simp add: state_bytes_def ck_header_bytes_def ck_body_bytes_def make_header_def)

lemma header_of_state_bytes: "ck_header_of (state_bytes s) = make_header s"
  by (simp add: ck_header_of_def state_bytes_def ck_header_bytes_def make_header_def)

lemma word_at:
  assumes "i < n"
  shows "of_le_bytes (take 4 (drop (i * 4) (concat (map (\<lambda>i. le_bytes 4 (f i)) [0..<n]) @ rest))) = (f i :: u32)"
  using u32_codec.array_nth [of i "map f [0..<n]" rest] assms by (simp add: comp_def)

lemma body_of_state_bytes: "ck_body_of (drop 16 (state_bytes s)) = make_body s"
proof -
  have "drop 16 (state_bytes s) = ck_body_bytes (make_body s)"
    by (simp add: state_bytes_def ck_header_bytes_def make_header_def)
  then show ?thesis
    by (simp add: ck_body_of_def ck_body_bytes_def word_at word_at [where rest = "[]", simplified]
        make_body_def)
qed

lemma checkpoint_load_state_bytes:
  assumes "files w st = Some (state_bytes s)" "length (ck_regs s) = 8"
  shows "checkpoint_load st w = (Some s, w)"
proof -
  have "map ((!) (map ((!) (ck_regs s)) [0..<8])) [0..<8] = ck_regs s"
    "map ((!) (ck_regs s)) [0..<8] = ck_regs s"
    using assms(2) by (auto intro!: nth_equalityI)
  then show ?thesis
    using assms by (simp add: checkpoint_load_def length_state_bytes sizeof_checkpoint_defs Let_def
        header_of_state_bytes body_of_state_bytes make_header_def make_body_def)
qed

text \<open>
  C29: a checkpoint file restores exactly what was saved: when \<open>checkpoint_save\<close> reports success,
  the file holds 64 bytes and \<open>checkpoint_load\<close> of it succeeds without a diagnostic and returns
  the saved frame index, halt tag, flags, eight registers, pc and sp.
\<close>

theorem checkpoint_roundtrip:
  assumes "checkpoint_save path s w = (True, w1)" and "length (ck_regs s) = 8"
  shows "checkpoint_load path w1 = (Some s, w1) \<and> length (the (files w1 path)) = 64"
proof -
  have w1: "w1 = write_file path (state_bytes s) w"
    using assms(1)
    by (auto simp: checkpoint_save_def Let_def split: option.splits os_fault.splits if_splits)
  have "map (\<lambda>i. map (\<lambda>i. ck_regs s ! i) [0..<8] ! i) [0..<8] = ck_regs s"
    using assms(2) by (intro nth_equalityI) simp_all
  moreover have "map ((!) (ck_regs s)) [0..<8] = ck_regs s"
    using assms(2) by (intro nth_equalityI) simp_all
  ultimately show ?thesis
    by (simp add: w1 checkpoint_load_def length_state_bytes sizeof_checkpoint_defs Let_def
        header_of_state_bytes body_of_state_bytes make_header_def make_body_def)
qed

definition sample_state :: CheckpointState where
  "sample_state = \<lparr>ck_frame_index = 2, ck_halted = HALT_CHECKPOINT, ck_flags = FLAG_ZF,
     ck_regs = [1, 2, 3, 4, 5, 6, 7, 8], ck_pc = 0x20, ck_sp = 0xFFFFC\<rparr>"

theorem checkpoint_roundtrip_witness:
  "\<exists>w1. checkpoint_save ''s'' sample_state no_files = (True, w1)
     \<and> checkpoint_load ''s'' w1 = (Some sample_state, w1)"
proof -
  have s: "checkpoint_save ''s'' sample_state no_files
      = (True, write_file ''s'' (state_bytes sample_state) no_files)"
    by (simp add: checkpoint_save_def no_files_def Let_def)
  have "length (ck_regs sample_state) = 8" by (simp add: sample_state_def)
  from checkpoint_roundtrip [OF s this] s show ?thesis by blast
qed



text \<open>Loading is injective on the part of the file that it reads.\<close>

lemma le_bytes_of_le_bytes: "length bs = 4 \<Longrightarrow> le_bytes 4 (of_le_bytes bs :: u32) = bs"
proof (rule nth_equalityI)
  fix i assume len: "length bs = 4" and "i < length (le_bytes 4 (of_le_bytes bs :: u32))"
  then have i: "i < 4" by simp
  have "bit (ucast (drop_bit (8 * i) (of_le_bytes bs :: u32)) :: u8) k = bit (bs ! i) k" if "k < 8" for k
    using i that len by (simp add: bit_simps bit_of_le_bytes)
  then show "le_bytes 4 (of_le_bytes bs :: u32) ! i = bs ! i"
    using i by (intro bit_word_eqI) (simp add: le_bytes_def)
qed simp

end
