(* ===== verification/Debugger.thy ===== *)
theory Debugger
  imports Commands Checkpoint Undo
begin

text \<open>
  The interactive debugger of \<open>src/main.cpp\<close>: the snapshot ring and the sink that fills it, the
  disassembler, and the commands of the read-eval-print loop.
\<close>

section \<open>Time travel\<close>

text \<open>
  The two steps that \<open>back\<close> and the rewind benchmarks share: undoing the deltas of the snapshots
  \<open>lo + 1 .. hi\<close> newest first, and restoring the architectural state of a snapshot.
\<close>

definition undo_range :: "(nat \<Rightarrow> MemDelta list) \<Rightarrow> nat \<Rightarrow> nat \<Rightarrow> mem \<Rightarrow> mem" where
  "undo_range deltas_at lo hi m = fold (\<lambda>k m. undo_deltas (deltas_at k) m) (rev [lo + 1..<hi + 1]) m"

definition restore_snapshot :: "Snapshot \<Rightarrow> VMState \<Rightarrow> VMState" where
  "restore_snapshot tgt vs = vs\<lparr>cycle_count := s_cycle_count tgt,
     regs := map (\<lambda>i. s_regs tgt ! i) [0..<8], pc := s_pc tgt, sp := s_sp tgt,
     flags := s_flags tgt, halted := s_halted tgt\<rparr>"

text \<open>\<open>deque::resize\<close>: drops from the end, or appends default elements.\<close>

definition resize :: "'a \<Rightarrow> nat \<Rightarrow> 'a list \<Rightarrow> 'a list" where
  "resize z n xs = take n xs @ replicate (n - length xs) z"

text \<open>
  The history push of a sink: anything beyond the current position is forgotten, the new entry is
  appended, and the oldest one leaves when the capacity is exceeded.
\<close>

definition ring_push :: "nat \<Rightarrow> 'a \<Rightarrow> 'a \<Rightarrow> 'a list \<times> nat \<Rightarrow> 'a list \<times> nat" where
  "ring_push cap z s r = (case r of (ring, history_index) \<Rightarrow>
     let ring = resize z (history_index + 1) ring @ [s]
     in if length ring > cap then (tl ring, history_index) else (ring, history_index + 1))"

section \<open>The state of a session\<close>

record ReplSnapshot =
  rs_core :: Snapshot
  rs_cursor :: nat

definition ReplSnapshot_init :: ReplSnapshot where
  "ReplSnapshot_init = \<lparr>rs_core = Snapshot_init, rs_cursor = 0\<rparr>"

record CmdDebug =
  d_reader :: "TraceReader option"
  d_cursor :: nat
  d_replay_mode :: bool
  d_trace_path :: string
  d_target_cycle :: u64
  d_breakpoints :: "u32 set"
  d_ring :: "ReplSnapshot list"
  d_history_index :: nat

definition UINT64_MAX :: u64 where "UINT64_MAX = - 1"
definition kRingCap :: nat where "kRingCap = 256"

definition CmdDebug_init :: CmdDebug where
  "CmdDebug_init = \<lparr>d_reader = None, d_cursor = 0, d_replay_mode = False, d_trace_path = [],
     d_target_cycle = UINT64_MAX, d_breakpoints = {}, d_ring = [], d_history_index = 0\<rparr>"

text \<open>What the closures of a session capture: the console, the generator and the session itself.\<close>

type_synonym dbg = "world \<times> mt19937 \<times> CmdDebug"

definition say :: "string \<Rightarrow> dbg \<Rightarrow> dbg" where
  "say s x = (case x of (w, g, d) \<Rightarrow> (print_out s w, g, d))"

definition complain :: "string \<Rightarrow> dbg \<Rightarrow> dbg" where
  "complain s x = (case x of (w, g, d) \<Rightarrow> (print_err s w, g, d))"

definition upd_debug :: "(CmdDebug \<Rightarrow> CmdDebug) \<Rightarrow> dbg \<Rightarrow> dbg" where
  "upd_debug f x = (case x of (w, g, d) \<Rightarrow> (w, g, f d))"

definition the_debug :: "dbg \<Rightarrow> CmdDebug" where
  "the_debug x = (case x of (w, g, d) \<Rightarrow> d)"

section \<open>Hooks\<close>

definition debug_in :: "u64 \<Rightarrow> dbg \<Rightarrow> (TraceMismatch + u32) \<times> dbg" where
  "debug_in cycle x = (case x of (w, g, d) \<Rightarrow>
     case host_in cycle (w, g) of (v, w, g) \<Rightarrow> (v, w, g, d))"

definition debug_rand :: "u64 \<Rightarrow> dbg \<Rightarrow> (TraceMismatch + u32) \<times> dbg" where
  "debug_rand cycle x = (case x of (w, g, d) \<Rightarrow>
     case host_rand cycle (w, g) of (v, w, g) \<Rightarrow> (v, w, g, d))"

definition debug_consume :: "TraceReader \<Rightarrow> u8 \<Rightarrow> u64 \<Rightarrow> dbg \<Rightarrow> (TraceMismatch + u32) \<times> dbg" where
  "debug_consume reader op cycle x = (case x of (w, g, d) \<Rightarrow>
     case consume reader cycle op (d_cursor d) of (v, cursor) \<Rightarrow> (v, w, g, d\<lparr>d_cursor := cursor\<rparr>))"

definition debug_observer :: "u64 \<Rightarrow> u8 \<Rightarrow> u32 \<Rightarrow> dbg \<Rightarrow> dbg" where
  "debug_observer cycle op v = say (trace_line cycle op v)"

definition debug_replay_hooks :: "TraceReader \<Rightarrow> dbg IOHooks" where
  "debug_replay_hooks reader = \<lparr>on_nondeterministic = Some debug_observer,
     io_in = Some (debug_consume reader OP_IN), io_rand = Some (debug_consume reader OP_RAND)\<rparr>"

section \<open>The sink\<close>

definition debug_sink :: "dbg SnapshotSink" where
  "debug_sink vs s x = (case x of (w, g, d) \<Rightarrow>
     let halt_pc = s_pc s - 4;
         (req, w, d) =
           (if d_target_cycle d \<noteq> UINT64_MAX \<and> s_cycle_count s \<ge> d_target_cycle d then
              (Some HALT_STEP,
               print_out (''stepped to cycle='' @ fmt_u64 (s_cycle_count s) @ '' pc=0x'' @
                 fmt_08x halt_pc @ nl) w,
               d\<lparr>d_target_cycle := UINT64_MAX\<rparr>)
            else if halt_pc \<in> d_breakpoints d then
              (Some HALT_BREAKPOINT,
               print_out (nl @ ''*** Breakpoint 0x'' @ fmt_08x halt_pc @ '' hit ***'' @ nl @
                 ''  cycles : '' @ fmt_u64 (s_cycle_count s) @ nl @
                 ''  pc     : 0x'' @ fmt_08x halt_pc @ nl) w,
               d)
            else (None, w, d));
         rs = \<lparr>rs_core = s, rs_cursor = (if d_replay_mode d then d_cursor d else 0)\<rparr>;
         (ring, h) = ring_push kRingCap ReplSnapshot_init rs (d_ring d, d_history_index d)
     in (req, w, g, d\<lparr>d_ring := ring, d_history_index := h\<rparr>))"

definition install_debug_sink :: "dbg VM \<Rightarrow> dbg VM" where
  "install_debug_sink vm = set_snapshot_sink (Some debug_sink) (set_snapshot_interval 1 vm)"

section \<open>Looking at the machine\<close>

definition disassemble_one :: "'w VM \<Rightarrow> u32 \<Rightarrow> string" where
  "disassemble_one vm a = (
     let addr = a AND MEM_MASK;
         b0 = ucast (vm_mem vm addr);
         b1 = ucast (vm_mem vm ((addr + 1) AND MEM_MASK));
         b2 = ucast (vm_mem vm ((addr + 2) AND MEM_MASK));
         b3 = ucast (vm_mem vm ((addr + 3) AND MEM_MASK));
         instr = b0 OR push_bit 8 b1 OR push_bit 16 b2 OR push_bit 24 b3;
         op = decode_op instr;
         dst = fmt_u32 (decode_dst instr);
         src = fmt_u32 (decode_src instr);
         imm = fmt_x (unat (decode_imm instr))
     in if op = ucast OP_HALT then ''HALT''
        else if op = ucast OP_LOAD then ''LOAD  R'' @ dst @ '', [0x'' @ imm @ '']''
        else if op = ucast OP_STORE then ''STORE R'' @ dst @ '', [0x'' @ imm @ '']''
        else if op = ucast OP_ADD then ''ADD   R'' @ dst @ '', R'' @ src
        else if op = ucast OP_SUB then ''SUB   R'' @ dst @ '', R'' @ src
        else if op = ucast OP_MUL then ''MUL   R'' @ dst @ '', R'' @ src
        else if op = ucast OP_DIV then ''DIV   R'' @ dst @ '', R'' @ src
        else if op = ucast OP_JUMP then ''JUMP  0x'' @ imm
        else if op = ucast OP_JNZ then ''JNZ   R'' @ dst @ '', 0x'' @ imm
        else if op = ucast OP_IN then ''IN    R'' @ dst
        else if op = ucast OP_RAND then ''RAND  R'' @ dst
        else if op = ucast OP_LI then ''LI    R'' @ dst @ '', 0x'' @ imm
        else ''???  opcode 0x'' @ pad_left 2 (CHR ''0'') (fmt_x (unat op)) @ '' (unrecognized)'')"

definition cmd_debug_where :: "dbg cfg \<Rightarrow> dbg cfg" where
  "cmd_debug_where c = (case c of (vm, x) \<Rightarrow>
     let s = vm_state vm;
         visible_pc = (if halted s = HALT_RUNNING then pc s else pc s - 4)
     in (vm, say (''where'' @ nl @ ''  pc  : 0x'' @ fmt_08x visible_pc @ nl @ ''  dec : '' @
           disassemble_one vm visible_pc @ nl) x))"

definition cmd_debug_regs :: "dbg cfg \<Rightarrow> dbg cfg" where
  "cmd_debug_regs c = (case c of (vm, x) \<Rightarrow>
     (vm, say (dump_state (vm_state vm) (halted (vm_state vm))) x))"

definition cmd_debug_bp_list :: "dbg cfg \<Rightarrow> dbg cfg" where
  "cmd_debug_bp_list c = (case c of (vm, x) \<Rightarrow>
     let bps = d_breakpoints (the_debug x)
     in (vm, say (if bps = {} then ''(no breakpoints set)'' @ nl
           else ''breakpoints:'' @ nl @
             concat (map (\<lambda>p. ''  0x'' @ fmt_08x p @ nl) (sorted_list_of_set bps))) x))"

section \<open>Arguments and resuming\<close>

definition parse_numeric_arg :: "string \<Rightarrow> u64 option" where
  "parse_numeric_arg arg = (
     let tok = c_str arg in
     if tok = [] then None
     else
       let hex_prefix = (length tok \<ge> 2 \<and> tok ! 0 = CHR ''0''
             \<and> (tok ! 1 = CHR ''x'' \<or> tok ! 1 = CHR ''X''));
           base = (if hex_prefix then 16 else 10);
           digits = (if hex_prefix then drop 2 tok else tok)
       in if digits = [] then None
          else case strtoul base digits of (v, rest) \<Rightarrow>
            if rest = digits \<or> rest \<noteq> [] then None else Some v)"

datatype ResumeResult = Resumed | Refused

definition debug_resume :: "dbg cfg \<Rightarrow> ResumeResult \<times> dbg cfg" where
  "debug_resume c = (case c of (vm, x) \<Rightarrow>
     let s = vm_state vm in
     if halted s = HALT_RUNNING then (Resumed, vm, x)
     else if halted s \<in> {HALT_BREAKPOINT, HALT_STEP, HALT_CHECKPOINT}
       then (Resumed, set_state (s\<lparr>halted := HALT_RUNNING\<rparr>) vm, x)
     else (Refused, vm, complain (''debug: cannot resume halt reason '' @ fmt_u32 (halted s) @
             '' (only soft halts resume; reload the program to retry)'' @ nl) x))"

end
