(* ===== verification/Repl.thy ===== *)
theory Repl
  imports Debugger
begin

text \<open>
  The read-eval-print loop of \<open>src/main.cpp\<close> (\<open>cmd_debug_run\<close>) and the command \<open>debug\<close>. A command
  answers with the status that the loop acts on, or \<open>None\<close> when the machine it started never halts.
\<close>

datatype DebugStatus = Debug_Continue | Debug_Exit

section \<open>Driving the machine\<close>

definition debug_divergence_text :: "TraceMismatch \<Rightarrow> string" where
  "debug_divergence_text d =
     nl @ ''*** Divergence Detected! ***'' @ nl @
     ''  expected at cycle='' @ fmt_u64 (expected_cycle d) @ ''  opcode=0x'' @
       fmt_02X (expected_op d) @ nl @
     (if premature_eof d then []
      else ''  trace  frame#'' @ pad_right 4 (CHR '' '') (fmt_u (frame_idx d)) @ ''  opcode=0x'' @
        fmt_02X (actual_op d) @ ''  cycle='' @ fmt_u64 (actual_cycle d) @ nl) @
     ''debug: replay trace diverged, exiting'' @ nl"

definition debug_drive :: "dbg cfg \<Rightarrow> (DebugStatus \<times> dbg cfg) option" where
  "debug_drive c = (case vm_run c of
     None \<Rightarrow> None
   | Some (Thrown e, vm, x) \<Rightarrow> Some (Debug_Exit, vm, complain (debug_divergence_text e) x)
   | Some (Returned r, vm, x) \<Rightarrow> Some (Debug_Continue, vm, x))"

text \<open>The optional count of \<open>step\<close> and \<open>back\<close>: \<open>Inl\<close> is the complaint about a malformed one.\<close>

definition count_arg :: "string list \<Rightarrow> string + u64" where
  "count_arg tok = (
     if length tok \<ge> 2 then
       case parse_numeric_arg (tok ! 1) of
         None \<Rightarrow> Inl (''debug: '' @ tok ! 0 @ '' expects a non-negative integer (got '' @ sq @
                   c_str (tok ! 1) @ sq @ '')'' @ nl)
       | Some n \<Rightarrow> Inr n
     else Inr 1)"

definition debug_step :: "string list \<Rightarrow> dbg cfg \<Rightarrow> (DebugStatus \<times> dbg cfg) option" where
  "debug_step tok c = (case c of (vm, x) \<Rightarrow>
     (case count_arg tok of
        Inl msg \<Rightarrow> Some (Debug_Continue, vm, complain msg x)
      | Inr n \<Rightarrow>
          if n = 0 then Some (Debug_Continue, vm, say (''debug: step 0 is a no-op'' @ nl) x)
          else (case debug_resume (vm, x) of
             (Refused, c) \<Rightarrow> Some (Debug_Continue, c)
           | (Resumed, vm, x) \<Rightarrow>
               debug_drive (vm, upd_debug (\<lambda>d. d\<lparr>d_target_cycle := cycle_count (vm_state vm) + n\<rparr>) x))))"

definition debug_continue :: "dbg cfg \<Rightarrow> (DebugStatus \<times> dbg cfg) option" where
  "debug_continue c = (case debug_resume c of
     (Refused, c) \<Rightarrow> Some (Debug_Continue, c)
   | (Resumed, vm, x) \<Rightarrow>
       (case debug_drive (vm, upd_debug (\<lambda>d. d\<lparr>d_target_cycle := UINT64_MAX\<rparr>) x) of
          None \<Rightarrow> None
        | Some (Debug_Exit, c) \<Rightarrow> Some (Debug_Exit, c)
        | Some (Debug_Continue, vm, x) \<Rightarrow>
            Some (Debug_Continue, vm, say (''continue: vm halted with reason='' @
              fmt_u32 (halted (vm_state vm)) @ '' (cycles='' @
              fmt_u64 (cycle_count (vm_state vm)) @ '')'' @ nl) x)))"

section \<open>back\<close>

definition debug_back :: "string list \<Rightarrow> dbg cfg \<Rightarrow> (DebugStatus \<times> dbg cfg) option" where
  "debug_back tok c = (case c of (vm, x) \<Rightarrow>
     (case count_arg tok of
        Inl msg \<Rightarrow> Some (Debug_Continue, vm, complain msg x)
      | Inr n \<Rightarrow>
          let d = the_debug x in
          if n = 0 then Some (Debug_Continue, vm, say (''debug: back 0 is a no-op'' @ nl) x)
          else if unat n > d_history_index d then
            Some (Debug_Continue, vm, complain (''debug: cannot rewind '' @ fmt_u64 n @
              '' cycle(s); ring history only holds '' @ fmt_u (d_history_index d) @
              '' cycle(s) back'' @ nl) x)
          else
            let target_idx = d_history_index d - unat n;
                vm = vm\<lparr>vm_mem := undo_range (\<lambda>i. s_deltas (rs_core (d_ring d ! i))) target_idx
                       (d_history_index d) (vm_mem vm)\<rparr>;
                tgt = d_ring d ! target_idx;
                vs = restore_snapshot (rs_core tgt) (vm_state vm);
                vm = set_state vs vm;
                x = (if d_replay_mode d then upd_debug (\<lambda>d. d\<lparr>d_cursor := rs_cursor tgt\<rparr>) x else x);
                x = upd_debug (\<lambda>d. d\<lparr>d_history_index := target_idx\<rparr>) x
            in Some (Debug_Continue, vm, say (''back '' @ fmt_u64 n @ '' cycle(s); now at cycle='' @
                 fmt_u64 (cycle_count vs) @ '' pc=0x'' @ fmt_08x (pc vs) @ '' halted='' @
                 fmt_u32 (halted vs) @ nl) x)))"

section \<open>Breakpoints\<close>

text \<open>The address of a breakpoint: inside the arena and aligned.\<close>

definition bp_addr :: "u64 \<Rightarrow> u32" where
  "bp_addr parsed = ucast parsed AND MEM_MASK AND 0xFFFFFFFC"

definition debug_breakpoint :: "string list \<Rightarrow> dbg cfg \<Rightarrow> (DebugStatus \<times> dbg cfg) option" where
  "debug_breakpoint tok c = (case c of (vm, x) \<Rightarrow>
     if length tok = 1 then Some (Debug_Continue, cmd_debug_bp_list (vm, x))
     else if length tok = 2 \<and> tok ! 1 = ''-d'' then
       Some (Debug_Continue, vm,
         complain (''debug: breakpoint -d requires an address after the flag'' @ nl) x)
     else if length tok = 3 \<and> tok ! 1 = ''-d'' then
       (case parse_numeric_arg (tok ! 2) of
          None \<Rightarrow> Some (Debug_Continue, vm,
            complain (''debug: breakpoint -d expects a non-negative integer (got '' @ sq @
              c_str (tok ! 2) @ sq @ '')'' @ nl) x)
        | Some parsed \<Rightarrow>
            (let addr = bp_addr parsed;
                 removed = (addr \<in> d_breakpoints (the_debug x));
                 x = upd_debug (\<lambda>d. d\<lparr>d_breakpoints := d_breakpoints d - {addr}\<rparr>) x
             in Some (Debug_Continue, vm,
                  say ((if removed then ''breakpoint removed: 0x'' else ''breakpoint not present: 0x'') @
                    fmt_08x addr @ nl) x)))
     else if length tok = 2 then
       (case parse_numeric_arg (tok ! 1) of
          None \<Rightarrow> Some (Debug_Continue, vm,
            complain (''debug: breakpoint expects a non-negative integer (got '' @ sq @
              c_str (tok ! 1) @ sq @ '')'' @ nl) x)
        | Some parsed \<Rightarrow>
            (let addr = bp_addr parsed;
                 x = upd_debug (\<lambda>d. d\<lparr>d_breakpoints := insert addr (d_breakpoints d)\<rparr>) x
             in Some (Debug_Continue, vm, say (''breakpoint set: 0x'' @ fmt_08x addr @ nl) x)))
     else Some (Debug_Continue, vm, complain (''debug: too many args for breakpoint'' @ nl) x))"

section \<open>save\<close>

definition debug_checkpoint :: "VMState \<Rightarrow> CmdDebug \<Rightarrow> CheckpointState" where
  "debug_checkpoint vs d = \<lparr>ck_frame_index = (if d_replay_mode d then of_nat (d_cursor d) else 0),
     ck_halted = halted vs, ck_flags = flags vs, ck_regs = map (\<lambda>i. regs vs ! i) [0..<8],
     ck_pc = (if halted vs = HALT_RUNNING then pc vs else pc vs - 4), ck_sp = sp vs\<rparr>"

definition debug_save :: "string list \<Rightarrow> dbg cfg \<Rightarrow> (DebugStatus \<times> dbg cfg) option" where
  "debug_save tok c = (case c of (vm, w, g, d) \<Rightarrow>
     if length tok \<noteq> 2 then
       Some (Debug_Continue, vm, complain (''debug: save requires a path argument'' @ nl) (w, g, d))
     else
       let state_path = c_str (tok ! 1);
           cstate = debug_checkpoint (vm_state vm) d
       in (case checkpoint_save state_path cstate w of
             (False, w) \<Rightarrow> Some (Debug_Continue, vm,
               complain (''debug: save: failed to write '' @ state_path @ nl) (w, g, d))
           | (True, w) \<Rightarrow> Some (Debug_Continue, vm,
               say (''save: wrote '' @ state_path @ '' (frame_index='' @
                 fmt_u32 (ck_frame_index cstate) @ '', pc=0x'' @ fmt_08x (ck_pc cstate) @ '')'' @ nl)
                 (w, g, d))))"

section \<open>The loop\<close>

definition help_text :: string where
  "help_text =
     ''commands:'' @ nl @
     ''  step [N]           execute N cycles (default 1)'' @ nl @
     ''  continue           run until halt or breakpoint'' @ nl @
     ''  back [N]           rewind N cycles (default 1) via in-memory snapshot ring (depth=256)'' @ nl @
     ''  regs               print regs/pc/sp/flags in dump_state layout'' @ nl @
     ''  where              disassemble current instruction at pc'' @ nl @
     ''  breakpoint         list all breakpoints'' @ nl @
     ''  breakpoint <addr>  set a breakpoint at <addr> (hex)'' @ nl @
     ''  breakpoint -d <a>  delete a breakpoint'' @ nl @
     ''  save <path>        dump a .state checkpoint of the current state'' @ nl @
     ''  quit | q | exit    exit the debugger'' @ nl @
     ''  help | ?           print this list'' @ nl"

definition debug_command :: "string list \<Rightarrow> dbg cfg \<Rightarrow> (DebugStatus \<times> dbg cfg) option" where
  "debug_command tok c = (case c of (vm, x) \<Rightarrow>
     let cmd = tok ! 0 in
     if cmd = ''help'' \<or> cmd = ''?'' then Some (Debug_Continue, vm, say help_text x)
     else if cmd = ''step'' then debug_step tok c
     else if cmd = ''back'' then debug_back tok c
     else if cmd = ''continue'' \<or> cmd = ''c'' then debug_continue c
     else if cmd = ''regs'' then Some (Debug_Continue, cmd_debug_regs c)
     else if cmd = ''where'' then Some (Debug_Continue, cmd_debug_where c)
     else if cmd = ''breakpoint'' \<or> cmd = ''bp'' then debug_breakpoint tok c
     else if cmd = ''save'' then debug_save tok c
     else if cmd = ''quit'' \<or> cmd = ''exit'' \<or> cmd = ''q''
       then Some (Debug_Exit, vm, say (''debug: goodbye'' @ nl) x)
     else Some (Debug_Continue, vm, complain (''debug: unknown command '' @ sq @ c_str cmd @ sq @
       '' (type '' @ sq @ ''help'' @ sq @ '')'' @ nl) x))"

text \<open>
  The stream the commands come from: \<open>Some\<close> text left of a batch script, or the standard input,
  which the \<open>IN\<close> instruction reads as well.
\<close>

definition read_line :: "string option \<times> dbg cfg \<Rightarrow> (string \<times> string option \<times> dbg cfg) option" where
  "read_line r = (case r of (src, vm, w, g, d) \<Rightarrow>
     case src of
       Some s \<Rightarrow> map_option (\<lambda>(line, rest). (line, Some rest, vm, w, g, d)) (get_line s)
     | None \<Rightarrow> map_option (\<lambda>(line, rest). (line, None, vm, w\<lparr>stdin := rest\<rparr>, g, d))
                 (get_line (stdin w)))"

definition trim_line :: "string \<Rightarrow> string" where
  "trim_line line = (
     let line = rev (dropWhile (\<lambda>c. c = CHR 0x0D \<or> c = CHR 0x0A) (rev line))
     in rev (dropWhile isspace (rev (dropWhile isspace line))))"

text \<open>One line: comments and blank lines do nothing, a command is echoed and dispatched.\<close>

definition repl_line :: "string \<Rightarrow> dbg cfg \<Rightarrow> (DebugStatus \<times> dbg cfg) option" where
  "repl_line line c = (case c of (vm, x) \<Rightarrow>
     let trimmed = trim_line line in
     if trimmed = [] \<or> hd trimmed = CHR ''#'' then Some (Debug_Continue, vm, x)
     else
       let x = say (''(retrovm) '' @ c_str trimmed @ nl) x;
           tok = split_ws trimmed
       in if tok = [] then Some (Debug_Continue, vm, x) else debug_command tok (vm, x))"

definition prompt :: "string option \<Rightarrow> dbg cfg \<Rightarrow> dbg cfg" where
  "prompt src c = (case c of (vm, x) \<Rightarrow> (vm, if src = None then say ''(retrovm) '' x else x))"

definition repl_iter :: "string option \<times> dbg cfg \<Rightarrow>
    (string option \<times> dbg cfg) + (DebugStatus \<times> dbg cfg) option" where
  "repl_iter r = (case r of (src, c) \<Rightarrow>
     case read_line (src, prompt src c) of
       None \<Rightarrow> Inr (Some (Debug_Continue, prompt src c))
     | Some (line, src, c) \<Rightarrow>
         (case repl_line line c of
            None \<Rightarrow> Inr None
          | Some (Debug_Continue, c) \<Rightarrow> Inl (src, c)
          | Some (Debug_Exit, c) \<Rightarrow> Inr (Some (Debug_Exit, c))))"

definition debug_banner :: "string \<Rightarrow> CmdDebug \<Rightarrow> string" where
  "debug_banner bin_path d =
     ''=== RetroVM debug ==='' @ nl @
     ''  bin        : '' @ bin_path @ nl @
     (if d_replay_mode d then
        ''  mode       : replay (trace='' @
          (if d_trace_path d = [] then ''(uninitialised?)'' else d_trace_path d) @ '', '' @
          fmt_u (case d_reader d of Some r \<Rightarrow> rd_frame_count r | None \<Rightarrow> 0) @ '' frame(s))'' @ nl
      else ''  mode       : fresh (stdin IN, mt19937 RAND)'' @ nl) @
     ''  type '' @ sq @ ''help'' @ sq @ '' for the command list'' @ nl"

definition cmd_debug_run :: "string \<Rightarrow> string option \<times> dbg cfg \<Rightarrow>
    (DebugStatus \<times> dbg cfg) option" where
  "cmd_debug_run bin_path r = (case r of (src, vm, x) \<Rightarrow>
     case run_loop repl_iter (src, vm, say (debug_banner bin_path (the_debug x)) x) of
       None \<Rightarrow> None
     | Some result \<Rightarrow> result)"

section \<open>The command\<close>

text \<open>The session before the first command: hooks, sink and the baseline in the ring.\<close>

definition debug_session :: "TraceReader option \<Rightarrow> string \<Rightarrow> dbg VM \<Rightarrow> world \<Rightarrow> mt19937 \<Rightarrow> dbg cfg" where
  "debug_session reader trace_path vm w g = (
     let (vm, d) = (case reader of
             Some rd \<Rightarrow> (set_io_hooks (debug_replay_hooks rd) vm,
               CmdDebug_init\<lparr>d_reader := Some rd, d_cursor := 0, d_replay_mode := True,
                 d_trace_path := trace_path\<rparr>)
           | None \<Rightarrow> (vm, CmdDebug_init\<lparr>d_replay_mode := False\<rparr>));
         vm = install_debug_sink vm;
         (core, vm) = take_snapshot vm;
         baseline = \<lparr>rs_core = core, rs_cursor = (if d_replay_mode d then d_cursor d else 0)\<rparr>
     in (vm, w, g, d\<lparr>d_ring := d_ring d @ [baseline], d_history_index := 0\<rparr>))"

definition cmd_debug :: "u32 \<Rightarrow> string \<Rightarrow> string \<Rightarrow> string \<Rightarrow> world \<Rightarrow> (outcome \<times> world) option" where
  "cmd_debug entropy bin trace_path batch_path w = (case read_file bin w of
     Inl w \<Rightarrow> Some (Exit 1, w)
   | Inr bs \<Rightarrow>
      (case load_program bs (VM_new debug_in debug_rand) of
         (False, _) \<Rightarrow> Some (Exit 1, print_err (''retrovm debug: '' @ too_large) w)
       | (True, vm) \<Rightarrow>
          (case (if trace_path = [] then Inr None
                 else map_sum id Some (TraceReader_open trace_path w)) of
             Inl err \<Rightarrow> Some (Uncaught err, w)
           | Inr reader \<Rightarrow>
              (let c = debug_session reader trace_path vm w (mt_init entropy);
                   src = (if batch_path = [] then Inr None
                      else case files w batch_path of
                        None \<Rightarrow> Inl (print_err (''retrovm debug: cannot open batch script '' @ sq @
                                  batch_path @ sq @ nl) w)
                      | Some bs \<Rightarrow> Inr (Some (map (\<lambda>b. char_of (unat b)) bs)))
               in case src of
                    Inl w \<Rightarrow> Some (Exit 1, w)
                  | Inr src \<Rightarrow> map_option (\<lambda>(rc, vm, w, g, d). (Exit 0, w)) (cmd_debug_run bin (src, c))))))"

end
