(* ===== verification/Session.thy ===== *)
theory Session
  imports Repl Runs
begin

text \<open>
  The invariant of a debugging session and what one instruction, one run and one command do to it:
  the snapshot ring as a history of the run, the numbers on the command line, which commands can
  fail to return. The properties built on this are in \<open>TimeTravel\<close>.
\<close>

section \<open>The ring\<close>

text \<open>A push of a ring within its bounds.\<close>

definition ring_ok :: "'a list \<times> nat \<Rightarrow> bool" where
  "ring_ok r \<longleftrightarrow> snd r < length (fst r) \<and> length (fst r) \<le> kRingCap"

lemma ring_push_eq:
  assumes "ring_ok (ring, h)"
  shows "ring_push kRingCap z s (ring, h) =
    (if h = 255 then (tl (take (h + 1) ring @ [s]), h) else (take (h + 1) ring @ [s], h + 1))"
  using assms by (auto simp: ring_push_def ring_ok_def resize_def kRingCap_def Let_def)

lemma ring_bounds: "ring_ok (ring, h) \<Longrightarrow> h < length ring \<and> length ring \<le> 256"
  by (simp add: ring_ok_def kRingCap_def)

lemma ring_okI: "h < length ring \<Longrightarrow> length ring \<le> 256 \<Longrightarrow> ring_ok (ring, h)"
  by (simp add: ring_ok_def kRingCap_def)

lemma ring_push_ok: "ring_ok r \<Longrightarrow> ring_ok (ring_push kRingCap z s r)"
  by (cases r) (auto simp only: ring_push_eq dest!: ring_bounds intro!: ring_okI split: if_splits, auto)

lemma ring_push_top:
  assumes "ring_ok r"
  shows "fst (ring_push kRingCap z s r) ! snd (ring_push kRingCap z s r) = s"
  using assms by (cases r) (auto simp: ring_push_eq nth_append nth_tl dest: ring_bounds)

lemma ring_push_below:
  assumes "ring_ok r" and "Suc k \<le> snd (ring_push kRingCap z s r)"
  shows "fst (ring_push kRingCap z s r) ! (snd (ring_push kRingCap z s r) - Suc k)
    = fst r ! (snd r - k)"
proof -
  obtain ring h where r: "r = (ring, h)" by (cases r)
  with assms(1) have b: "h < length ring" "length ring \<le> 256" by (auto dest: ring_bounds)
  show ?thesis
  proof (cases "h = 255")
    case True
    have "k \<le> 254 \<Longrightarrow> Suc (254 - k) = 255 - k" by simp
    moreover have "255 - k < length ring" using b True by simp
    ultimately show ?thesis
      using assms b True by (auto simp: r ring_push_eq nth_append nth_tl)
  next
    case False
    then show ?thesis
      using assms b by (auto simp: r ring_push_eq nth_append)
  qed
qed

lemma ring_push_index:
  "ring_ok r \<Longrightarrow> snd (ring_push kRingCap z s r) = min 255 (snd r + 1)"
  by (cases r) (auto simp: ring_push_eq dest: ring_bounds)

text \<open>Undoing the newest \<open>k\<close> entries.\<close>

definition undo_last :: "nat \<Rightarrow> ReplSnapshot list \<times> nat \<Rightarrow> mem \<Rightarrow> mem" where
  "undo_last k r m = undo_range (\<lambda>i. s_deltas (rs_core (fst r ! i))) (snd r - k) (snd r) m"

lemma undo_range_top:
  "lo < hi \<Longrightarrow> undo_range f lo hi m = undo_range f lo (hi - 1) (undo_deltas (f hi) m)"
  by (cases hi) (simp_all add: undo_range_def)

lemma undo_range_cong:
  "hi - lo = hi' - lo' \<Longrightarrow> (\<And>j. j < hi - lo \<Longrightarrow> f (hi - j) = f' (hi' - j)) \<Longrightarrow>
     undo_range f lo hi m = undo_range f' lo' hi' m"
proof (induction "hi - lo" arbitrary: hi hi' m)
  case 0
  then show ?case by (simp add: undo_range_def)
next
  case (Suc n)
  have lt: "lo < hi" "lo' < hi'" using Suc.hyps(2) Suc.prems(1) by linarith+
  have "undo_range f lo (hi - 1) m' = undo_range f' lo' (hi' - 1) m'" for m'
  proof (rule Suc.hyps(1))
    fix j assume "j < hi - 1 - lo"
    then show "f (hi - 1 - j) = f' (hi' - 1 - j)"
      using Suc.prems(2) [of "Suc j"] by simp
  qed (use Suc.hyps(2) Suc.prems(1) in linarith)+
  moreover have "f hi = f' hi'" using Suc.prems(2) [of 0] lt by simp
  ultimately show ?case by (simp add: undo_range_top lt)
qed

lemma undo_last_0 [simp]: "undo_last 0 r m = m"
  by (simp add: undo_last_def undo_range_def)

lemma undo_last_push:
  assumes ok: "ring_ok r" and k: "Suc k \<le> snd (ring_push kRingCap z s r)" and "k \<le> snd r"
  shows "undo_last (Suc k) (ring_push kRingCap z s r) m
    = undo_last k r (undo_deltas (s_deltas (rs_core s)) m)"
proof -
  let ?r = "ring_push kRingCap z s r"
  have "undo_last (Suc k) ?r m = undo_range (\<lambda>i. s_deltas (rs_core (fst ?r ! i)))
      (snd ?r - Suc k) (snd ?r - 1) (undo_deltas (s_deltas (rs_core s)) m)"
    using k by (simp add: undo_last_def undo_range_top ring_push_top [OF ok])
  also have "\<dots> = undo_last k r (undo_deltas (s_deltas (rs_core s)) m)"
    unfolding undo_last_def
  proof (rule undo_range_cong)
    fix j assume "j < snd ?r - 1 - (snd ?r - Suc k)"
    then show "s_deltas (rs_core (fst ?r ! (snd ?r - 1 - j))) = s_deltas (rs_core (fst r ! (snd r - j)))"
      using ring_push_below [OF ok, of j z s] k by (simp add: diff_diff_left)
  qed (use k assms(3) in simp)
  finally show ?thesis .
qed

section \<open>The session invariant\<close>

text \<open>The I/O hooks of a session; they change nothing of it but the replay cursor.\<close>

definition debug_io :: "CmdDebug \<Rightarrow> dbg IOHooks \<Rightarrow> bool" where
  "debug_io d io = (if d_replay_mode d
     then \<exists>rd. d_reader d = Some rd \<and> io = debug_replay_hooks rd
     else io = \<lparr>on_nondeterministic = None, io_in = Some debug_in, io_rand = Some debug_rand\<rparr>)"

definition ring_of :: "CmdDebug \<Rightarrow> ReplSnapshot list \<times> nat" where
  "ring_of d = (d_ring d, d_history_index d)"

definition debug_core :: "dbg cfg \<Rightarrow> bool" where
  "debug_core c = (case c of (vm, w, g, d) \<Rightarrow>
     vm_sink vm = Some debug_sink \<and> snap_interval (vm_state vm) = 1
     \<and> snap_timer (vm_state vm) = 1 \<and> length (regs (vm_state vm)) = 8
     \<and> debug_io d (vm_io vm) \<and> ring_ok (ring_of d))"

text \<open>The position a snapshot was taken at, in the code's record of it.\<close>

definition position :: "dbg cfg \<Rightarrow> ReplSnapshot" where
  "position c = (case c of (vm, w, g, d) \<Rightarrow>
     \<lparr>rs_core = snapshot_of (vm_state vm) (vm_deltas vm),
      rs_cursor = (if d_replay_mode d then d_cursor d else 0)\<rparr>)"

text \<open>What the sink does to the session, whether or not it stops the machine.\<close>

definition sink_request :: "CmdDebug \<Rightarrow> u64 \<Rightarrow> u32 \<Rightarrow> HaltReason option" where
  "sink_request d cycle npc = (
     if d_target_cycle d \<noteq> UINT64_MAX \<and> cycle \<ge> d_target_cycle d then Some HALT_STEP
     else if npc - 4 \<in> d_breakpoints d then Some HALT_BREAKPOINT else None)"

lemma debug_sink_effect:
  assumes "debug_sink vs s (w, g, d) = (req, w', g', d')"
  shows "req = sink_request d (s_cycle_count s) (s_pc s)" "g' = g"
    "d' = d\<lparr>d_target_cycle := (if req = Some HALT_STEP then UINT64_MAX else d_target_cycle d),
      d_ring := fst (ring_push kRingCap ReplSnapshot_init \<lparr>rs_core = s,
        rs_cursor = (if d_replay_mode d then d_cursor d else 0)\<rparr> (ring_of d)),
      d_history_index := snd (ring_push kRingCap ReplSnapshot_init \<lparr>rs_core = s,
        rs_cursor = (if d_replay_mode d then d_cursor d else 0)\<rparr> (ring_of d))\<rparr>"
    "files w' = files w" "stdin w' = stdin w" "stderr w' = stderr w" "fault w' = fault w"
  using assms
  by (auto simp: debug_sink_def sink_request_def ring_of_def Let_def const_defs split: prod.splits if_splits)

section \<open>One instruction of a session\<close>

text \<open>The session after the sink has seen the snapshot \<open>s\<close>.\<close>

definition pushed :: "CmdDebug \<Rightarrow> ReplSnapshot \<Rightarrow> HaltReason option \<Rightarrow> CmdDebug" where
  "pushed d s req = d\<lparr>
     d_target_cycle := (if req = Some HALT_STEP then UINT64_MAX else d_target_cycle d),
     d_ring := fst (ring_push kRingCap ReplSnapshot_init s (ring_of d)),
     d_history_index := snd (ring_push kRingCap ReplSnapshot_init s (ring_of d))\<rparr>"

lemma pushed_fields [simp]:
  "ring_of (pushed d s req) = ring_push kRingCap ReplSnapshot_init s (ring_of d)"
  "d_reader (pushed d s req) = d_reader d" "d_cursor (pushed d s req) = d_cursor d"
  "d_replay_mode (pushed d s req) = d_replay_mode d"
  "d_breakpoints (pushed d s req) = d_breakpoints d"
  by (simp_all add: pushed_def ring_of_def)

definition ticked :: "dbg VM \<Rightarrow> HaltReason option \<Rightarrow> dbg VM" where
  "ticked vm req = (advance vm)\<lparr>vm_state := (vm_state (advance vm))\<lparr>
     halted := (case req of None \<Rightarrow> halted (vm_state vm) | Some r \<Rightarrow> r), snap_timer := 1\<rparr>,
     vm_deltas := []\<rparr>"

lemma ticked_fields [simp]:
  "vm_mem (ticked vm req) = vm_mem vm" "vm_io (ticked vm req) = vm_io vm"
  "vm_sink (ticked vm req) = vm_sink vm" "vm_deltas (ticked vm req) = []"
  "vm_mode (ticked vm req) = vm_mode vm"
  "vm_state (ticked vm req) = (vm_state vm)\<lparr>pc := pc (vm_state vm) + 4,
     cycle_count := cycle_count (vm_state vm) + 1,
     halted := (case req of None \<Rightarrow> halted (vm_state vm) | Some r \<Rightarrow> r), snap_timer := 1\<rparr>"
  by (simp_all add: ticked_def)

lemma debug_tick:
  fixes vm :: "dbg VM"
  assumes core: "debug_core (vm, w, g, d)"
  defines "req \<equiv> sink_request d (cycle_count (vm_state vm) + 1) (pc (vm_state vm) + 4)"
  obtains w' where
    "snap_tick (advance vm, w, g, d) =
      ((case req of None \<Rightarrow> halted (vm_state vm) | Some r \<Rightarrow> r) \<noteq> HALT_RUNNING, ticked vm req, w', g,
       pushed d (position (advance vm, w, g, d)) req)"
    "files w' = files w" "stdin w' = stdin w" "stderr w' = stderr w" "fault w' = fault w"
proof -
  let ?s = "snapshot_of (vm_state (advance vm)) (vm_deltas (advance vm))"
  have sink: "vm_sink (advance vm) = Some debug_sink" "snap_interval (vm_state (advance vm)) = 1"
    "snap_timer (vm_state (advance vm)) = 1"
    using core by (simp_all add: debug_core_def)
  have halted: "halted (vm_state (advance vm)) = halted (vm_state vm)" by simp
  obtain q w' g' d' where e: "debug_sink ((vm_state (advance vm))\<lparr>snap_timer := 0\<rparr>) ?s (w, g, d)
      = (q, w', g', d')"
    by (metis prod_cases4)
  note eff = debug_sink_effect [OF e]
  have q: "q = req"
    unfolding req_def eff(1) by (simp add: snapshot_of_def)
  have "snap_tick (advance vm, w, g, d) =
      ((case req of None \<Rightarrow> halted (vm_state vm) | Some r \<Rightarrow> r) \<noteq> HALT_RUNNING, ticked vm req, w', g,
       pushed d (position (advance vm, w, g, d)) req)"
    using snap_tick_every [OF sink, of "(w, g, d)"] e eff(2,3)
    by (cases req) (simp_all add: q ticked_def pushed_def position_def halted Let_def del: advance_simps)
  then show thesis using that eff(4-7) by blast
qed

text \<open>The hooks of a session touch only the replay cursor of it.\<close>

lemma debug_hook_session:
  assumes "hook = debug_in \<or> hook = debug_rand \<or> hook = debug_consume rd OP_IN
    \<or> hook = debug_consume rd OP_RAND" and "hook cycle (w, g, d) = (v, w', g', d')"
  shows "d' = d\<lparr>d_cursor := d_cursor d'\<rparr>"
  using assms
  by (auto simp: debug_in_def debug_rand_def debug_consume_def split: prod.splits)

lemma exec_label_closures:
  assumes "l \<noteq> label_IN" "l \<noteq> label_RAND"
  shows "exec_label l ops (vm, x) = Inl (vm', x') \<Longrightarrow> x' = x"
    and "exec_label l ops (vm, x) = Inr (r, vm', x') \<Longrightarrow> x' = x"
  using assms
  by (cases l; cases ops; force simp: handler_defs Let_def split: if_splits)+

lemma do_IN_session:
  assumes io: "debug_io d (vm_io vm)"
  shows "do_IN ops (vm, w, g, d) = Inl (vm', w', g', d') \<Longrightarrow> d' = d\<lparr>d_cursor := d_cursor d'\<rparr>"
    and "do_IN ops (vm, w, g, d) = Inr (r, vm', w', g', d') \<Longrightarrow> d' = d\<lparr>d_cursor := d_cursor d'\<rparr>"
  using io
  by (cases ops; auto simp: do_IN_def access_defs Let_def observe_def debug_io_def
      debug_replay_hooks_def debug_observer_def say_def debug_in_def debug_rand_def debug_consume_def
      split: prod.splits sum.splits if_splits)+

lemma do_RAND_session:
  assumes io: "debug_io d (vm_io vm)"
  shows "do_RAND ops (vm, w, g, d) = Inl (vm', w', g', d') \<Longrightarrow> d' = d\<lparr>d_cursor := d_cursor d'\<rparr>"
    and "do_RAND ops (vm, w, g, d) = Inr (r, vm', w', g', d') \<Longrightarrow> d' = d\<lparr>d_cursor := d_cursor d'\<rparr>"
  using io
  by (cases ops; auto simp: do_RAND_def access_defs Let_def observe_def debug_io_def
      debug_replay_hooks_def debug_observer_def say_def debug_in_def debug_rand_def debug_consume_def
      split: prod.splits sum.splits if_splits)+

lemma exec_label_session:
  assumes io: "debug_io d (vm_io vm)"
  shows "exec_label l ops (vm, w, g, d) = Inl (vm', w', g', d') \<Longrightarrow> d' = d\<lparr>d_cursor := d_cursor d'\<rparr>"
    and "exec_label l ops (vm, w, g, d) = Inr (r, vm', w', g', d') \<Longrightarrow> d' = d\<lparr>d_cursor := d_cursor d'\<rparr>"
proof -
  consider "l = label_IN" | "l = label_RAND" | "l \<noteq> label_IN" "l \<noteq> label_RAND" by blast
  then show "exec_label l ops (vm, w, g, d) = Inl (vm', w', g', d') \<Longrightarrow> d' = d\<lparr>d_cursor := d_cursor d'\<rparr>"
    by cases (auto dest: exec_label_closures(1) do_IN_session(1) [OF io] do_RAND_session(1) [OF io])
  consider "l = label_IN" | "l = label_RAND" | "l \<noteq> label_IN" "l \<noteq> label_RAND" by blast
  then show "exec_label l ops (vm, w, g, d) = Inr (r, vm', w', g', d') \<Longrightarrow> d' = d\<lparr>d_cursor := d_cursor d'\<rparr>"
    by cases (auto dest: exec_label_closures(2) do_IN_session(2) [OF io] do_RAND_session(2) [OF io])
qed

definition after_fetch :: "dbg cfg \<Rightarrow> dbg cfg \<Rightarrow> bool" where
  "after_fetch c c' = (case c of (vm, w, g, d) \<Rightarrow> case c' of (vm', w', g', d') \<Rightarrow>
     debug_core c'
     \<and> ring_of d' = ring_push kRingCap ReplSnapshot_init (position (advance vm, w, g, d)) (ring_of d)
     \<and> base_mem vm' = vm_mem vm \<and> cycle_count (vm_state vm') = cycle_count (vm_state vm) + 1
     \<and> d_replay_mode d' = d_replay_mode d \<and> d_breakpoints d' = d_breakpoints d)"

text \<open>The machine is where the newest snapshot was taken, up to its halt tag.\<close>

definition at_snapshot :: "dbg cfg \<Rightarrow> bool" where
  "at_snapshot c = (case c of (vm, w, g, d) \<Rightarrow>
     let top = d_ring d ! d_history_index d in
     restore_snapshot (rs_core top) (vm_state vm) = (vm_state vm)\<lparr>halted := s_halted (rs_core top)\<rparr>
     \<and> (d_replay_mode d \<longrightarrow> rs_cursor top = d_cursor d))"

lemma debug_io_cursor [simp]: "debug_io (d\<lparr>d_cursor := k\<rparr>) io = debug_io d io"
  by (simp add: debug_io_def)

lemma debug_io_pushed [simp]: "debug_io (pushed d s req) io = debug_io d io"
  by (simp add: debug_io_def)

lemma ring_of_cursor [simp]: "ring_of (d\<lparr>d_cursor := k\<rparr>) = ring_of d"
  by (simp add: ring_of_def)

lemma ticked_core:
  assumes "debug_core (vm, w, g, d)"
  shows "debug_core (ticked vm req, w', g', pushed d s q)"
  using assms by (simp add: debug_core_def ring_push_ok)

lemma base_mem_ticked [simp]: "base_mem (ticked vm req) = vm_mem vm"
  by (simp add: base_mem_def)

lemma exec_label_core:
  assumes core: "debug_core (u, w, g, d)" and run: "exec_label l ops (u, w, g, d) = Inl (vm', w', g', d')"
  shows "debug_core (vm', w', g', d')"
proof -
  have "debug_io d (vm_io u)" using core by (simp add: debug_core_def)
  from exec_label_session(1) [OF this run] obtain k where "d' = d\<lparr>d_cursor := k\<rparr>" ..
  then show ?thesis
    using core exec_label_frame [OF run] by (simp add: debug_core_def)
qed

lemma exec_label_stop_core:
  assumes core: "debug_core (u, w, g, d)" and run: "exec_label l ops (u, w, g, d) = Inr (r, vm', w', g', d')"
  shows "debug_core (vm', w', g', d')"
proof -
  have "debug_io d (vm_io u)" using core by (simp add: debug_core_def)
  from exec_label_session(2) [OF this run] obtain k where "d' = d\<lparr>d_cursor := k\<rparr>" ..
  then show ?thesis
    using core exec_label_stop_frame [OF run] by (simp add: debug_core_def)
qed

lemma debug_next:
  assumes core: "debug_core (vm, w, g, d)" and step: "goto_step (vm, w, g, d) = Inl (vm', w', g', d')"
  shows "after_fetch (vm, w, g, d) (vm', w', g', d')"
    and "sink_request d (cycle_count (vm_state vm) + 1) (pc (vm_state vm) + 4) = None"
    and "halted (vm_state vm) = HALT_RUNNING" "halted (vm_state vm') = HALT_RUNNING"
    and "d_target_cycle d' = d_target_cycle d"
proof -
  define req where "req = sink_request d (cycle_count (vm_state vm) + 1) (pc (vm_state vm) + 4)"
  obtain w1 where t: "snap_tick (advance vm, w, g, d) =
      ((case req of None \<Rightarrow> halted (vm_state vm) | Some r \<Rightarrow> r) \<noteq> HALT_RUNNING, ticked vm req, w1, g,
       pushed d (position (advance vm, w, g, d)) req)"
    using debug_tick [OF core] unfolding req_def by blast
  let ?d = "pushed d (position (advance vm, w, g, d)) req"
  from step t obtain l ops where run: "exec_label l ops (ticked vm req, w1, g, ?d) = Inl (vm', w', g', d')"
    and h: "(case req of None \<Rightarrow> halted (vm_state vm) | Some r \<Rightarrow> r) = HALT_RUNNING"
    by (elim goto_step_InlE) auto
  have req: "req = None"
    using h by (auto simp: req_def sink_request_def const_defs split: if_splits)
  then show "sink_request d (cycle_count (vm_state vm) + 1) (pc (vm_state vm) + 4) = None"
    by (simp add: req_def)
  show "halted (vm_state vm) = HALT_RUNNING" using h req by simp
  then show "halted (vm_state vm') = HALT_RUNNING"
    using exec_label_frame(6) [OF run] req by simp
  have "debug_core (ticked vm req, w1, g, ?d)" using core by (rule ticked_core)
  moreover from this have "debug_io ?d (vm_io (ticked vm req))" by (simp add: debug_core_def)
  from exec_label_session(1) [OF this run] obtain k where d': "d' = ?d\<lparr>d_cursor := k\<rparr>" ..
  ultimately show "after_fetch (vm, w, g, d) (vm', w', g', d')"
    using exec_label_core [OF _ run] exec_label_frame(4) [OF run] exec_label_base [OF run]
    by (simp add: after_fetch_def)
  show "d_target_cycle d' = d_target_cycle d" by (simp add: d' req pushed_def)
qed

text \<open>
  A step that ends the run: the sink stops it, or the instruction does. Only a division trap moves
  the machine away from the snapshot just taken.
\<close>

lemma exec_label_stop_state:
  assumes "exec_label l ops (vm, x) = Inr (Returned r, vm', x')"
  shows "x' = x \<and> (r = HALT_NORMAL \<and> vm' = set_halted HALT_NORMAL vm \<or> r = HALT_DIV_ZERO
    \<and> halted (vm_state vm') = HALT_DIV_ZERO)"
  using assms
  by (cases l; cases ops; auto simp: handler_defs access_defs Let_def
      split: prod.splits sum.splits option.splits if_splits)

lemma at_snapshotI:
  "d_ring d ! d_history_index d = s \<Longrightarrow>
    restore_snapshot (rs_core s) (vm_state vm) = (vm_state vm)\<lparr>halted := s_halted (rs_core s)\<rparr> \<Longrightarrow>
    (d_replay_mode d \<Longrightarrow> rs_cursor s = d_cursor d) \<Longrightarrow> at_snapshot (vm, w, g, d)"
  by (simp add: at_snapshot_def)

lemma at_snapshot_ticked:
  assumes "debug_core (vm, w, g, d)" "length (regs (vm_state vm)) = 8"
  shows "at_snapshot (set_halted r (ticked vm req), w', g', pushed d (position (advance vm, w, g, d)) req)"
    and "at_snapshot (ticked vm req, w', g', pushed d (position (advance vm, w, g, d)) req)"
proof -
  let ?d = "pushed d (position (advance vm, w, g, d)) req"
  have "ring_ok (ring_of d)" using assms(1) by (simp add: debug_core_def)
  then have top: "d_ring ?d ! d_history_index ?d = position (advance vm, w, g, d)"
    by (simp add: pushed_def ring_push_top)
  have r: "map ((!) (regs (vm_state vm))) [0..<8] = regs (vm_state vm)"
    using assms(2) by (metis map_nth)
  show "at_snapshot (set_halted r (ticked vm req), w', g', ?d)" "at_snapshot (ticked vm req, w', g', ?d)"
    by (rule at_snapshotI [OF top];
        simp add: restore_snapshot_def position_def snapshot_of_def access_defs r)+
qed

lemma debug_stop:
  assumes core: "debug_core (vm, w, g, d)" and step: "goto_step (vm, w, g, d) = Inr (q, vm', w', g', d')"
  shows "after_fetch (vm, w, g, d) (vm', w', g', d')" "vm_deltas vm' = []" "vm_mem vm' = vm_mem vm"
    and "q = Returned r \<Longrightarrow> halted (vm_state vm') = r"
    and "q = Returned r \<Longrightarrow> r \<noteq> HALT_DIV_ZERO \<Longrightarrow> at_snapshot (vm', w', g', d')"
proof -
  define req where "req = sink_request d (cycle_count (vm_state vm) + 1) (pc (vm_state vm) + 4)"
  obtain w1 where t: "snap_tick (advance vm, w, g, d) =
      ((case req of None \<Rightarrow> halted (vm_state vm) | Some r \<Rightarrow> r) \<noteq> HALT_RUNNING, ticked vm req, w1, g,
       pushed d (position (advance vm, w, g, d)) req)"
    using debug_tick [OF core] unfolding req_def by blast
  let ?d = "pushed d (position (advance vm, w, g, d)) req"
  have core': "debug_core (ticked vm req, w1, g, ?d)" using core by (rule ticked_core)
  have len: "length (regs (vm_state vm)) = 8" using core by (simp add: debug_core_def)
  note at = at_snapshot_ticked [OF core len]
  have "after_fetch (vm, w, g, d) (vm', w', g', d') \<and> vm_deltas vm' = [] \<and> vm_mem vm' = vm_mem vm
    \<and> (\<forall>r. q = Returned r \<longrightarrow> halted (vm_state vm') = r
        \<and> (r \<noteq> HALT_DIV_ZERO \<longrightarrow> at_snapshot (vm', w', g', d')))"
    using step
  proof (cases rule: goto_step_InrE)
    case (snapshot v x)
    then show ?thesis using t core' at by (auto simp: after_fetch_def)
  next
    case (unknown v x)
    have "debug_core (set_halted h (ticked vm req), w1, g, ?d)" for h
      using core' by (simp add: debug_core_def access_defs)
    moreover have "base_mem (set_halted h u) = base_mem u" for h and u :: "dbg VM"
      by (simp add: base_mem_def access_defs)
    ultimately show ?thesis
      using unknown t at by (auto simp: after_fetch_def access_defs simp del: ticked_fields(6))
        (simp_all add: access_defs)
  next
    case (handler v x)
    from handler(1) t have v: "v = ticked vm req" "x = (w1, g, ?d)" by auto
    note run = handler(3) [unfolded v]
    have "debug_io ?d (vm_io (ticked vm req))" using core' by (simp add: debug_core_def)
    from exec_label_session(2) [OF this run] obtain k where d': "d' = ?d\<lparr>d_cursor := k\<rparr>" ..
    have "at_snapshot (vm', w', g', d')" "halted (vm_state vm') = r"
      if "q = Returned r" "r \<noteq> HALT_DIV_ZERO" for r
      using exec_label_stop_state [OF run [unfolded that(1)]] that(2) at(1)
      by (auto simp: access_defs)
    moreover have "halted (vm_state vm') = r" if "q = Returned r" for r
      using exec_label_stop_state [OF run [unfolded that(1)]] by (auto simp: access_defs)
    ultimately show ?thesis
      using exec_label_stop_core [OF core' run] exec_label_stop_frame [OF run]
        exec_label_stop_base [OF run]
      by (auto simp: after_fetch_def d')
  qed
  then show "after_fetch (vm, w, g, d) (vm', w', g', d')" "vm_deltas vm' = []" "vm_mem vm' = vm_mem vm"
    "q = Returned r \<Longrightarrow> halted (vm_state vm') = r"
    "q = Returned r \<Longrightarrow> r \<noteq> HALT_DIV_ZERO \<Longrightarrow> at_snapshot (vm', w', g', d')"
    by blast+
qed

section \<open>The history of a run\<close>

text \<open>
  After \<open>j\<close> instructions the newest \<open>j\<close> entries of the ring, where it is long enough to hold them
  all, lead back to the memory \<open>m0\<close> of the start, and the entry below them is the start's.
\<close>

definition history :: "dbg cfg \<Rightarrow> nat \<Rightarrow> dbg cfg \<Rightarrow> bool" where
  "history c0 j c = (case c0 of (vm0, w0, g0, d0) \<Rightarrow> case c of (vm, w, g, d) \<Rightarrow>
     debug_core c
     \<and> cycle_count (vm_state vm) = cycle_count (vm_state vm0) + of_nat j
     \<and> min 255 j \<le> d_history_index d
     \<and> (j \<le> 255 \<longrightarrow> undo_last j (ring_of d) (base_mem vm) = base_mem vm0
          \<and> d_ring d ! (d_history_index d - j) = d_ring d0 ! d_history_index d0)
     \<and> d_replay_mode d = d_replay_mode d0 \<and> d_breakpoints d = d_breakpoints d0)"

lemma history_start: "debug_core c \<Longrightarrow> history c 0 c"
  by (cases c) (simp add: history_def)

lemma history_core: "history c0 j c \<Longrightarrow> debug_core c"
  by (cases c0; cases c) (simp add: history_def)

lemma history_fetch:
  assumes hist: "history c0 j c" and fetch: "after_fetch c c'"
  shows "history c0 (Suc j) c'"
proof -
  obtain vm0 w0 g0 d0 where c0: "c0 = (vm0, w0, g0, d0)" by (metis prod_cases4)
  obtain vm w g d where c: "c = (vm, w, g, d)" by (metis prod_cases4)
  obtain vm' w' g' d' where c': "c' = (vm', w', g', d')" by (metis prod_cases4)
  let ?s = "position (advance vm, w, g, d)"
  have ok: "ring_ok (ring_of d)" using hist by (simp add: history_def c0 c debug_core_def)
  have push: "ring_of d' = ring_push kRingCap ReplSnapshot_init ?s (ring_of d)"
    using fetch by (simp add: after_fetch_def c c')
  have index: "d_history_index d' = min 255 (d_history_index d + 1)"
    using ring_push_index [OF ok, of ReplSnapshot_init ?s, folded push] by (simp add: ring_of_def)
  have "undo_last (Suc j) (ring_of d') (base_mem vm') = base_mem vm0
    \<and> d_ring d' ! (d_history_index d' - Suc j) = d_ring d0 ! d_history_index d0" if "Suc j \<le> 255"
  proof
    have le: "Suc j \<le> d_history_index d'" and lj: "j \<le> d_history_index d"
      using hist that index by (simp_all add: history_def c0 c)
    have s: "s_deltas (rs_core ?s) = vm_deltas vm" by (simp add: position_def snapshot_of_def)
    have "undo_last (Suc j) (ring_of d') (base_mem vm') = undo_last j (ring_of d) (base_mem vm)"
      using undo_last_push [OF ok, of j ReplSnapshot_init ?s, folded push] le lj fetch
      by (simp add: s after_fetch_def c c' ring_of_def base_mem_def)
    then show "undo_last (Suc j) (ring_of d') (base_mem vm') = base_mem vm0"
      using hist that by (simp add: history_def c0 c)
    have "d_ring d' ! (d_history_index d' - Suc j) = d_ring d ! (d_history_index d - j)"
      using ring_push_below [OF ok, of j ReplSnapshot_init ?s, folded push] le by (simp add: ring_of_def)
    then show "d_ring d' ! (d_history_index d' - Suc j) = d_ring d0 ! d_history_index d0"
      using hist that by (simp add: history_def c0 c)
  qed
  then show ?thesis
    using hist fetch index by (auto simp: history_def after_fetch_def c0 c c')
qed

text \<open>A run of a session, by what holds after each of its instructions.\<close>

lemma debug_run_count:
  assumes run: "run_goto c0 = Some (q, c')" and core: "debug_core c0"
    and start: "J 0 c0"
    and step: "\<And>j c d. history c0 j c \<Longrightarrow> J j c \<Longrightarrow> goto_step c = Inl d \<Longrightarrow> J (Suc j) d"
    and stop: "\<And>j c. history c0 j c \<Longrightarrow> J j c \<Longrightarrow> goto_step c = Inr (q, c') \<Longrightarrow> K (Suc j)"
  shows "\<exists>k > 0. history c0 k c' \<and> vm_deltas (fst c') = [] \<and> K k
    \<and> (\<forall>r. q = Returned r \<longrightarrow> halted (vm_state (fst c')) = r \<and> (r \<noteq> HALT_DIV_ZERO \<longrightarrow> at_snapshot c'))"
proof -
  let ?Q = "\<lambda>k q'. history c0 k (snd q') \<and> vm_deltas (fst (snd q')) = [] \<and> (q' = (q, c') \<longrightarrow> K k)
    \<and> (\<forall>r. fst q' = Returned r \<longrightarrow> halted (vm_state (fst (snd q'))) = r
        \<and> (r \<noteq> HALT_DIV_ZERO \<longrightarrow> at_snapshot (snd q')))"
  have "\<exists>k > 0. ?Q k (q, c')"
  proof (rule run_loop_count [where I = "\<lambda>j c. history c0 j c \<and> J j c" and Q = ?Q,
      OF run [unfolded run_goto_def]])
    show "history c0 0 c0 \<and> J 0 c0" using core start by (simp add: history_start)
  next
    fix j c d assume I: "history c0 j c \<and> J j c" and s: "goto_step c = Inl d"
    obtain vm w g e where c: "c = (vm, w, g, e)" by (metis prod_cases4)
    obtain vm' w' g' e' where d: "d = (vm', w', g', e')" by (metis prod_cases4)
    have "debug_core c" using I by (auto simp: history_def split: prod.splits)
    then have "after_fetch c d" using s by (simp add: c d debug_next)
    then show "history c0 (Suc j) d \<and> J (Suc j) d"
      using I s by (blast intro: history_fetch step)
  next
    fix j c q' assume I: "history c0 j c \<and> J j c" and s: "goto_step c = Inr q'"
    obtain vm w g e where c: "c = (vm, w, g, e)" by (metis prod_cases4)
    obtain r vm' w' g' e' where q': "q' = (r, vm', w', g', e')" by (metis prod_cases5)
    have core: "debug_core c" using I by (auto simp: history_def split: prod.splits)
    note stp = debug_stop [OF core [unfolded c] s [unfolded c q']]
    show "?Q (Suc j) q'"
      using stp I s history_fetch [of c0 j c "(vm', w', g', e')"] stop by (auto simp: c q')
  qed
  then show ?thesis by auto
qed

section \<open>Numbers on the command line of the debugger\<close>

lemma digit_not_special: "is_digit 10 c \<Longrightarrow> c \<noteq> CHR 0x00 \<and> c \<noteq> CHR ''x'' \<and> c \<noteq> CHR ''X''"
  by (auto simp: is_digit_def digit_val_def Let_def split: if_splits)

lemma fmt_u_digit: "c \<in> set (fmt_u n) \<Longrightarrow> is_digit 10 c"
  using fmt_base_digits [of 10 n] by (simp add: fmt_u_def list_all_iff)

lemma c_str_fmt_u [simp]: "c_str (fmt_u n) = fmt_u n"
  unfolding c_str_def by (rule takeWhile_eq_all_conv [THEN iffD2])
    (auto dest!: fmt_u_digit digit_not_special)

lemma fmt_u_nonempty [simp]: "fmt_u n \<noteq> []"
  by (simp add: fmt_u_def)

lemma parse_fmt_u:
  assumes "n \<le> ULONG_MAX"
  shows "parse_numeric_arg (fmt_u n) = Some (of_nat n)"
proof -
  have "fmt_u n ! 1 \<noteq> CHR ''x'' \<and> fmt_u n ! 1 \<noteq> CHR ''X''" if "length (fmt_u n) \<ge> 2"
  proof -
    have "fmt_u n ! 1 \<in> set (fmt_u n)" using that by simp
    then show ?thesis by (blast dest: fmt_u_digit digit_not_special)
  qed
  then show ?thesis
    using strtoul_fmt_u [OF assms, of "[]"] fmt_u_nonempty [of n]
    by (auto simp: parse_numeric_arg_def Let_def simp del: fmt_u_nonempty)
qed

section \<open>The commands\<close>

definition resumable :: "HaltReason \<Rightarrow> bool" where
  "resumable r \<longleftrightarrow> r \<in> {HALT_RUNNING, HALT_BREAKPOINT, HALT_STEP, HALT_CHECKPOINT}"

definition debug_ready :: "dbg cfg \<Rightarrow> bool" where
  "debug_ready c \<longleftrightarrow> debug_core c \<and> vm_deltas (fst c) = []
     \<and> (halted (vm_state (fst c)) \<noteq> HALT_DIV_ZERO \<longrightarrow> at_snapshot c)"

lemma debug_resume_eq:
  "resumable (halted (vm_state vm)) \<Longrightarrow>
     debug_resume (vm, x) = (Resumed, vm\<lparr>vm_state := (vm_state vm)\<lparr>halted := HALT_RUNNING\<rparr>\<rparr>, x)"
  by (cases "halted (vm_state vm) = HALT_RUNNING")
    (auto simp: debug_resume_def resumable_def set_state_def Let_def const_defs)

lemma debug_resume_refused:
  "\<not> resumable (halted (vm_state vm)) \<Longrightarrow> fst (debug_resume (vm, w, g, d)) = Refused
     \<and> (\<exists>w'. snd (debug_resume (vm, w, g, d)) = (vm, w', g, d))"
  by (auto simp: debug_resume_def resumable_def complain_def Let_def)

text \<open>The configuration \<open>run\<close> is called in.\<close>

definition resumed :: "u64 \<Rightarrow> dbg cfg \<Rightarrow> dbg cfg" where
  "resumed target c = (case c of (vm, w, g, d) \<Rightarrow>
     (vm\<lparr>vm_state := (vm_state vm)\<lparr>halted := HALT_RUNNING\<rparr>\<rparr>, w, g, d\<lparr>d_target_cycle := target\<rparr>))"

lemma debug_io_target [simp]: "debug_io (d\<lparr>d_target_cycle := t\<rparr>) io = debug_io d io"
  by (simp add: debug_io_def)

lemma ring_of_target [simp]: "ring_of (d\<lparr>d_target_cycle := t\<rparr>) = ring_of d"
  by (simp add: ring_of_def)

lemma resumed_core: "debug_core c \<Longrightarrow> debug_core (resumed t c)"
  by (cases c) (simp add: debug_core_def resumed_def)

lemma vm_run_resumed: "vm_run (resumed t c) = run_goto (resumed t c)"
  by (cases c) (simp add: vm_run_def resumed_def run_paths_agree)

lemma debug_step_run:
  assumes "resumable (halted (vm_state vm))" "count_arg tok = Inr n" "n \<noteq> 0"
  shows "debug_step tok (vm, w, g, d) =
    debug_drive (resumed (cycle_count (vm_state vm) + n) (vm, w, g, d))"
  using assms
  by (simp add: debug_step_def debug_resume_eq resumed_def upd_debug_def)

lemma debug_drive_continue:
  assumes "debug_drive (resumed t c) = Some (Debug_Continue, c')"
  obtains r where "run_goto (resumed t c) = Some (Returned r, c')"
  using assms
  by (auto simp: debug_drive_def vm_run_resumed split: option.splits run_result.splits prod.splits)

section \<open>Going back\<close>

lemma debug_back_effect:
  assumes "0 < k" "k \<le> d_history_index d" "k \<le> ULONG_MAX"
  obtains w' where "debug_command [''back'', fmt_u k] (vm, w, g, d) =
    Some (Debug_Continue,
      vm\<lparr>vm_mem := undo_last k (ring_of d) (vm_mem vm),
         vm_state := restore_snapshot (rs_core (d_ring d ! (d_history_index d - k))) (vm_state vm)\<rparr>,
      w', g,
      d\<lparr>d_cursor := (if d_replay_mode d then rs_cursor (d_ring d ! (d_history_index d - k))
           else d_cursor d), d_history_index := d_history_index d - k\<rparr>)"
proof -
  have "take_bit 64 k = k"
    using assms(3) by (intro take_bit_nat_eq_self) (simp add: ULONG_MAX_def)
  then have k: "unat (of_nat k :: u64) = k" by (simp add: unsigned_of_nat)
  then have k0: "(of_nat k :: u64) \<noteq> 0" using assms(1) by (metis less_irrefl unat_0)
  have "count_arg [''back'', fmt_u k] = Inr (of_nat k)"
    using assms(3) by (simp add: count_arg_def parse_fmt_u)
  then show thesis
    using assms(2) k k0
    by (intro that) (simp add: debug_command_def debug_back_def the_debug_def upd_debug_def say_def
        set_state_def undo_last_def ring_of_def Let_def)
qed

text \<open>Snapshots fix everything of a state that a run of the session can change.\<close>

lemma restore_snapshot_regs:
  "restore_snapshot s u = restore_snapshot s v" if "snap_interval u = snap_interval v"
    "snap_timer u = snap_timer v"
  using that by (cases u; cases v) (simp add: restore_snapshot_def)

text \<open>The number of instructions between two machines, below the wrap-around.\<close>

lemma cycle_difference:
  "c' = c + of_nat k \<Longrightarrow> k < 2 ^ 64 \<Longrightarrow> unat (c' - c) = k" for c :: u64
  by (simp add: unsigned_of_nat take_bit_nat_eq_self)

text \<open>A step of \<open>n\<close> cycles executes at most \<open>n\<close>.\<close>

lemma step_run_count:
  assumes run: "run_goto (resumed (cycle_count (vm_state vm) + of_nat n) (vm, w, g, d)) = Some (q, c')"
    and core: "debug_core (vm, w, g, d)" and n: "0 < n" "unat (cycle_count (vm_state vm)) + n < 2 ^ 64 - 1"
  shows "\<exists>k > 0. k \<le> n \<and> history (resumed (cycle_count (vm_state vm) + of_nat n) (vm, w, g, d)) k c'
    \<and> vm_deltas (fst c') = []
    \<and> (\<forall>r. q = Returned r \<longrightarrow> halted (vm_state (fst c')) = r \<and> (r \<noteq> HALT_DIV_ZERO \<longrightarrow> at_snapshot c'))"
proof -
  define t where "t = cycle_count (vm_state vm) + of_nat n"
  let ?c0 = "resumed t (vm, w, g, d)"
  let ?J = "\<lambda>j c. j < n \<and> (case c of (vm :: dbg VM, w, g, d) \<Rightarrow> d_target_cycle d = t)"
  have cyc: "unat (cycle_count (vm_state vm) + of_nat j) = unat (cycle_count (vm_state vm)) + j"
    if "j \<le> n" for j
  proof -
    have "cycle_count (vm_state vm) + of_nat j = of_nat (unat (cycle_count (vm_state vm)) + j)"
      by simp
    moreover have "take_bit LENGTH(64) (unat (cycle_count (vm_state vm)) + j)
        = unat (cycle_count (vm_state vm)) + j"
      using that n by (intro take_bit_nat_eq_self) simp
    ultimately show ?thesis by (simp only: unsigned_of_nat of_nat_id)
  qed
  have t: "unat t = unat (cycle_count (vm_state vm)) + n" using cyc by (simp add: t_def)
  then have "t \<noteq> UINT64_MAX" using n by (auto simp: UINT64_MAX_def unsigned_minus_1_eq_mask mask_eq_exp_minus_1)
  have "\<exists>k > 0. history ?c0 k c' \<and> vm_deltas (fst c') = [] \<and> k \<le> n
    \<and> (\<forall>r. q = Returned r \<longrightarrow> halted (vm_state (fst c')) = r \<and> (r \<noteq> HALT_DIV_ZERO \<longrightarrow> at_snapshot c'))"
  proof (rule debug_run_count [where J = ?J, OF run [folded t_def]])
    show "debug_core ?c0" using core by (rule resumed_core)
    show "?J 0 ?c0" using n by (simp add: resumed_def)
  next
    fix j c e
    assume hist: "history ?c0 j c" and J: "?J j c" and s: "goto_step c = Inl e"
    obtain u x y z where c: "c = (u, x, y, z)" by (metis prod_cases4)
    obtain u' x' y' z' where e: "e = (u', x', y', z')" by (metis prod_cases4)
    have core': "debug_core (u, x, y, z)" using hist by (auto simp: c history_def split: prod.splits)
    note nxt = debug_next [OF core' s [unfolded c e]]
    have cc: "cycle_count (vm_state u) + 1 = cycle_count (vm_state vm) + of_nat (Suc j)"
      using hist by (simp add: history_def resumed_def c)
    have "\<not> t \<le> cycle_count (vm_state u) + 1"
      using nxt(2) J \<open>t \<noteq> UINT64_MAX\<close> by (auto simp: sink_request_def c split: if_splits)
    then have "Suc j < n"
      using J cyc [of "Suc j"] t unfolding cc word_le_nat_alt by linarith
    then show "?J (Suc j) e" using J nxt(5) by (simp add: c e)
  qed simp
  then show ?thesis unfolding t_def by blast
qed

section \<open>Every command keeps the session well-formed\<close>

lemma debug_core_frame:
  "debug_core (vm, w', g', d') \<longleftrightarrow> debug_core (vm, w, g, d)"
  if "ring_of d' = ring_of d" "d_replay_mode d' = d_replay_mode d" "d_reader d' = d_reader d"
  using that by (simp add: debug_core_def debug_io_def)

lemma at_snapshot_frame:
  "at_snapshot (vm, w', g', d') \<longleftrightarrow> at_snapshot (vm, w, g, d)"
  if "ring_of d' = ring_of d" "d_replay_mode d' = d_replay_mode d" "d_cursor d' = d_cursor d"
  using that by (simp add: at_snapshot_def ring_of_def)

lemma debug_ready_frame:
  "debug_ready (vm, w', g', d') \<longleftrightarrow> debug_ready (vm, w, g, d)"
  if "ring_of d' = ring_of d" "d_replay_mode d' = d_replay_mode d" "d_reader d' = d_reader d"
    "d_cursor d' = d_cursor d"
  using that debug_core_frame [of d' d vm w' g' w g] at_snapshot_frame [of d' d vm w' g' w g]
  by (simp add: debug_ready_def)

lemma debug_ready_world: "debug_ready (vm, w, g, d) \<Longrightarrow> debug_ready (vm, w', g', d)"
  using debug_ready_frame [of d d vm w' g' w g] by simp

lemma debug_ready_say [simp]:
  "debug_ready (vm, say s x) = debug_ready (vm, x)" "debug_ready (vm, complain s x) = debug_ready (vm, x)"
  by (cases x; simp add: say_def complain_def debug_ready_frame [of d d for d])+

lemma debug_ready_breakpoints [simp]:
  "debug_ready (vm, upd_debug (\<lambda>d. d\<lparr>d_breakpoints := f d\<rparr>) x) = debug_ready (vm, x)"
proof -
  obtain w g d where "x = (w, g, d)" by (metis prod_cases3)
  then show ?thesis
    using debug_ready_frame [of "d\<lparr>d_breakpoints := f d\<rparr>" d vm w g w g]
    by (simp add: upd_debug_def ring_of_def)
qed

lemma drive_ready:
  assumes core: "debug_core c" and drive: "debug_drive (resumed t c) = Some (Debug_Continue, c')"
  shows "debug_ready c'"
proof -
  from drive obtain r where run: "run_goto (resumed t c) = Some (Returned r, c')"
    by (rule debug_drive_continue)
  from debug_run_count [OF run resumed_core [OF core], of "\<lambda>_ _. True" "\<lambda>_. True"]
  show ?thesis by (auto simp: debug_ready_def dest: history_core)
qed

lemma step_ready:
  assumes "debug_ready c" "debug_step tok c = Some (Debug_Continue, c')"
  shows "debug_ready c'"
proof -
  obtain vm w g d where c: "c = (vm, w, g, d)" by (metis prod_cases4)
  show ?thesis
  proof (cases "resumable (halted (vm_state vm))")
    case True
    show ?thesis
    proof (cases "count_arg tok")
      case (Inr n)
      show ?thesis
      proof (cases "n = 0")
        case False
        then have "debug_drive (resumed (cycle_count (vm_state vm) + n) c) = Some (Debug_Continue, c')"
          using assms(2) debug_step_run [OF True Inr] by (simp add: c)
        then show ?thesis using assms(1) by (intro drive_ready) (simp_all add: debug_ready_def)
      qed (use assms Inr in \<open>auto simp: debug_step_def c\<close>)
    qed (use assms in \<open>auto simp: debug_step_def c\<close>)
  next
    case False
    then show ?thesis
      using assms debug_resume_refused [OF False, of w g d]
      by (cases "debug_resume (vm, w, g, d)")
        (auto simp: debug_step_def c split: sum.splits if_splits ResumeResult.splits intro: debug_ready_world)
  qed
qed

lemma continue_drive:
  assumes "debug_continue (vm, w, g, d) = Some (Debug_Continue, c')" "resumable (halted (vm_state vm))"
  obtains v x s where "debug_drive (resumed UINT64_MAX (vm, w, g, d)) = Some (Debug_Continue, v, x)"
    "c' = (v, say s x)"
  using assms
  by (auto simp: debug_continue_def debug_resume_eq upd_debug_def resumed_def
      split: option.splits DebugStatus.splits)

lemma continue_ready:
  assumes "debug_ready c" "debug_continue c = Some (Debug_Continue, c')"
  shows "debug_ready c'"
proof -
  obtain vm w g d where c: "c = (vm, w, g, d)" by (metis prod_cases4)
  show ?thesis
  proof (cases "resumable (halted (vm_state vm))")
    case True
    with assms(2) obtain v x s where "debug_drive (resumed UINT64_MAX c) = Some (Debug_Continue, v, x)"
      "c' = (v, say s x)"
      unfolding c by (rule continue_drive)
    then show ?thesis
      using drive_ready [of c UINT64_MAX "(v, x)"] assms(1) by (simp add: debug_ready_def [of c])
  next
    case False
    then show ?thesis
      using assms debug_resume_refused [OF False, of w g d]
      by (cases "debug_resume (vm, w, g, d)")
        (auto simp: debug_continue_def c split: ResumeResult.splits intro: debug_ready_world)
  qed
qed

lemma back_ready:
  assumes "debug_ready c" "debug_back tok c = Some (Debug_Continue, c')"
  shows "debug_ready c'"
proof -
  obtain vm w g d where c: "c = (vm, w, g, d)" by (metis prod_cases4)
  have core: "debug_core (vm, w, g, d)" and deltas: "vm_deltas vm = []"
    using assms(1) by (simp_all add: debug_ready_def c)
  show ?thesis
  proof (cases "\<exists>n. count_arg tok = Inr n \<and> n \<noteq> 0 \<and> unat n \<le> d_history_index d")
    case False
    then show ?thesis
      using assms by (auto simp: debug_back_def c the_debug_def Let_def split: sum.splits if_splits)
  next
    case True
    then obtain n where n: "count_arg tok = Inr n" "n \<noteq> 0" "unat n \<le> d_history_index d" by blast
    let ?i = "d_history_index d - unat n"
    let ?tgt = "d_ring d ! ?i"
    define d' where "d' = d\<lparr>d_cursor := (if d_replay_mode d then rs_cursor ?tgt else d_cursor d),
      d_history_index := ?i\<rparr>"
    obtain v w' where v: "c' = (v, w', g, d')" "vm_state v = restore_snapshot (rs_core ?tgt) (vm_state vm)"
      "vm_deltas v = []" "vm_sink v = vm_sink vm" "vm_io v = vm_io vm"
      using assms(2) n deltas
      by (auto simp: debug_back_def c the_debug_def upd_debug_def say_def set_state_def d'_def Let_def)
    have "debug_core c'"
      using core by (auto simp: debug_core_def v d'_def ring_of_def ring_ok_def restore_snapshot_def debug_io_def)
    moreover have "at_snapshot c'"
      unfolding v(1)
    proof (rule at_snapshotI)
      show "d_ring d' ! d_history_index d' = ?tgt" by (simp add: d'_def)
    qed (auto simp: v restore_snapshot_def d'_def)
    ultimately show ?thesis using v by (simp add: debug_ready_def)
  qed
qed

lemma debug_save_ready:
  assumes "debug_ready c" "debug_save tok c = Some (st, c')"
  shows "debug_ready c'"
  using assms
  by (auto simp: debug_save_def Let_def split: prod.splits if_splits bool.splits intro: debug_ready_world)

lemma debug_breakpoint_ready:
  assumes "debug_ready (vm, x)" "debug_breakpoint tok (vm, x) = Some (st, c')"
  shows "debug_ready c'"
proof -
  have "debug_ready (cmd_debug_bp_list (vm, x))"
    using assms(1) by (simp add: cmd_debug_bp_list_def Let_def)
  then show ?thesis
    using assms
    by (auto simp: debug_breakpoint_def Let_def split: if_splits option.splits)
qed

definition keeps_ready :: "(DebugStatus \<times> dbg cfg) option \<Rightarrow> bool" where
  "keeps_ready r \<longleftrightarrow> (\<forall>c'. r = Some (Debug_Continue, c') \<longrightarrow> debug_ready c')"

lemma keeps_ready_if: "keeps_ready r \<Longrightarrow> keeps_ready r' \<Longrightarrow> keeps_ready (if b then r else r')"
  by simp

lemma keeps_ready_Some [simp]:
  "keeps_ready (Some (Debug_Continue, c)) = debug_ready c" "keeps_ready (Some (Debug_Exit, c))"
  by (simp_all add: keeps_ready_def)

lemma command_ready:
  assumes "debug_ready (vm, x)"
  shows "keeps_ready (debug_command tok (vm, x))"
proof -
  have "debug_ready (cmd_debug_regs (vm, x))" "debug_ready (cmd_debug_where (vm, x))"
    using assms by (simp_all add: cmd_debug_regs_def cmd_debug_where_def Let_def)
  moreover have "keeps_ready (debug_step tok (vm, x))" "keeps_ready (debug_back tok (vm, x))"
    "keeps_ready (debug_continue (vm, x))" "keeps_ready (debug_breakpoint tok (vm, x))"
    "keeps_ready (debug_save tok (vm, x))"
    unfolding keeps_ready_def
    using step_ready [OF assms] back_ready [OF assms] continue_ready [OF assms]
      debug_breakpoint_ready [OF assms] debug_save_ready [OF assms] by blast+
  ultimately show ?thesis
    unfolding debug_command_def prod.case Let_def
    by (intro keeps_ready_if) (simp_all only: keeps_ready_Some debug_ready_say assms)
qed

lemma line_ready:
  assumes "debug_ready c" "repl_line line c = Some (Debug_Continue, c')"
  shows "debug_ready c'"
proof -
  obtain vm x where c: "c = (vm, x)" by (metis surj_pair)
  have "keeps_ready (repl_line line c)"
    unfolding repl_line_def c prod.case Let_def
    by (intro keeps_ready_if command_ready) (use assms(1) in \<open>simp_all only: keeps_ready_Some debug_ready_say c\<close>)
  then show ?thesis using assms(2) by (simp add: keeps_ready_def)
qed

lemma read_line_ready:
  assumes "read_line (src, c) = Some (line, src', c')" "debug_ready c"
  shows "debug_ready c'"
  using assms
  by (auto simp: read_line_def split: prod.splits option.splits intro: debug_ready_world)

lemma prompt_ready [simp]: "debug_ready (prompt src c) = debug_ready c"
  by (cases c) (simp add: prompt_def)

lemma repl_iter_InlE:
  assumes "repl_iter (src, c) = Inl r'"
  obtains line src' c1 c' where "read_line (src, prompt src c) = Some (line, src', c1)"
    "repl_line line c1 = Some (Debug_Continue, c')" "r' = (src', c')"
  using assms
  by (auto simp: repl_iter_def split: option.splits DebugStatus.splits prod.splits)

lemma repl_iter_ready:
  assumes "debug_ready (snd r)" "repl_iter r = Inl r'"
  shows "debug_ready (snd r')"
proof -
  obtain src c where r: "r = (src, c)" by (cases r)
  from assms(2) [unfolded r] obtain line src' c1 c'
    where l: "read_line (src, prompt src c) = Some (line, src', c1)"
      "repl_line line c1 = Some (Debug_Continue, c')" "r' = (src', c')"
    by (rule repl_iter_InlE)
  have "debug_ready c1" using assms(1) by (intro read_line_ready [OF l(1)]) (simp add: r)
  from line_ready [OF this l(2)] show ?thesis by (simp add: l(3))
qed

lemma session_start_ready:
  assumes "vm = snd (load_program bs (VM_new debug_in debug_rand))"
  shows "debug_ready (debug_session reader trace_path vm w g)"
proof -
  have vm: "vm_io vm = \<lparr>on_nondeterministic = None, io_in = Some debug_in, io_rand = Some debug_rand\<rparr>"
    "regs (vm_state vm) = replicate 8 0"
    using assms by (auto simp: load_program_def VM_new_def reset_state_def VMState_init_def split: if_splits)
  have r: "map ((!) (replicate 8 (0::u32))) [0..<8] = replicate 8 0"
    by (metis map_nth length_replicate)
  obtain rd where "debug_session reader trace_path vm w g = rd" by blast
  show ?thesis
    apply (cases reader)
     apply (simp_all add: debug_session_def install_debug_sink_def
        set_snapshot_sink_def set_snapshot_interval_def set_io_hooks_def take_snapshot_def
        CmdDebug_init_def Let_def)
     apply (simp_all add: debug_ready_def debug_core_def vm debug_io_def ring_of_def ring_ok_def kRingCap_def)
     apply (simp_all add: at_snapshot_def restore_snapshot_def vm r Let_def)
    done
qed

lemma read_line_batch:
  assumes "read_line (Some s, c) = Some (line, src, c')"
  obtains s' where "src = Some s'" "length s' < length s" "c' = c"
proof -
  have "length (tl (dropWhile (\<lambda>c. c \<noteq> CHR 0x0A) s)) < length s" if "s \<noteq> []"
    using that length_dropWhile_le [of "\<lambda>c. c \<noteq> CHR 0x0A" s]
    by (cases s) (auto intro: le_less_trans)
  then show thesis
    using assms that by (auto simp: read_line_def get_line_def split: prod.splits if_splits)
qed

lemma batch_steps:
  "\<exists>n s' c' r. steps repl_iter n (Some s, c) = Some (Some s', c') \<and> repl_iter (Some s', c') = Inr r"
proof (induction s arbitrary: c rule: length_induct)
  case (1 s)
  show ?case
  proof (cases "repl_iter (Some s, c)")
    case (Inr r)
    then show ?thesis by (intro exI [of _ 0]) auto
  next
    case (Inl r')
    then obtain s' c' where r': "r' = (Some s', c')" "length s' < length s"
      by (auto elim!: repl_iter_InlE read_line_batch)
    with "1.IH" obtain n s'' d r where "steps repl_iter n (Some s', c') = Some (Some s'', d)"
      "repl_iter (Some s'', d) = Inr r"
      by blast
    then show ?thesis using Inl r'(1) by (intro exI [of _ "Suc n"]) auto
  qed
qed

text \<open>A command hangs only inside \<open>run\<close>, and \<open>step\<close> never does.\<close>

lemma drive_hangs: "debug_drive c = None \<longleftrightarrow> vm_run c = None"
  by (auto simp: debug_drive_def complain_def split: option.splits run_result.splits prod.splits)

lemma refused_returns:
  assumes "\<not> resumable (halted (vm_state vm))"
  shows "debug_step tok (vm, w, g, d) \<noteq> None" "debug_continue (vm, w, g, d) \<noteq> None"
  using debug_resume_refused [OF assms, of w g d]
  by (auto simp: debug_step_def debug_continue_def say_def complain_def split_def split: sum.splits)

lemma step_hangs:
  assumes "resumable (halted (vm_state vm))"
  shows "debug_step tok (vm, w, g, d) = None \<longleftrightarrow>
    (\<exists>n. count_arg tok = Inr n \<and> n \<noteq> 0 \<and> vm_run (resumed (cycle_count (vm_state vm) + n) (vm, w, g, d)) = None)"
proof (cases "count_arg tok")
  case (Inr n)
  show ?thesis
  proof (cases "n = 0")
    case True
    then show ?thesis by (simp add: debug_step_def Inr)
  next
    case False
    then show ?thesis by (simp add: debug_step_run [OF assms Inr] drive_hangs Inr)
  qed
qed (simp add: debug_step_def)

lemma continue_hangs:
  assumes "resumable (halted (vm_state vm))"
  shows "debug_continue (vm, w, g, d) = None \<longleftrightarrow> vm_run (resumed UINT64_MAX (vm, w, g, d)) = None"
proof -
  have "debug_continue (vm, w, g, d) = None \<longleftrightarrow> debug_drive (resumed UINT64_MAX (vm, w, g, d)) = None"
  proof (cases "debug_drive (resumed UINT64_MAX (vm, w, g, d))")
    case (Some r)
    obtain st v x where "r = (st, v, x)" by (metis prod_cases3)
    then show ?thesis
      using Some by (cases st) (simp_all add: debug_continue_def debug_resume_eq [OF assms] resumed_def upd_debug_def)
  qed (simp add: debug_continue_def debug_resume_eq [OF assms] resumed_def upd_debug_def)
  then show ?thesis by (simp only: drive_hangs)
qed

lemma returns_intros:
  "Some a \<noteq> None" "r \<noteq> None \<Longrightarrow> r' \<noteq> None \<Longrightarrow> (if b then r else r') \<noteq> None"
  "(\<And>x. f x \<noteq> None) \<Longrightarrow> (\<And>y. h y \<noteq> None) \<Longrightarrow> case_sum f h s \<noteq> None"
  "r \<noteq> None \<Longrightarrow> (\<And>y. h y \<noteq> None) \<Longrightarrow> case_option r h t \<noteq> None"
  "r \<noteq> None \<Longrightarrow> r' \<noteq> None \<Longrightarrow> case_bool r r' b \<noteq> None"
  "(\<And>x y. k x y \<noteq> None) \<Longrightarrow> case_prod k q \<noteq> None"
  by (simp_all split: sum.split option.split bool.split prod.split)

text \<open>
  The commands that start the machine, and the target they start it with: a \<open>step\<close> with a count other
  than 0, and \<open>continue\<close>; both only at a halt that resumes.
\<close>

definition starts :: "string list \<Rightarrow> VMState \<Rightarrow> u64 \<Rightarrow> bool" where
  "starts tok s t \<longleftrightarrow> resumable (halted s)
     \<and> (tok ! 0 = ''step'' \<and> (\<exists>n. count_arg tok = Inr n \<and> n \<noteq> 0 \<and> t = cycle_count s + n)
       \<or> (tok ! 0 = ''continue'' \<or> tok ! 0 = ''c'') \<and> t = UINT64_MAX)"

lemma command_starts:
  "debug_command tok (vm, w, g, d) = None \<longleftrightarrow> (tok ! 0 = ''step'' \<and> debug_step tok (vm, w, g, d) = None
     \<or> (tok ! 0 = ''continue'' \<or> tok ! 0 = ''c'') \<and> debug_continue (vm, w, g, d) = None)"
proof (cases "tok ! 0 = ''step'' \<or> tok ! 0 = ''continue'' \<or> tok ! 0 = ''c''")
  case True
  then show ?thesis by (auto simp: debug_command_def)
next
  case False
  have "debug_back tok c \<noteq> None" "debug_breakpoint tok c \<noteq> None" "debug_save tok c \<noteq> None" for c
    unfolding debug_back_def debug_breakpoint_def debug_save_def Let_def
    by (intro returns_intros)+
  note total = this
  have no: "(tok ! 0 = ''step'') = False" "(tok ! 0 = ''continue'') = False" "(tok ! 0 = ''c'') = False"
    using False by blast+
  have "debug_command tok (vm, w, g, d) \<noteq> None"
    unfolding debug_command_def prod.case Let_def no simp_thms if_False by (intro returns_intros total)
  with False show ?thesis by blast
qed

lemma command_hangs:
  "debug_command tok (vm, w, g, d) = None \<longleftrightarrow>
     (\<exists>t. starts tok (vm_state vm) t \<and> vm_run (resumed t (vm, w, g, d)) = None)"
proof (cases "resumable (halted (vm_state vm))")
  case True
  show ?thesis
    unfolding command_starts step_hangs [OF True] continue_hangs [OF True] starts_def by (auto simp: True)
next
  case False
  then show ?thesis by (simp add: command_starts refused_returns starts_def)
qed

lemma step_stops:
  assumes "history c0 j c" "j < n" "d_target_cycle (snd (snd (snd c))) = cycle_count (vm_state (fst c0)) + of_nat n"
    "unat (cycle_count (vm_state (fst c0))) + n < 2 ^ 64 - 1"
  shows "\<exists>r. fuel_loop goto_step (n - j) c = Some r"
  using assms
proof (induction "n - j" arbitrary: j c)
  case (Suc m)
  obtain vm w g d where c: "c = (vm, w, g, d)" by (metis prod_cases4)
  define t where "t = cycle_count (vm_state (fst c0)) + of_nat n"
  have nj: "n - j = Suc m" using Suc.hyps(2) by simp
  show ?case
  proof (cases "goto_step c")
    case (Inr r)
    then have "fuel_loop goto_step (n - j) c = Some r" by (simp add: nj)
    then show ?thesis ..
  next
    case (Inl e)
    obtain vm' w' g' d' where e: "e = (vm', w', g', d')" by (metis prod_cases4)
    have core: "debug_core (vm, w, g, d)" using history_core [OF Suc.prems(1)] by (simp add: c)
    note nxt = debug_next [OF core Inl [unfolded c e]]
    have hist: "history c0 (Suc j) e"
      using history_fetch [OF Suc.prems(1)] nxt(1) by (simp add: c e)
    have cyc: "unat (cycle_count (vm_state (fst c0)) + of_nat i) = unat (cycle_count (vm_state (fst c0))) + i"
      if "i \<le> n" for i
    proof -
      have "take_bit LENGTH(64) (unat (cycle_count (vm_state (fst c0))) + i)
          = unat (cycle_count (vm_state (fst c0))) + i"
        using that Suc.prems(4) by (intro take_bit_nat_eq_self) simp
      moreover have "cycle_count (vm_state (fst c0)) + of_nat i
          = of_nat (unat (cycle_count (vm_state (fst c0))) + i)" by simp
      ultimately show ?thesis by (simp only: unsigned_of_nat of_nat_id)
    qed
    have tn: "unat t = unat (cycle_count (vm_state (fst c0))) + n" using cyc [of n] by (simp add: t_def)
    then have max: "t \<noteq> UINT64_MAX"
      using Suc.prems(4) by (auto simp: UINT64_MAX_def unsigned_minus_1_eq_mask mask_eq_exp_minus_1)
    have cc: "cycle_count (vm_state vm) + 1 = cycle_count (vm_state (fst c0)) + of_nat (Suc j)"
      using Suc.prems(1) by (cases c0) (simp add: history_def c)
    have "\<not> t \<le> cycle_count (vm_state vm) + 1"
      using nxt(2) Suc.prems(3) max by (auto simp: sink_request_def c t_def split: if_splits)
    then have lt: "Suc j < n"
      using Suc.prems(2) cyc [of "Suc j"] tn unfolding cc word_le_nat_alt by linarith
    have "\<exists>r. fuel_loop goto_step (n - Suc j) e = Some r"
      using Suc.hyps hist lt Suc.prems(3,4) nxt(5) by (intro Suc.hyps(1)) (simp_all add: c e)
    moreover have "n - Suc j = m" using nj by simp
    ultimately show ?thesis by (simp add: nj Inl)
  qed
qed simp

text \<open>The machine a run of a session goes through, seen from the loop.\<close>

lemma session_exec:
  assumes core: "debug_core (vm, w, g, d)" and run: "halted (vm_state vm) = HALT_RUNNING"
    and req: "sink_request d (cycle_count (vm_state vm) + 1) (pc (vm_state vm) + 4) = None"
  obtains w' where "goto_step (vm, w, g, d) =
    jump_to (fetch vm) (ticked vm None, w', g, pushed d (position (advance vm, w, g, d)) None)"
proof -
  obtain w' where t: "snap_tick (advance vm, w, g, d) = (False, ticked vm None, w', g,
      pushed d (position (advance vm, w, g, d)) None)"
    by (rule debug_tick [OF core]) (simp only: req option.case run simp_thms)
  show thesis by (rule that) (simp only: goto_step_eq t prod.case if_False)
qed

lemma session_halt:
  assumes core: "debug_core (vm, w, g, d)" and r: "r \<noteq> HALT_RUNNING"
    and req: "sink_request d (cycle_count (vm_state vm) + 1) (pc (vm_state vm) + 4) = Some r"
  obtains w' where "goto_step (vm, w, g, d) =
    Inr (Returned r, ticked vm (Some r), w', g, pushed d (position (advance vm, w, g, d)) (Some r))"
    "fault w' = fault w"
proof -
  obtain w' where t: "snap_tick (advance vm, w, g, d) = (True, ticked vm (Some r), w', g,
      pushed d (position (advance vm, w, g, d)) (Some r))" "fault w' = fault w"
    by (rule debug_tick [OF core]) (simp only: req option.case r simp_thms)
  have "halted (vm_state (ticked vm (Some r))) = r" by simp
  then show thesis by (intro that [OF _ t(2)]) (simp only: goto_step_eq t(1) prod.case if_True)
qed

end
