(* ===== verification/TimeTravel.thy ===== *)
theory TimeTravel
  imports Session
begin

text \<open>
  What the debugger guarantees: \<open>back\<close> undoes a run, breakpoints stop the machine before the
  instruction, \<open>step\<close> always returns, and so does a batch session; and that a resumed machine skips
  an instruction.
\<close>

section \<open>A sample session\<close>

text \<open>A fresh session on \<open>store_bin\<close>.\<close>

definition sample_session :: "dbg cfg" where
  "sample_session = debug_session None [] (snd (load_program store_bin (VM_new debug_in debug_rand)))
     no_files (mt_init 0)"

lemma sample_ready: "debug_ready sample_session"
  unfolding sample_session_def by (rule session_start_ready [OF refl])

lemma sample_fields:
  "vm_state (fst sample_session) = \<lparr>cycle_count = 0, regs = replicate 8 0, pc = 0, sp = 0xFFFFC,
     flags = 0, halted = HALT_RUNNING, snap_interval = 1, snap_timer = 1\<rparr>"
  "unat a < 20 \<Longrightarrow> vm_mem (fst sample_session) a = store_bin ! unat a"
  "d_breakpoints (snd (snd (snd sample_session))) = {}"
  by (simp_all add: sample_session_def debug_session_def install_debug_sink_def take_snapshot_def
      CmdDebug_init_def load_eval store_bin_def Let_def)

text \<open>Its first two instructions, and the stop of \<open>step 3\<close> before the third.\<close>

lemma sample_fetch:
  assumes "vm_mem vm = vm_mem (fst sample_session)"
  shows "pc (vm_state vm) = 0 \<Longrightarrow> fetch vm = 0x2D000005" "pc (vm_state vm) = 4 \<Longrightarrow> fetch vm = 0x09000100"
  by (simp_all add: fetch_def mem_load_u32_def MEM_MASK_def assms sample_fields(2) store_bin_def Let_def)

lemma sample_dispatch:
  "jump_to 0x2D000005 c = do_LI (2, 0, 5) c" "jump_to 0x09000100 c = do_STORE (2, 0, 0x100) c"
  by (simp_all add: jump_to_def decode_op_def decode_dst_def decode_src_def decode_imm_def const_defs dispatch_table_def)

lemma pushed_target [simp]:
  "d_target_cycle (pushed d s None) = d_target_cycle d"
  by (simp add: pushed_def)

lemma sample_run:
  "\<exists>vm' w' g' d'. run_goto (resumed 3 sample_session) = Some (Returned HALT_STEP, vm', w', g', d')
     \<and> vm_mem vm' 0x100 = 5 \<and> cycle_count (vm_state vm') = 3"
proof -
  obtain vm w g d where s: "resumed 3 sample_session = (vm, w, g, d)" by (metis prod_cases4)
  have core: "debug_core (vm, w, g, d)"
    using resumed_core [of sample_session 3] sample_ready by (simp add: s debug_ready_def)
  have vm: "vm_mem vm = vm_mem (fst sample_session)" "vm_state vm = vm_state (fst sample_session)"
    "d_breakpoints d = {}" "d_target_cycle d = 3"
  proof -
    obtain vm0 w0 g0 d0 where s0: "sample_session = (vm0, w0, g0, d0)" by (metis prod_cases4)
    have "vm = vm0\<lparr>vm_state := (vm_state vm0)\<lparr>halted := HALT_RUNNING\<rparr>\<rparr>" "d = d0\<lparr>d_target_cycle := 3\<rparr>"
      using s by (simp_all add: resumed_def s0)
    then show "vm_mem vm = vm_mem (fst sample_session)" "vm_state vm = vm_state (fst sample_session)"
      "d_breakpoints d = {}" "d_target_cycle d = 3"
      using sample_fields(1,3) by (simp_all add: s0)
  qed
  note st = vm(2) [unfolded sample_fields]
  obtain w1 where s1: "goto_step (vm, w, g, d) =
      jump_to (fetch vm) (ticked vm None, w1, g, pushed d (position (advance vm, w, g, d)) None)"
    by (rule session_exec [OF core]) (simp_all add: st sink_request_def vm word_le_nat_alt)
  define vm1 where "vm1 = set_reg 2 5 (ticked vm None)"
  define d1 where "d1 = pushed d (position (advance vm, w, g, d)) None"
  have step1: "goto_step (vm, w, g, d) = Inl (vm1, w1, g, d1)"
    by (simp add: s1 sample_fetch [OF vm(1)] st sample_dispatch do_LI_def vm1_def d1_def)
  note core1 = debug_next(1) [OF core step1, unfolded after_fetch_def prod.case, THEN conjunct1]
  have m1: "vm_mem vm1 = vm_mem (fst sample_session)" by (simp add: vm1_def access_defs vm)
  have st1: "cycle_count (vm_state vm1) = 1" "pc (vm_state vm1) = 4" "halted (vm_state vm1) = HALT_RUNNING"
    "regs (vm_state vm1) ! 2 = 5"
    by (simp_all add: vm1_def access_defs st)
  have d1: "d_breakpoints d1 = {}" "d_target_cycle d1 = 3" by (simp_all add: d1_def vm)
  obtain w2 where s2: "goto_step (vm1, w1, g, d1) =
      jump_to (fetch vm1) (ticked vm1 None, w2, g, pushed d1 (position (advance vm1, w1, g, d1)) None)"
    by (rule session_exec [OF core1]) (simp_all add: st1 sink_request_def d1 word_le_nat_alt)
  define vm2 where "vm2 = (ticked vm1 None)\<lparr>vm_deltas := log_store (vm_mem vm1) 0x100 [],
    vm_mem := mem_store_u32 (vm_mem vm1) 0x100 5\<rparr>"
  define d2 where "d2 = pushed d1 (position (advance vm1, w1, g, d1)) None"
  have step2: "goto_step (vm1, w1, g, d1) = Inl (vm2, w2, g, d2)"
    by (simp add: s2 sample_fetch [OF m1] st1 sample_dispatch do_STORE_def vm2_def d2_def get_reg_def)
  note core2 = debug_next(1) [OF core1 step2, unfolded after_fetch_def prod.case, THEN conjunct1]
  have st2: "cycle_count (vm_state vm2) = 2" by (simp add: vm2_def st1)
  have d2: "d_target_cycle d2 = 3" by (simp add: d2_def d1)
  obtain w3 where step3: "goto_step (vm2, w2, g, d2) = Inr (Returned HALT_STEP,
      ticked vm2 (Some HALT_STEP), w3, g, pushed d2 (position (advance vm2, w2, g, d2)) (Some HALT_STEP))"
    by (rule session_halt [OF core2, of HALT_STEP])
      (simp_all add: st2 sink_request_def d2 UINT64_MAX_def const_defs)
  have "run_goto (vm, w, g, d) = Some (Returned HALT_STEP,
      ticked vm2 (Some HALT_STEP), w3, g, pushed d2 (position (advance vm2, w2, g, d2)) (Some HALT_STEP))"
    unfolding run_goto_def using step3
    by (simp add: run_loop_next [where step = goto_step, OF step1] run_loop_next [where step = goto_step, OF step2] run_loop_stop)
  moreover have "vm_mem vm2 0x100 = 5"
    by (simp add: vm2_def mem_store_u32_def MEM_MASK_def)
  moreover have "cycle_count (vm_state (ticked vm2 (Some HALT_STEP))) = 3" by (simp add: st2)
  ultimately show ?thesis unfolding s by (intro exI conjI) (assumption | simp)+
qed

text \<open>The line \<open>bp 4\<close> of a script.\<close>

lemma sample_bp:
  "\<exists>w'. repl_iter (Some ''bp 4'', vm, w, g, d) =
    Inl (Some [], vm, w', g, d\<lparr>d_breakpoints := insert 4 (d_breakpoints d)\<rparr>)"
proof -
  have "get_line ''bp 4'' = Some (''bp 4'', [])" by (simp add: get_line_def)
  moreover have "trim_line ''bp 4'' = ''bp 4''" by (simp add: trim_line_def isspace_def)
  moreover have "split_ws ''bp 4'' = [''bp'', ''4'']" by (simp add: split_ws.simps isspace_def)
  moreover have "parse_numeric_arg ''4'' = Some 4"
    by (simp add: parse_numeric_arg_def c_str_def strtoul_def isspace_def is_digit_def
        digit_val_def digits_val_def digit_num_def ULONG_MAX_def)
  moreover have "bp_addr 4 = 4" by (simp add: bp_addr_def MEM_MASK_def)
  ultimately show ?thesis
    by (simp add: repl_iter_def read_line_def prompt_def repl_line_def debug_command_def
        debug_breakpoint_def say_def upd_debug_def Let_def)
qed

text \<open>\<open>step 1\<close> stops before it executes anything.\<close>

lemma step_one_stops:
  assumes ready: "debug_ready (vm, w, g, d)" and halt: "resumable (halted (vm_state vm))"
    and cycle: "cycle_count (vm_state vm) + 1 \<noteq> UINT64_MAX"
  shows "\<exists>w' d'. debug_command [''step''] (vm, w, g, d) = Some (Debug_Continue,
      vm\<lparr>vm_state := (vm_state vm)\<lparr>pc := pc (vm_state vm) + 4,
        cycle_count := cycle_count (vm_state vm) + 1, halted := HALT_STEP\<rparr>\<rparr>, w', g, d')
    \<and> fault w' = fault w \<and> d_cursor d' = d_cursor d"
proof -
  let ?t = "cycle_count (vm_state vm) + 1"
  let ?r = "vm\<lparr>vm_state := (vm_state vm)\<lparr>halted := HALT_RUNNING\<rparr>\<rparr>"
  let ?d = "d\<lparr>d_target_cycle := ?t\<rparr>"
  have r: "resumed ?t (vm, w, g, d) = (?r, w, g, ?d)" by (simp add: resumed_def)
  have core: "debug_core (?r, w, g, ?d)"
    using resumed_core [of "(vm, w, g, d)" ?t] ready by (simp add: r debug_ready_def)
  have req: "sink_request ?d (cycle_count (vm_state ?r) + 1) (pc (vm_state ?r) + 4) = Some HALT_STEP"
    using cycle by (simp add: sink_request_def)
  obtain w' where stop: "goto_step (?r, w, g, ?d) = Inr (Returned HALT_STEP, ticked ?r (Some HALT_STEP), w', g,
       pushed ?d (position (advance ?r, w, g, ?d)) (Some HALT_STEP))"
    and w': "fault w' = fault w"
    by (rule session_halt [OF core _ req]) (simp_all add: const_defs)
  have "vm_deltas vm = []" "snap_timer (vm_state vm) = 1"
    using ready by (simp_all add: debug_ready_def debug_core_def)
  then have same: "ticked ?r (Some HALT_STEP) = vm\<lparr>vm_state := (vm_state vm)\<lparr>pc := pc (vm_state vm) + 4,
        cycle_count := cycle_count (vm_state vm) + 1, halted := HALT_STEP\<rparr>\<rparr>"
    by (cases vm; cases "vm_state vm") (simp add: ticked_def advance_def upd_state_def)
  have "count_arg [''step''] = Inr 1" by (simp add: count_arg_def)
  then show ?thesis
    using debug_step_run [OF halt, of "[''step'']" 1 w g d]
      run_loop_stop [where step = goto_step, OF stop]
      vm_run_resumed [of ?t "(vm, w, g, d)"]
    by (auto simp: debug_command_def debug_drive_def run_goto_def r same w')
qed

section \<open>Properties\<close>

text \<open>
  C5: \<open>back\<close> undoes \<open>step\<close>. From a prompt whose machine is where the newest snapshot was taken (the
  start of a session, a step, a breakpoint, an earlier \<open>back\<close>), \<open>step N\<close> with \<open>N \<le> 255\<close> executes some
  number \<open>k \<le> N\<close> of cycles, whatever stops it, and \<open>back k\<close> then brings back every byte of memory,
  the registers, pc, sp, flags, the cycle count and the replay cursor; also when the ring has
  evicted entries in between. Only the halt tag becomes that of the snapshot.
\<close>

theorem step_then_back:
  assumes ready: "debug_ready (vm, w, g, d)" and at: "at_snapshot (vm, w, g, d)"
    and halt: "resumable (halted (vm_state vm))"
    and n: "1 \<le> n" "n \<le> 255" "unat (cycle_count (vm_state vm)) + n < 2 ^ 64 - 1"
    and step: "debug_command [''step'', fmt_u n] (vm, w, g, d) = Some (Debug_Continue, vm', w', g', d')"
  defines "k \<equiv> unat (cycle_count (vm_state vm') - cycle_count (vm_state vm))"
  shows "1 \<le> k \<and> k \<le> n \<and> (\<exists>vm'' w'' d''. debug_command [''back'', fmt_u k] (vm', w', g', d') =
      Some (Debug_Continue, vm'', w'', g', d'')
    \<and> vm_mem vm'' = vm_mem vm
    \<and> vm_state vm'' = (vm_state vm)\<lparr>halted := s_halted (rs_core (d_ring d ! d_history_index d))\<rparr>
    \<and> (d_replay_mode d \<longrightarrow> d_cursor d'' = d_cursor d))"
proof -
  let ?c = "(vm, w, g, d)" and ?top = "d_ring d ! d_history_index d"
  define t where "t = cycle_count (vm_state vm) + of_nat n"
  have core: "debug_core ?c" and deltas: "vm_deltas vm = []" using ready by (simp_all add: debug_ready_def)
  have "take_bit 64 n = n" using n by (intro take_bit_nat_eq_self) simp
  then have "unat (of_nat n :: u64) = n" by (simp add: unsigned_of_nat)
  then have "(of_nat n :: u64) \<noteq> 0" using n(1) by (metis not_one_le_zero unat_0)
  moreover have "count_arg [''step'', fmt_u n] = Inr (of_nat n)"
    using n by (simp add: count_arg_def parse_fmt_u ULONG_MAX_def)
  ultimately have "debug_drive (resumed t ?c) = Some (Debug_Continue, vm', w', g', d')"
    using step debug_step_run [OF halt] by (simp add: debug_command_def t_def)
  then obtain r where run: "run_goto (resumed t ?c) = Some (Returned r, vm', w', g', d')"
    by (rule debug_drive_continue)
  obtain j where j: "0 < j" "j \<le> n" and hist: "history (resumed t ?c) j (vm', w', g', d')"
    and deltas': "vm_deltas vm' = []"
    using step_run_count [OF run [unfolded t_def] core] n unfolding t_def by auto
  have "k = j"
    unfolding k_def using hist j n by (intro cycle_difference) (simp_all add: history_def resumed_def)
  have idx: "j \<le> d_history_index d'" using hist j n by (simp add: history_def resumed_def)
  have j': "j \<le> ULONG_MAX" using j n by (simp add: ULONG_MAX_def)
  obtain w'' where undone: "debug_command [''back'', fmt_u j] (vm', w', g', d') =
    Some (Debug_Continue,
      vm'\<lparr>vm_mem := undo_last j (ring_of d') (vm_mem vm'),
         vm_state := restore_snapshot (rs_core (d_ring d' ! (d_history_index d' - j))) (vm_state vm')\<rparr>,
      w'', g',
      d'\<lparr>d_cursor := (if d_replay_mode d' then rs_cursor (d_ring d' ! (d_history_index d' - j))
           else d_cursor d'), d_history_index := d_history_index d' - j\<rparr>)"
    using debug_back_effect [OF j(1) idx j'] by blast
  have top: "d_ring d' ! (d_history_index d' - j) = ?top" "d_replay_mode d' = d_replay_mode d"
    using hist j n by (simp_all add: history_def resumed_def)
  have "base_mem vm' = vm_mem vm'" using deltas' by (simp add: base_mem_def)
  then have mem: "undo_last j (ring_of d') (vm_mem vm') = vm_mem vm"
    using hist j n deltas by (simp add: history_def resumed_def base_mem_def)
  have "restore_snapshot (rs_core ?top) (vm_state vm') = restore_snapshot (rs_core ?top) (vm_state vm)"
    using hist core by (intro restore_snapshot_regs) (auto simp: history_def debug_core_def resumed_def)
  also have "\<dots> = (vm_state vm)\<lparr>halted := s_halted (rs_core ?top)\<rparr>"
    using at by (simp add: at_snapshot_def Let_def)
  finally have state: "restore_snapshot (rs_core ?top) (vm_state vm') =
      (vm_state vm)\<lparr>halted := s_halted (rs_core ?top)\<rparr>" .
  have "d_replay_mode d \<longrightarrow> rs_cursor ?top = d_cursor d"
    using at by (simp add: at_snapshot_def Let_def)
  with undone j top mem state show ?thesis unfolding \<open>k = j\<close> by auto
qed

text \<open>\<open>step 3\<close> on the sample stores 5 at 0x100; \<open>back 3\<close> removes it again.\<close>

theorem step_then_back_witness:
  "\<exists>vm' w' g' d' vm'' w'' d''.
     debug_command [''step'', fmt_u 3] sample_session = Some (Debug_Continue, vm', w', g', d')
     \<and> vm_mem vm' 0x100 = 5
     \<and> debug_command [''back'', fmt_u 3] (vm', w', g', d') = Some (Debug_Continue, vm'', w'', g', d'')
     \<and> vm_mem vm'' = vm_mem (fst sample_session)"
proof -
  obtain vm w g d where s: "sample_session = (vm, w, g, d)" by (metis prod_cases4)
  have st: "cycle_count (vm_state vm) = 0" "halted (vm_state vm) = HALT_RUNNING"
    using sample_fields(1) by (simp_all add: s)
  have ready: "debug_ready (vm, w, g, d)" using sample_ready by (simp add: s)
  have at: "at_snapshot (vm, w, g, d)" using ready st by (simp add: debug_ready_def const_defs)
  have halt: "resumable (halted (vm_state vm))" by (simp add: st resumable_def)
  obtain vm' w' g' d' where run: "run_goto (resumed 3 (vm, w, g, d)) = Some (Returned HALT_STEP, vm', w', g', d')"
    "vm_mem vm' 0x100 = 5" "cycle_count (vm_state vm') = 3"
    using sample_run by (auto simp: s)
  have arg: "count_arg [''step'', fmt_u 3] = Inr 3"
    using parse_fmt_u [of 3] by (simp add: count_arg_def ULONG_MAX_def)
  have step: "debug_command [''step'', fmt_u 3] (vm, w, g, d) = Some (Debug_Continue, vm', w', g', d')"
    using debug_step_run [OF halt arg] run(1)
    by (simp add: debug_command_def debug_drive_def vm_run_resumed st)
  have n: "(1::nat) \<le> 3" "(3::nat) \<le> 255" "unat (cycle_count (vm_state vm)) + 3 < 2 ^ 64 - 1"
    by (simp_all add: st)
  have k: "unat (cycle_count (vm_state vm') - cycle_count (vm_state vm)) = 3" by (simp add: run st)
  from step_then_back [OF ready at halt n step, unfolded k] step run(2) show ?thesis
    unfolding s by fastforce
qed

text \<open>
  C37: \<open>step 1\<close> executes no instruction. The sink stops the machine between the fetch and the
  dispatch, and resuming does not rewind, so from any prompt that can resume \<open>step\<close>, whose count
  is 1 when none is given, leaves the registers, the flags and all of memory unchanged, whatever instruction is at pc, and
  advances pc by 4 and the cycle count by 1: the instruction is skipped.
\<close>

theorem step_one_skips:
  assumes ready: "debug_ready (vm, w, g, d)" and halt: "resumable (halted (vm_state vm))"
    and cycle: "cycle_count (vm_state vm) + 1 \<noteq> UINT64_MAX"
  shows "\<exists>w' d'. debug_command [''step''] (vm, w, g, d) = Some (Debug_Continue,
      vm\<lparr>vm_state := (vm_state vm)\<lparr>pc := pc (vm_state vm) + 4,
        cycle_count := cycle_count (vm_state vm) + 1, halted := HALT_STEP\<rparr>\<rparr>, w', g, d')"
  using step_one_stops [OF assms] by blast

theorem step_one_skips_witness:
  "\<exists>vm' w' g' d'. debug_command [''step''] sample_session = Some (Debug_Continue, vm', w', g', d')
     \<and> fetch (fst sample_session) = 0x2D000005 \<and> pc (vm_state vm') = 4
     \<and> regs (vm_state vm') = replicate 8 0 \<and> halted (vm_state vm') = HALT_STEP"
proof -
  obtain vm w g d where s: "sample_session = (vm, w, g, d)" by (metis prod_cases4)
  have st: "vm_state vm = vm_state (fst sample_session)" by (simp add: s)
  have ready: "debug_ready (vm, w, g, d)" using sample_ready by (simp add: s)
  have halt: "resumable (halted (vm_state vm))" by (simp add: st sample_fields(1) resumable_def)
  have cyc: "cycle_count (vm_state vm) + 1 \<noteq> UINT64_MAX" by (simp add: st sample_fields(1) UINT64_MAX_def)
  have "fetch (fst sample_session) = 0x2D000005"
    by (rule sample_fetch) (simp_all add: sample_fields(1))
  with step_one_skips [OF ready halt cyc] show ?thesis
    unfolding s using sample_fields(1) by (auto simp: s)
qed





text \<open>
  C15: the invariant of a debugging session, at every prompt of the loop, whatever commands were
  given and wherever they come from: the sink is installed with an interval of one cycle, no delta
  is pending outside the ring, the ring never holds more than 256 snapshots and always holds the
  current position, and unless a division trapped the machine is where the newest snapshot was taken.
\<close>

theorem session_invariant:
  assumes "vm = snd (load_program bs (VM_new debug_in debug_rand))"
    and "steps repl_iter n (src, debug_session reader trace_path vm w g) = Some (src', vm', w', g', d')"
  shows "vm_sink vm' = Some debug_sink \<and> snap_interval (vm_state vm') = 1
    \<and> snap_timer (vm_state vm') = 1 \<and> vm_deltas vm' = []
    \<and> d_history_index d' < length (d_ring d') \<and> length (d_ring d') \<le> 256
    \<and> (halted (vm_state vm') \<noteq> HALT_DIV_ZERO \<longrightarrow> at_snapshot (vm', w', g', d'))"
proof -
  have "debug_ready (snd (src', vm', w', g', d'))"
    using assms(2) by (rule steps_invariant) (auto intro: session_start_ready [OF assms(1)] repl_iter_ready)
  then show ?thesis
    by (simp add: debug_ready_def debug_core_def ring_of_def ring_ok_def kRingCap_def)
qed

theorem session_invariant_witness:
  "\<exists>vm' w' g' d'. steps repl_iter 1 (Some ''bp 4'', sample_session) = Some (Some [], vm', w', g', d')
     \<and> d_breakpoints d' = {4} \<and> length (d_ring d') \<le> 256 \<and> vm_sink vm' = Some debug_sink"
proof -
  obtain vm w g d where s: "sample_session = (vm, w, g, d)" by (metis prod_cases4)
  obtain w' where "repl_iter (Some ''bp 4'', vm, w, g, d) =
      Inl (Some [], vm, w', g, d\<lparr>d_breakpoints := insert 4 (d_breakpoints d)\<rparr>)"
    using sample_bp by blast
  then have steps: "steps repl_iter 1 (Some ''bp 4'', sample_session) =
      Some (Some [], vm, w', g, d\<lparr>d_breakpoints := insert 4 (d_breakpoints d)\<rparr>)"
    by (simp add: s)
  have "d_breakpoints d = {}" using sample_fields(3) by (simp add: s)
  with session_invariant [OF refl steps [unfolded sample_session_def]] steps show ?thesis by auto
qed

lemma repl_line_hangs:
  "repl_line line (vm, w, g, d) = None \<longleftrightarrow>
     (\<exists>t. trim_line line \<noteq> [] \<and> hd (trim_line line) \<noteq> CHR ''#'' \<and> split_ws (trim_line line) \<noteq> []
        \<and> starts (split_ws (trim_line line)) (vm_state vm) t
        \<and> vm_run (resumed t (vm, print_out (''(retrovm) '' @ c_str (trim_line line) @ nl) w, g, d)) = None)"
  by (simp add: repl_line_def say_def Let_def command_hangs)

lemma repl_iter_hangs:
  "repl_iter (Some rest, c) = Inr None \<longleftrightarrow> (\<exists>line rest'. get_line rest = Some (line, rest') \<and> repl_line line c = None)"
  by (cases c) (auto simp: repl_iter_def read_line_def prompt_def split: option.splits DebugStatus.splits)

text \<open>
  C25: a batch session of the debugger ends unless it starts a run that does not. For every script and
  every start, the loop fails to return exactly if, after finitely many lines, it comes to a line of the
  script that is a \<open>step\<close> with a count other than 0 or a \<open>continue\<close>, at a prompt where the machine
  can be resumed, and the run this command starts - the machine of that prompt, with the step target the
  command sets - never halts. In particular every script without these two commands returns.
\<close>

theorem batch_session_returns:
  "cmd_debug_run bin (Some script, vm, x) = None \<longleftrightarrow>
   (\<exists>n rest line rest' vm' w' g' d' t.
      steps repl_iter n (Some script, vm, say (debug_banner bin (the_debug x)) x) = Some (Some rest, vm', w', g', d')
    \<and> get_line rest = Some (line, rest')
    \<and> trim_line line \<noteq> [] \<and> hd (trim_line line) \<noteq> CHR ''#'' \<and> split_ws (trim_line line) \<noteq> []
    \<and> starts (split_ws (trim_line line)) (vm_state vm') t
    \<and> vm_run (resumed t (vm', print_out (''(retrovm) '' @ c_str (trim_line line) @ nl) w', g', d')) = None)"
    (is "_ = ?R")
proof -
  let ?c = "(vm, say (debug_banner bin (the_debug x)) x)"
  have hangs: "?R \<longleftrightarrow> (\<exists>n rest c. steps repl_iter n (Some script, ?c) = Some (Some rest, c)
      \<and> repl_iter (Some rest, c) = Inr None)"
    unfolding repl_iter_hangs split_paired_Ex repl_line_hangs by blast
  show ?thesis
    unfolding hangs
  proof
    assume none: "cmd_debug_run bin (Some script, vm, x) = None"
    from batch_steps [of script ?c] obtain n rest c r
      where s: "steps repl_iter n (Some script, ?c) = Some (Some rest, c)" "repl_iter (Some rest, c) = Inr r"
      by blast
    have "run_loop repl_iter (Some script, ?c) = Some r"
      using run_loop_steps [OF s(1)] run_loop_stop [where step = repl_iter, OF s(2)] by simp
    then have "r = None" using none by (simp add: cmd_debug_run_def)
    with s show "\<exists>n rest c. steps repl_iter n (Some script, ?c) = Some (Some rest, c)
        \<and> repl_iter (Some rest, c) = Inr None" by blast
  next
    assume "\<exists>n rest c. steps repl_iter n (Some script, ?c) = Some (Some rest, c)
        \<and> repl_iter (Some rest, c) = Inr None"
    then obtain n rest c where s: "steps repl_iter n (Some script, ?c) = Some (Some rest, c)"
      "repl_iter (Some rest, c) = Inr None" by blast
    then have "run_loop repl_iter (Some script, ?c) = Some None"
      using run_loop_steps [OF s(1)] run_loop_stop [where step = repl_iter, OF s(2)] by simp
    then show "cmd_debug_run bin (Some script, vm, x) = None" by (simp add: cmd_debug_run_def)
  qed
qed

end
