(* ===== verification/SaveRestore.thy ===== *)
theory SaveRestore
  imports Commands Checkpoint
begin

text \<open>
  The commands \<open>save\<close> and \<open>restore\<close> of \<open>src/main.cpp\<close>: a replay that stops just before the frame
  \<open>at_frame\<close> and writes a checkpoint, and a replay that continues from a checkpoint.
\<close>

section \<open>save\<close>

text \<open>The state its closures capture: the world, the replay cursor and the flag \<open>saved\<close>.\<close>

type_synonym saver = "world \<times> nat \<times> bool"

definition save_hook :: "TraceReader \<Rightarrow> u8 \<Rightarrow> u64 \<Rightarrow> saver \<Rightarrow> (TraceMismatch + u32) \<times> saver" where
  "save_hook reader op cycle x = (case x of (w, cursor, saved) \<Rightarrow>
     case consume reader cycle op cursor of (v, cursor) \<Rightarrow> (v, w, cursor, saved))"

definition save_observer :: "u64 \<Rightarrow> u8 \<Rightarrow> u32 \<Rightarrow> saver \<Rightarrow> saver" where
  "save_observer cycle op v x = (case x of (w, cursor, saved) \<Rightarrow>
     (print_out (trace_line cycle op v) w, cursor, saved))"

definition save_hooks :: "TraceReader \<Rightarrow> saver IOHooks" where
  "save_hooks reader = \<lparr>on_nondeterministic = Some save_observer,
     io_in = Some (save_hook reader OP_IN), io_rand = Some (save_hook reader OP_RAND)\<rparr>"

text \<open>
  The checkpoint of the machine state \<open>vs\<close>. \<open>frame_index\<close> is 32 bits wide; the pc on disk is the
  address of the instruction that the fetch has already advanced past.
\<close>

definition checkpoint_of :: "nat \<Rightarrow> VMState \<Rightarrow> CheckpointState" where
  "checkpoint_of at_frame vs = \<lparr>ck_frame_index = of_nat at_frame, ck_halted = HALT_CHECKPOINT,
     ck_flags = flags vs, ck_regs = map (\<lambda>i. regs vs ! i) [0..<8], ck_pc = pc vs - 4,
     ck_sp = sp vs\<rparr>"

definition save_sink :: "string \<Rightarrow> nat \<Rightarrow> u64 \<Rightarrow> saver SnapshotSink" where
  "save_sink state_path at_frame target_cycle vs s x = (case x of (w, cursor, saved) \<Rightarrow>
     if saved then (None, x)
     else if cursor \<noteq> at_frame then (None, x)
     else if cycle_count vs \<noteq> target_cycle then (None, x)
     else case checkpoint_save state_path (checkpoint_of at_frame vs) w of
       (False, w) \<Rightarrow> (None, w, cursor, True)
     | (True, w) \<Rightarrow>
         (Some HALT_CHECKPOINT,
          print_out (''  [save] at-frame='' @ fmt_u at_frame @ ''  cycle='' @
            fmt_u64 (cycle_count vs) @ ''  pc=0x'' @ fmt_08x (pc vs) @ ''  -> '' @ state_path @ nl) w,
          cursor, True))"

definition save_vm :: "TraceReader \<Rightarrow> string \<Rightarrow> nat \<Rightarrow> u64 \<Rightarrow> bytes \<Rightarrow> bool \<times> saver VM" where
  "save_vm reader state_path at_frame target_cycle bs =
     (case load_program bs (VM_new (save_hook reader OP_IN) (save_hook reader OP_RAND)) of
        (ok, vm) \<Rightarrow>
          (ok, set_io_hooks (save_hooks reader)
                 (set_snapshot_sink (Some (save_sink state_path at_frame target_cycle))
                   (set_snapshot_interval 1 vm))))"

definition save_mismatch_text :: "TraceMismatch \<Rightarrow> string" where
  "save_mismatch_text d =
     ''*** save aborted: trace mismatch ***'' @ nl @
     ''  expected at cycle='' @ fmt_u64 (expected_cycle d) @ ''  opcode=0x'' @
       fmt_02X (expected_op d) @ nl @
     ''  trace  frame#'' @ pad_right 4 (CHR '' '') (fmt_u (frame_idx d)) @ ''    opcode=0x'' @
       fmt_02X (actual_op d) @ ''  cycle='' @ fmt_u64 (actual_cycle d) @ nl"

definition cmd_save :: "string \<Rightarrow> string \<Rightarrow> string \<Rightarrow> nat \<Rightarrow> world \<Rightarrow> (outcome \<times> world) option" where
  "cmd_save bin trace_path state_path at_frame w = (case read_file bin w of
     Inl w \<Rightarrow> Some (Exit 1, w)
   | Inr bs \<Rightarrow>
      (case TraceReader_open trace_path w of
         Inl err \<Rightarrow> Some (Uncaught err, w)
       | Inr reader \<Rightarrow>
          (case frame_at reader at_frame of
             None \<Rightarrow> Some (Exit 1, print_err (''retrovm save: --at-frame='' @ fmt_u at_frame @
               '' out of range (trace has '' @ fmt_u (rd_frame_count reader) @ '' frames in '' @
               sq @ trace_path @ sq @ '')'' @ nl) w)
           | Some target \<Rightarrow>
              (case save_vm reader state_path at_frame (f_cycle target) bs of
                 (False, _) \<Rightarrow> Some (Exit 1, print_err (''retrovm save: '' @ too_large) w)
               | (True, vm) \<Rightarrow>
                  let w = print_out (''retrovm: save '' @ sq @ bin @ sq @ '' ('' @
                        fmt_u (length bs) @ '' bytes) at-frame='' @ fmt_u at_frame @
                        '' (target cycle='' @ fmt_u64 (f_cycle target) @ '') -> '' @ state_path @ nl) w
                  in (case vm_run (vm, w, 0, False) of
                        None \<Rightarrow> None
                      | Some (Thrown d, _, w, _) \<Rightarrow> Some (Exit 3, print_err (save_mismatch_text d) w)
                      | Some (Returned r, vm, w, cursor, saved) \<Rightarrow>
                         if r \<noteq> HALT_CHECKPOINT then
                           Some (Exit 1, print_err (''retrovm save: VM halted with reason '' @
                             fmt_u32 r @ '' before reaching target (consumed '' @ fmt_u cursor @
                             '' of '' @ fmt_u (rd_frame_count reader) @ '' frames)'' @ nl) w)
                         else if cursor \<noteq> at_frame then
                           Some (Exit 1, print_err (''retrovm save: cursor mismatch (got '' @
                             fmt_u cursor @ '', want '' @ fmt_u at_frame @ '')'' @ nl) w)
                         else
                           let w = print_out (''  [save] replay exhausted '' @ fmt_u cursor @
                                 '' frame(s); VM halted at frame_index='' @ fmt_u at_frame @ nl) w
                           in Some (Exit 0, print_out (dump_state (vm_state vm) r) w))))))"

section \<open>restore\<close>

definition restored_state :: "CheckpointState \<Rightarrow> TraceFrame \<Rightarrow> VMState" where
  "restored_state cstate next_frame = VMState_init\<lparr>cycle_count := f_cycle next_frame - 1,
     regs := map (\<lambda>i. ck_regs cstate ! i) [0..<8], pc := ck_pc cstate, sp := ck_sp cstate,
     flags := ck_flags cstate, halted := HALT_RUNNING, snap_interval := 0, snap_timer := 0\<rparr>"

definition restore_vm :: "TraceReader \<Rightarrow> VMState \<Rightarrow> bytes \<Rightarrow> bool \<times> replayer VM" where
  "restore_vm reader restored bs =
     (case load_program bs (VM_new (replay_hook reader OP_IN) (replay_hook reader OP_RAND)) of
        (ok, vm) \<Rightarrow> (ok, set_io_hooks (replay_hooks reader) (set_state restored vm)))"

definition restore_banner :: "string \<Rightarrow> string \<Rightarrow> nat \<Rightarrow> CheckpointState \<Rightarrow> VMState \<Rightarrow> string" where
  "restore_banner bin state_path n cstate restored =
     ''retrovm: restore '' @ sq @ bin @ sq @ '' ('' @ fmt_u n @ '' bytes) frame_index='' @
       fmt_u32 (ck_frame_index cstate) @ '' -> resumed from cycle='' @
       fmt_u64 (cycle_count restored + 1) @ nl @
     ''  state           : '' @ state_path @ '' (loaded flag='' @
       (if ck_halted cstate = 1 then ''savenormal''
        else if ck_halted cstate = 6 then ''savecheckpoint'' else ''other'') @
       '' halted='' @ fmt_u32 (ck_halted cstate) @ '')'' @ nl @
     ''  restored regs   : R0='' @ fmt_u32 (ck_regs cstate ! 0) @
       '' R1='' @ fmt_u32 (ck_regs cstate ! 1) @ '' R2='' @ fmt_u32 (ck_regs cstate ! 2) @
       '' R3='' @ fmt_u32 (ck_regs cstate ! 3) @ '' R4='' @ fmt_u32 (ck_regs cstate ! 4) @
       '' R5='' @ fmt_u32 (ck_regs cstate ! 5) @ '' R6='' @ fmt_u32 (ck_regs cstate ! 6) @
       '' R7='' @ fmt_u32 (ck_regs cstate ! 7) @ nl @
     ''  restored pc/sp  : 0x'' @ fmt_08x (ck_pc cstate) @ '' / 0x'' @ fmt_08x (ck_sp cstate) @ nl"

definition restore_divergence_text :: "TraceMismatch \<Rightarrow> nat \<Rightarrow> nat \<Rightarrow> string" where
  "restore_divergence_text d cursor n_frames =
     nl @ ''*** Divergence Detected during restore! ***'' @ nl @
     ''  expected at cycle='' @ fmt_u64 (expected_cycle d) @ ''  opcode=0x'' @
       fmt_02X (expected_op d) @ nl @
     (if premature_eof d then []
      else ''  trace  frame#'' @ pad_right 4 (CHR '' '') (fmt_u (frame_idx d)) @ ''    opcode=0x'' @
        fmt_02X (actual_op d) @ ''  cycle='' @ fmt_u64 (actual_cycle d) @ nl) @
     ''restore aborted: '' @ fmt_u cursor @ '' frame(s) consumed of '' @ fmt_u n_frames @ nl"

text \<open>
  \<open>cmd_restore\<close>. Its variable \<open>HaltReason r\<close> is not initialised and is printed when \<open>run\<close> throws:
  \<open>garbage\<close> is the value found there.
\<close>

definition cmd_restore ::
    "HaltReason \<Rightarrow> string \<Rightarrow> string \<Rightarrow> string \<Rightarrow> world \<Rightarrow> (outcome \<times> world) option" where
  "cmd_restore garbage bin trace_path state_path w = (case read_file bin w of
     Inl w \<Rightarrow> Some (Exit 1, w)
   | Inr bs \<Rightarrow>
      (case TraceReader_open trace_path w of
         Inl err \<Rightarrow> Some (Uncaught err, w)
       | Inr reader \<Rightarrow>
          (case checkpoint_load state_path w of
             (None, w) \<Rightarrow> Some (Exit 1, w)
           | (Some cstate, w) \<Rightarrow>
              (case frame_at reader (unat (ck_frame_index cstate)) of
                 None \<Rightarrow> Some (Exit 1, print_err (''retrovm restore: state.frame_index='' @
                   fmt_u32 (ck_frame_index cstate) @ '' out of range (trace has '' @
                   fmt_u (rd_frame_count reader) @ '' frames in '' @ sq @ trace_path @ sq @ '')'' @ nl) w)
               | Some next_frame \<Rightarrow>
                  if f_cycle next_frame = 0 then
                    Some (Exit 1, print_err (''retrovm restore: trace.frame['' @
                      fmt_u32 (ck_frame_index cstate) @ ''].cycle is 0 (corrupt?)'' @ nl) w)
                  else
                    let restored = restored_state cstate next_frame in
                    (case restore_vm reader restored bs of
                       (False, _) \<Rightarrow> Some (Exit 1, print_err (''retrovm restore: '' @ too_large) w)
                     | (True, vm) \<Rightarrow>
                        let w = print_out (restore_banner bin state_path (length bs) cstate restored) w in
                        (case vm_run (vm, w, unat (ck_frame_index cstate)) of
                           None \<Rightarrow> None
                         | Some (Thrown d, vm, w, cursor) \<Rightarrow>
                            let w = print_err (restore_divergence_text d cursor (rd_frame_count reader)) w
                            in Some (Exit 3, print_out (dump_state (vm_state vm) garbage) w)
                         | Some (Returned r, vm, w, consumed) \<Rightarrow>
                            if consumed < rd_frame_count reader then
                              let w = print_err (nl @ ''*** Divergence Detected during restore! ***'' @
                                    nl @ ''  '' @ fmt_u (rd_frame_count reader - consumed) @
                                    '' unread frame(s) remain in trace (resumed program ended early)'' @
                                    nl) w
                              in Some (Exit 3, print_out (dump_state (vm_state vm) r) w)
                            else
                              let w = print_out (''restore OK ('' @
                                    fmt_u (consumed - unat (ck_frame_index cstate)) @
                                    '' frame(s) replayed from frame_index='' @
                                    fmt_u32 (ck_frame_index cstate) @ '')'' @ nl) w
                              in Some (Exit (exit_code r),
                                   print_out (dump_state (vm_state vm) r) w)))))))"

end
