(* ===== verification/RecordReplay.thy ===== *)
theory RecordReplay
  imports Commands
begin

text \<open>
  A recorded run can be replayed: the replay of the frames a recording produced takes the same
  steps, consumes every frame and ends in the same machine.
\<close>

section \<open>The frames a recording has written\<close>

definition frames_of :: "'g recorder cfg \<Rightarrow> TraceFrame list" where
  "frames_of c = (case c of (vm, w, g, fs) \<Rightarrow> fs)"

definition recording :: "('g \<Rightarrow> u32 \<times> 'g) \<Rightarrow> 'g recorder VM \<Rightarrow> bool" where
  "recording gen vm \<longleftrightarrow> vm_io vm = record_hooks gen \<and> vm_sink vm = None"

definition replaying :: "TraceReader \<Rightarrow> replayer VM \<Rightarrow> bool" where
  "replaying reader vm \<longleftrightarrow> vm_io vm = replay_hooks reader \<and> vm_sink vm = None"

text \<open>What the replay prints for the frames it has consumed.\<close>

definition trace_lines :: "TraceFrame list \<Rightarrow> string" where
  "trace_lines fs = concat (map (\<lambda>f. trace_line (f_cycle f) (f_opcode f) (f_value f)) fs)"

definition replay_env :: "world \<Rightarrow> TraceFrame list \<Rightarrow> replayer" where
  "replay_env w0 fs = (print_out (trace_lines fs) w0, length fs)"

text \<open>
  The simulation relation: the same core, and a replay that has consumed and printed exactly the
  frames written so far, in the world \<open>w0\<close> it started in.
\<close>

definition rr_rel :: "('g \<Rightarrow> u32 \<times> 'g) \<Rightarrow> TraceFrame list \<Rightarrow> world \<Rightarrow>
    'g recorder cfg \<Rightarrow> replayer cfg \<Rightarrow> bool" where
  "rr_rel gen T w0 c d \<longleftrightarrow> same_core (fst c) (fst d) \<and> recording gen (fst c)
     \<and> replaying (reader_of T) (fst d) \<and> snd d = replay_env w0 (frames_of c)"

definition rr_res :: "world \<Rightarrow>
    run_result \<times> 'g recorder cfg \<Rightarrow> run_result \<times> replayer cfg \<Rightarrow> bool" where
  "rr_res w0 r s \<longleftrightarrow> fst r = fst s \<and> same_core (fst (snd r)) (fst (snd s))
     \<and> snd (snd s) = replay_env w0 (frames_of (snd r))"

text \<open>What the end of the recording tells about every configuration before it.\<close>

definition written :: "('g \<Rightarrow> u32 \<times> 'g) \<Rightarrow> TraceFrame list \<Rightarrow> 'g recorder cfg \<Rightarrow> bool" where
  "written gen T c \<longleftrightarrow> recording gen (fst c) \<and> prefix (frames_of c) T"

lemma consume_hit:
  "prefix (fs @ [\<lparr>f_cycle = cyc, f_opcode = op, f_value = v\<rparr>]) T \<Longrightarrow>
     consume (reader_of T) cyc op (length fs) = (Inr v, length fs + 1)"
  by (auto simp: consume_def frame_at_reader_of prefix_def nth_append)

text \<open>One handler.\<close>

lemma record_handler_frames:
  assumes "exec_label l ops (u, w, g, fs) = Inl (u', w', g', fs')" "recording gen u"
  shows "prefix fs fs'"
proof (cases "is_io l")
  case True
  with assms show ?thesis
    by (auto simp: is_io_def do_IN_def do_RAND_def recording_def record_hooks_def record_in_def
        record_rand_def record_observer_def observe_def trace_append_def access_defs Let_def
        split: prod.splits)
next
  case False
  from exec_label_pure [OF False same_core_refl [of u], of "(w, g, fs)" "(w, g, fs)" ops] assms(1)
  show ?thesis by (auto simp: pure_rel_def)
qed

lemma record_replay_handler:
  assumes rel: "rr_rel gen T w0 (u, w, g, fs) (v, x, cur)"
    and ex: "exec_label l ops (u, w, g, fs) = Inl (u', w', g', fs')"
    and pre: "prefix fs' T"
  shows "\<exists>d. exec_label l ops (v, x, cur) = Inl d \<and> rr_rel gen T w0 (u', w', g', fs') d"
proof (cases "is_io l")
  case True
  obtain dst src imm where ops: "ops = (dst, src, imm)" by (cases ops)
  from rel have core: "same_core u v" and cur: "cur = length fs"
    and wx: "x = print_out (trace_lines fs) w0"
    and io: "vm_io u = record_hooks gen" "vm_sink u = None"
      "vm_io v = replay_hooks (reader_of T)" "vm_sink v = None"
    by (simp_all add: rr_rel_def recording_def replaying_def frames_of_def replay_env_def)
  have cyc: "cycle_count (vm_state v) = cycle_count (vm_state u)"
    using same_coreD(2) [OF core] by simp
  let ?op = "if l = label_IN then OP_IN else OP_RAND"
  obtain val where fs': "fs' = fs @ [\<lparr>f_cycle = cycle_count (vm_state u), f_opcode = ?op,
      f_value = val\<rparr>]" and u': "u' = set_reg dst val u"
    using True ex io
    by (auto simp: is_io_def ops do_IN_def do_RAND_def record_hooks_def record_in_def
        record_rand_def record_observer_def observe_def trace_append_def Let_def upd_state_def
        set_reg_def split: prod.splits)
  have hit: "consume (reader_of T) (cycle_count (vm_state u)) ?op (length fs) =
      (Inr val, length fs + 1)"
    using pre fs' by (intro consume_hit) simp
  have "exec_label l ops (v, x, cur) = Inl (set_reg dst val v,
      print_out (trace_line (cycle_count (vm_state v)) ?op val) x, length fs + 1)"
    using True io hit
    by (auto simp: is_io_def ops do_IN_def do_RAND_def replay_hooks_def replay_hook_def
        replay_observer_def observe_def cur cyc set_reg_def upd_state_def Let_def
        split: prod.splits)
  moreover have "rr_rel gen T w0 (u', w', g', fs') (set_reg dst val v,
      print_out (trace_line (cycle_count (vm_state v)) ?op val) x, length fs + 1)"
    using io same_core_upd(1) [OF core]
    by (simp add: rr_rel_def u' fs' recording_def replaying_def frames_of_def set_reg_def
        upd_state_def replay_env_def wx cyc trace_lines_def)
  ultimately show ?thesis by blast
next
  case False
  from rel have core: "same_core u v" by (simp add: rr_rel_def)
  from exec_label_pure [OF False core, of "(w, g, fs)" "(x, cur)" ops] ex rel
  show ?thesis
    by (auto simp: rel_sum.simps pure_rel_def rr_rel_def recording_def replaying_def frames_of_def
        replay_env_def)
qed

text \<open>One step of the loop.\<close>

lemma record_tick:
  assumes "recording gen u" "snap_tick (advance u, x) = (b, u1, x1)"
  shows "x1 = x" "recording gen u1" "frames_of (u1, x1) = frames_of (u, x)"
proof -
  have "vm_sink (advance u) = None" using assms(1) by (simp add: recording_def)
  then show "x1 = x"
    using snap_tick_no_sink [OF same_core_refl _ _ assms(2)] by auto
  then show "frames_of (u1, x1) = frames_of (u, x)"
    by (cases x) (simp add: frames_of_def)
  show "recording gen u1"
    using assms(1) snap_tick_frame(2,3) [OF assms(2)] by (simp add: recording_def)
qed

lemma record_replay_tick:
  assumes "rr_rel gen T w0 (u, x) (v, y)" "snap_tick (advance u, x) = (b, u1, x1)"
  shows "\<exists>v1. snap_tick (advance v, y) = (b, v1, y) \<and> rr_rel gen T w0 (u1, x1) (v1, y)"
proof -
  from assms(1) have core: "same_core u v" and s: "vm_sink u = None" "vm_sink v = None"
    and io: "vm_io v = replay_hooks (reader_of T)"
    by (simp_all add: rr_rel_def recording_def replaying_def)
  from snap_tick_no_sink [OF same_core_upd(5) [OF core] _ _ assms(2), of y] s
  obtain v1 where v1: "snap_tick (advance v, y) = (b, v1, y)" "same_core u1 v1"
    "vm_io v1 = vm_io v" "vm_sink v1 = None"
    by auto
  moreover have "recording gen u1" "frames_of (u1, x1) = frames_of (u, x)"
    using record_tick [OF _ assms(2)] assms(1) by (auto simp: rr_rel_def)
  ultimately show ?thesis
    using assms(1) io by (auto simp: rr_rel_def replaying_def)
qed

lemma recording_step:
  assumes "goto_step (u, x) = Inl (u', x')" "recording gen u'"
  shows "recording gen u" "prefix (frames_of (u, x)) (frames_of (u', x'))"
proof -
  obtain w g fs where x: "x = (w, g, fs)" by (cases x)
  obtain w' g' fs' where x': "x' = (w', g', fs')" by (cases x')
  from assms(1) obtain u1 x1 l ops where t: "snap_tick (advance u, x) = (False, u1, x1)"
    and e: "exec_label l ops (u1, x1) = Inl (u', x')"
    by (rule goto_step_InlE) blast
  obtain w1 g1 fs1 where x1: "x1 = (w1, g1, fs1)" by (cases x1)
  show rec: "recording gen u"
    using assms(2) snap_tick_frame(2,3) [OF t] exec_label_frame(1,2) [OF e]
    by (simp add: recording_def)
  have "prefix fs1 fs'"
    using e record_tick(2) [OF rec t] x1 x' by (auto intro: record_handler_frames)
  then show "prefix (frames_of (u, x)) (frames_of (u', x'))"
    using record_tick(1) [OF rec t] by (simp add: frames_of_def x x' x1)
qed

lemma recording_stop:
  assumes "goto_step (u, x) = Inr (r, u', x')" "recording gen u'"
  shows "recording gen u" "frames_of (u, x) = frames_of (u', x')"
proof -
  obtain u1 x1 b where t: "snap_tick (advance u, x) = (b, u1, x1)" by (metis prod_cases3)
  have io: "vm_io u1 = vm_io u'" "vm_sink u1 = vm_sink u'"
    using assms(1) t
    by (auto elim!: goto_step_InrE dest: exec_label_stop_frame(1,2) simp: access_defs)
  then show rec: "recording gen u"
    using assms(2) snap_tick_frame(2,3) [OF t] by (simp add: recording_def)
  note k = record_tick [OF rec t]
  have "frames_of (u1, x1) = frames_of (u', x')"
    using assms(1)
  proof (cases rule: goto_step_InrE)
    case (handler v y)
    then have e: "exec_label (dispatch_table ! unat (decode_op (fetch u)))
        (decode_dst (fetch u), decode_src (fetch u), decode_imm (fetch u)) (u1, x1) = Inr (r, u', x')"
      using t by simp
    obtain w g fs where x1: "x1 = (w, g, fs)" by (cases x1)
    obtain h where h: "vm_io u1 = record_hooks h" using k(2) by (simp add: recording_def)
    show ?thesis
      using e h unfolding x1
      by (cases "dispatch_table ! unat (decode_op (fetch u))")
        (auto simp: handler_defs record_hooks_def record_in_def record_rand_def frames_of_def
          Let_def split: prod.splits if_splits)
  qed (use t in \<open>auto simp: frames_of_def\<close>)
  with k(3) show "frames_of (u, x) = frames_of (u', x')" by simp
qed

lemma record_handler_stop:
  assumes "exec_label l ops (u, x) = Inr (r, c')" "recording gen u"
  shows "\<not> is_io l"
proof
  assume "is_io l"
  with assms show False
    by (cases x) (auto simp: is_io_def do_IN_def do_RAND_def recording_def record_hooks_def
        record_in_def record_rand_def Let_def split: prod.splits)
qed

lemma record_replay_stop:
  assumes rel: "rr_rel gen T w0 (u, x) (v, y)" and step: "goto_step (u, x) = Inr r"
  shows "\<exists>s. goto_step (v, y) = Inr s \<and> rr_res w0 r s"
proof -
  obtain b u1 x1 where t: "snap_tick (advance u, x) = (b, u1, x1)" by (metis prod_cases3)
  from record_replay_tick [OF rel t] obtain v1
    where t': "snap_tick (advance v, y) = (b, v1, y)" and rel1: "rr_rel gen T w0 (u1, x1) (v1, y)"
    by blast
  have core: "same_core u1 v1" and rec: "recording gen u1"
    and cur: "y = replay_env w0 (frames_of (u1, x1))"
    using rel1 by (simp_all add: rr_rel_def)
  have f: "fetch v = fetch u"
    using rel same_core_fetch [of u v] by (simp add: rr_rel_def)
  let ?l = "dispatch_table ! unat (decode_op (fetch u))"
  let ?ops = "(decode_dst (fetch u), decode_src (fetch u), decode_imm (fetch u))"
  show ?thesis
  proof (cases "b \<or> ucast OP_COUNT \<le> decode_op (fetch u)")
    case True
    then show ?thesis
      using step t t' f core cur same_core_upd(4) [OF core]
      by (auto simp: goto_step_eq jump_to_def rr_res_def frames_of_def same_coreD(2)
          replay_env_def split: if_splits)
  next
    case False
    then have e: "exec_label ?l ?ops (u1, x1) = Inr r"
      using step t by (simp add: goto_step_eq jump_to_def)
    have io: "\<not> is_io ?l"
      using e rec by (cases r) (auto dest: record_handler_stop)
    have "goto_step (v, y) = exec_label ?l ?ops (v1, y)"
      using False t' f by (simp add: goto_step_eq jump_to_def)
    then show ?thesis
      using exec_label_pure [OF io core, of x1 y ?ops] e cur
      by (auto simp: rel_sum.simps rel_prod_sel pure_rel_def rr_res_def frames_of_def split_def)
  qed
qed

interpretation rr: guarded_simulation goto_step goto_step "rr_rel gen T w0" "rr_res w0"
  "written gen T" "\<lambda>r. written gen T (snd r)"
  for gen :: "'g \<Rightarrow> u32 \<times> 'g" and T w0
proof unfold_locales
  fix c c' :: "'g recorder cfg"
  assume "goto_step c = Inl c'" "written gen T c'"
  then show "written gen T c"
    using recording_step [of "fst c" "snd c" "fst c'" "snd c'" gen]
    by (auto simp: written_def intro: prefix_order.trans)
next
  fix c :: "'g recorder cfg" and r
  assume "goto_step c = Inr r" "written gen T (snd r)"
  then show "written gen T c"
    using recording_stop [of "fst c" "snd c" "fst r" "fst (snd r)" "snd (snd r)" gen]
    by (auto simp: written_def)
next
  fix c c' :: "'g recorder cfg" and d :: "replayer cfg"
  assume rel: "rr_rel gen T w0 c d" and step: "goto_step c = Inl c'" and w: "written gen T c'"
  obtain u x where c: "c = (u, x)" by (cases c)
  obtain v y where d: "d = (v, y)" by (cases d)
  from step [unfolded c] obtain u1 x1
    where t: "snap_tick (advance u, x) = (False, u1, x1)"
      and op: "decode_op (fetch u) < ucast OP_COUNT"
      and e: "exec_label (dispatch_table ! unat (decode_op (fetch u)))
       (decode_dst (fetch u), decode_src (fetch u), decode_imm (fetch u)) (u1, x1) = Inl c'"
    by (rule goto_step_InlE)
  from record_replay_tick [OF rel [unfolded c d] t] obtain v1
    where t': "snap_tick (advance v, y) = (False, v1, y)" and rel1: "rr_rel gen T w0 (u1, x1) (v1, y)"
    by blast
  have f: "fetch v = fetch u"
    using rel same_core_fetch [of u v] by (simp add: c d rr_rel_def)
  obtain w1 g1 fs1 where x1: "x1 = (w1, g1, fs1)" by (cases x1)
  obtain z cur where y: "y = (z, cur)" by (cases y)
  obtain u' w' g' fs' where c': "c' = (u', w', g', fs')" by (cases c')
  have "prefix fs' T" using w by (simp add: written_def frames_of_def c')
  from record_replay_handler [OF rel1 [unfolded x1 y] e [unfolded x1 c'] this]
  show "\<exists>d'. goto_step d = Inl d' \<and> rr_rel gen T w0 c' d'"
    using t' op by (simp add: d goto_step_eq jump_to_def f not_le y c')
next
  fix c :: "'g recorder cfg" and d :: "replayer cfg" and r
  assume rel: "rr_rel gen T w0 c d" and step: "goto_step c = Inr r" and w: "written gen T (snd r)"
  show "\<exists>s. goto_step d = Inr s \<and> rr_res w0 r s"
    using record_replay_stop [of gen T w0 "fst c" "snd c" "fst d" "snd d"] rel step by simp
qed

section \<open>Whole runs\<close>

lemma record_replay_run:
  assumes run: "run_goto (u, w, g, []) = Some (res, u', w', g', T)" and rec: "recording gen u"
    and core: "same_core u v" and rep: "replaying (reader_of T) v"
  shows "\<exists>v'. run_goto (v, w0, 0) = Some (res, v', print_out (trace_lines T) w0, length T)
    \<and> same_core u' v'"
proof -
  have "recording gen u'"
    using run_goto_fixed [OF run] rec by (simp add: same_fixed_def recording_def)
  then have good: "written gen T (snd (res, u', w', g', T))"
    by (simp add: written_def frames_of_def)
  have rel: "rr_rel gen T w0 (u, w, g, []) (v, w0, 0)"
    using rec core rep by (simp add: rr_rel_def frames_of_def replay_env_def trace_lines_def)
  from rr.simulates [OF run [unfolded run_goto_def] good rel]
  show ?thesis
    by (auto simp: rr_res_def run_goto_def frames_of_def replay_env_def)
qed

text \<open>The machines the two commands build.\<close>

lemma record_vm_fresh:
  assumes "record_vm bs = (ok, u)"
  shows "recording mt_next u" "vm_mode u = ComputedGoto" "ok \<longleftrightarrow> length bs \<le> MEM_SIZE"
  using assms
  by (auto simp: record_vm_def load_program_def set_io_hooks_def VM_new_def reset_state_def
      recording_def split: if_splits)

lemma replay_vm_fresh:
  assumes "replay_vm reader bs = (ok, v)"
  shows "replaying reader v" "vm_mode v = ComputedGoto" "ok \<longleftrightarrow> length bs \<le> MEM_SIZE"
  using assms
  by (auto simp: replay_vm_def load_program_def set_io_hooks_def VM_new_def reset_state_def
      replaying_def split: if_splits)

lemma record_replay_vm_core:
  "record_vm bs = (ok, u) \<Longrightarrow> replay_vm reader bs = (ok', v) \<Longrightarrow> same_core u v"
  by (auto simp: record_vm_def replay_vm_def load_program_def set_io_hooks_def VM_new_def
      reset_state_def same_core_def fun_eq_iff split: if_splits)

text \<open>What a recording that ended normally has done.\<close>

lemma cmd_recordE:
  assumes "cmd_record bin seed w = Some (Exit code, w1)" "code \<noteq> 1"
  obtains bs u r u' w' g' T where "files w bin = Some bs" "record_vm bs = (True, u)"
    "run_goto (u, print_out (''retrovm: record '' @ sq @ bin @ sq @ '' ('' @ fmt_u (length bs) @
                '' bytes) seed=0x'' @ fmt_08x seed @ nl) w, mt_init seed, []) =
       Some (Returned r, u', w', g', T)"
    "files w1 (bin @ ''.trace'') = Some (trace_bytes T)" "code = exit_code r"
    "stdout w1 = stdout w' @ ''trace       : '' @ fmt_u (length T) @ '' frames -> '' @ bin @
       ''.trace'' @ nl @ dump_state (vm_state u') r"
  using assms
  by (auto simp: cmd_record_def read_file_def vm_run_def flush_to_file_def Let_def
      dest: record_vm_fresh(2)
      split: option.splits sum.splits bool.splits prod.splits run_result.splits if_splits)

text \<open>
  C1: a recording replays. Whenever \<open>record\<close> ends with an exit code other than 1, \<open>replay\<close> of the
  same binary against the trace it wrote, in any world that still has the two files, is VERIFIED:
  it ends with the same exit code, prints the banner, one \<open>[trace]\<close> line per recorded frame,
  \<open>replay VERIFIED\<close> and exactly the state dump the recording ended with, prints nothing on the
  error stream and changes no file.
\<close>

theorem record_then_replay:
  assumes rec: "cmd_record bin seed w = Some (Exit code, w1)" "code \<noteq> 1"
    and bin: "files w2 bin = files w bin"
    and trace: "files w2 (bin @ ''.trace'') = files w1 (bin @ ''.trace'')"
      "fault w2 (bin @ ''.trace'') = None"
  shows "\<exists>w3 out1 T st r. cmd_replay bin (bin @ ''.trace'') w2 = Some (Exit code, w3)
    \<and> files w1 (bin @ ''.trace'') = Some (trace_bytes T)
    \<and> stdout w1 = out1 @ dump_state st r
    \<and> stdout w3 = stdout w2
        @ replay_banner bin (bin @ ''.trace'') (length (the (files w bin))) (reader_of T)
        @ trace_lines T @ ''replay VERIFIED'' @ nl @ dump_state st r
    \<and> stderr w3 = stderr w2 \<and> files w3 = files w2"
  using rec
proof (rule cmd_recordE)
  fix bs u r u' w' g' T
  assume f: "files w bin = Some bs" and u: "record_vm bs = (True, u)"
    and run: "run_goto (u, print_out (''retrovm: record '' @ sq @ bin @ sq @ '' ('' @
       fmt_u (length bs) @ '' bytes) seed=0x'' @ fmt_08x seed @ nl) w, mt_init seed, []) =
       Some (Returned r, u', w', g', T)"
    and tr: "files w1 (bin @ ''.trace'') = Some (trace_bytes T)" and code: "code = exit_code r"
    and out: "stdout w1 = stdout w' @ ''trace       : '' @ fmt_u (length T) @ '' frames -> '' @
       bin @ ''.trace'' @ nl @ dump_state (vm_state u') r"
  let ?rd = "reader_of T"
  let ?w = "print_out (replay_banner bin (bin @ ''.trace'') (length bs) ?rd) w2"
  have rd: "TraceReader_open (bin @ ''.trace'') w2 = Inr ?rd"
    using tr trace by (intro TraceReader_open_trace_bytes) simp_all
  obtain ok v where v: "replay_vm ?rd bs = (ok, v)" by fastforce
  have ok: ok using record_vm_fresh(3) [OF u] replay_vm_fresh(3) [OF v] by simp
  obtain v' where v': "run_goto (v, ?w, 0) =
      Some (Returned r, v', print_out (trace_lines T) ?w, length T)" "same_core u' v'"
    using record_replay_run [OF run record_vm_fresh(1) [OF u] record_replay_vm_core [OF u v]
        replay_vm_fresh(1) [OF v]] by blast
  have cnt: "rd_frame_count ?rd = length T" by (simp add: reader_of_def)
  have "cmd_replay bin (bin @ ''.trace'') w2 =
      Some (Exit code, print_out (dump_state (vm_state u') r)
        (print_out (''replay VERIFIED'' @ nl) (print_out (trace_lines T) ?w)))"
    using f bin rd v ok v' replay_vm_fresh(2) [OF v]
    by (simp add: cmd_replay_def read_file_def vm_run_def cnt code Let_def same_coreD(2))
  then show ?thesis
    using out f tr
    by (intro exI [of _ "print_out (dump_state (vm_state u') r)
        (print_out (''replay VERIFIED'' @ nl) (print_out (trace_lines T) ?w))"]
        exI [of _ "stdout w' @ ''trace       : '' @ fmt_u (length T) @ '' frames -> '' @ bin @
          ''.trace'' @ nl"] exI [of _ T] exI [of _ "vm_state u'"] exI [of _ r]) simp
qed


lemmas record_eval = read_file_def exit_code_def cmd_record_def record_vm_def record_hooks_def record_in_def record_rand_def
  record_observer_def scan_or_zero_def flush_to_file_def vm_run_def run_goto_def

text \<open>The hypotheses hold for a recording of \<open>IN R0; HALT\<close> with \<open>42\<close> on the console.\<close>

lemma record_sample:
  "\<exists>w1. cmd_record ''p'' 7 (sample_world in_bin) = Some (Exit 0, w1)
     \<and> files w1 ''p'' = Some in_bin \<and> fault w1 = (\<lambda>_. None)"
  apply (simp add: record_eval load_eval sample_defs)
  apply (simp add: step_eval record_eval sample_defs)
  done

theorem record_then_replay_witness:
  "\<exists>w1 w3. cmd_record ''p'' 7 (sample_world in_bin) = Some (Exit 0, w1)
     \<and> cmd_replay ''p'' ''p.trace'' w1 = Some (Exit 0, w3)"
proof -
  obtain w1 where w1: "cmd_record ''p'' 7 (sample_world in_bin) = Some (Exit 0, w1)"
    "files w1 ''p'' = Some in_bin" "fault w1 = (\<lambda>_. None)"
    using record_sample by blast
  from w1 record_then_replay [OF w1(1), of w1] show ?thesis
    by (auto simp: sample_world_def)
qed

end
