(* ===== verification/SavePoint.thy ===== *)
theory SavePoint
  imports SaveRestore RecordReplay Isa
begin

text \<open>
  A \<open>save\<close> is a replay that stops: its run simulates the replay up to the instruction that consumes
  the requested frame, and the checkpoint holds the machine the replay has there.
\<close>

section \<open>A save is a replay that stops\<close>

text \<open>
  The save run takes the steps of the replay until its sink fires. \<open>cursor_rel\<close> relates the states
  the closures capture: the cursors are equal.
\<close>

definition cursor_rel :: "saver \<Rightarrow> replayer \<Rightarrow> bool" where
  "cursor_rel x y \<longleftrightarrow> fst (snd x) = snd y"

definition saving :: "TraceReader \<Rightarrow> string \<Rightarrow> nat \<Rightarrow> u64 \<Rightarrow> saver VM \<Rightarrow> bool" where
  "saving reader st k t u \<longleftrightarrow> vm_io u = save_hooks reader \<and> vm_sink u = Some (save_sink st k t)
     \<and> snap_interval (vm_state u) = 1 \<and> snap_timer (vm_state u) = 1
     \<and> halted (vm_state u) = HALT_RUNNING"

lemma io_rel_save: "io_rel cursor_rel (save_hooks reader) (replay_hooks reader)"
  by (auto simp: io_rel_def hook_rel_def save_hooks_def replay_hooks_def save_hook_def
      replay_hook_def save_observer_def replay_observer_def cursor_rel_def split: prod.splits)

lemma checkpoint_of_arch:
  "same_arch u v \<Longrightarrow> checkpoint_of k (vm_state u) = checkpoint_of k (vm_state v)"
  by (simp add: checkpoint_of_def same_arch_def)

lemma checkpoint_of_timer [simp]:
  "checkpoint_of k (s\<lparr>snap_timer := i\<rparr>) = checkpoint_of k s"
  by (simp add: checkpoint_of_def)

text \<open>What the sink has done when it asks for the halt.\<close>

definition fired :: "string \<Rightarrow> nat \<Rightarrow> u64 \<Rightarrow> VMState \<Rightarrow> saver \<Rightarrow> saver \<Rightarrow> bool" where
  "fired st k t vs x x' \<longleftrightarrow> fst (snd x) = k \<and> fst (snd x') = k \<and> cycle_count vs = t
     \<and> files (fst x') st = Some (state_bytes (checkpoint_of k vs))"

lemma save_sink_cases:
  "save_sink st k t vs s x = (None, x') \<Longrightarrow> fst (snd x') = fst (snd x)"
  "save_sink st k t vs s x = (Some r, x') \<Longrightarrow> r = HALT_CHECKPOINT \<and> fired st k t vs x x'"
  by (auto simp: save_sink_def fired_def checkpoint_save_def Let_def
      split: prod.splits if_splits bool.splits option.splits os_fault.splits)

lemma save_tick:
  assumes u: "saving reader st k t u" and tick: "snap_tick (advance u, x) = (b, u', x')"
  shows "if b then halted (vm_state u') = HALT_CHECKPOINT \<and> fired st k t (vm_state (advance u)) x x'
    else saving reader st k t u' \<and> same_arch u' (advance u) \<and> fst (snd x') = fst (snd x)"
proof -
  let ?s = "(vm_state (advance u))\<lparr>snap_timer := 0\<rparr>"
  obtain req y where sink: "save_sink st k t ?s (snapshot_of (vm_state (advance u)) (vm_deltas (advance u))) x = (req, y)"
    by (rule prod.exhaust)
  have "vm_sink (advance u) = Some (save_sink st k t)" "snap_interval (vm_state (advance u)) = 1"
    "snap_timer (vm_state (advance u)) = 1"
    using u by (simp_all add: saving_def)
  from snap_tick_every [OF this, of x, unfolded sink Let_def prod.case tick prod.inject]
  have e: "b = ((case req of None \<Rightarrow> halted (vm_state (advance u)) | Some r \<Rightarrow> r) \<noteq> HALT_RUNNING)"
    "u' = (advance u)\<lparr>vm_state := (vm_state (advance u))\<lparr>
       halted := (case req of None \<Rightarrow> halted (vm_state (advance u)) | Some r \<Rightarrow> r), snap_timer := 1\<rparr>,
       vm_deltas := []\<rparr>" "x' = y"
    by blast+
  show ?thesis
  proof (cases req)
    case None
    then show ?thesis
      using u e save_sink_cases(1) [of st k t ?s _ x y] sink by (simp add: saving_def same_arch_def)
  next
    case (Some r)
    with save_sink_cases(2) [of st k t ?s _ x r y] sink have "r = HALT_CHECKPOINT" "fired st k t ?s x y"
      by blast+
    with Some e show ?thesis by (simp add: fired_def const_defs)
  qed
qed

definition save_rel :: "TraceReader \<Rightarrow> string \<Rightarrow> nat \<Rightarrow> u64 \<Rightarrow> saver cfg \<Rightarrow> replayer cfg \<Rightarrow> bool" where
  "save_rel reader st k t c d \<longleftrightarrow> arch_cfg cursor_rel c d \<and> saving reader st k t (fst c)
     \<and> replaying reader (fst d) \<and> quiet (fst d) \<and> snap_interval (vm_state (fst d)) = 0"

lemma save_step:
  assumes rel: "save_rel reader st k t c d"
  shows "(\<exists>c'. goto_step c = Inr (Returned HALT_CHECKPOINT, c')
        \<and> fired st k t (vm_state (advance (fst d))) (snd c) (snd c') \<and> snd (snd d) = k)
    \<or> rel_sum (save_rel reader st k t) (rel_prod (=) (arch_cfg cursor_rel)) (goto_step c) (goto_step d)"
proof -
  obtain u x where c: "c = (u, x)" by (cases c)
  obtain v y where d: "d = (v, y)" by (cases d)
  from rel have arch: "same_arch u v" and R: "cursor_rel x y" and u: "saving reader st k t u"
    and v: "replaying reader v" "quiet v" "snap_interval (vm_state v) = 0"
    by (simp_all add: c d save_rel_def arch_cfg_def)
  obtain b u' x' where t: "snap_tick (advance u, x) = (b, u', x')" by (metis prod_cases3)
  have tv: "snap_tick (advance v, y) = (False, advance v, y)" using v(3) by simp
  note tick = save_tick [OF u t]
  show ?thesis
  proof (cases b)
    case True
    have "cycle_count (vm_state (advance v)) = cycle_count (vm_state (advance u))"
      "checkpoint_of k (vm_state (advance v)) = checkpoint_of k (vm_state (advance u))"
      using arch checkpoint_of_arch [OF same_arch_advance [OF arch]] by (simp_all add: same_arch_def)
    then show ?thesis
      using True tick t R by (auto simp: c d goto_step_eq fired_def cursor_rel_def)
  next
    case False
    with tick have u': "saving reader st k t u'" "same_arch u' (advance u)"
      and R': "cursor_rel x' y" using R by (simp_all add: cursor_rel_def)
    have arch': "same_arch u' (advance v)"
      using u'(2) same_arch_advance [OF arch] by (rule same_arch_trans)
    have io: "io_rel cursor_rel (vm_io u') (vm_io (advance v))"
      using u'(1) v(1) io_rel_save by (simp add: saving_def replaying_def)
    from jump_param [OF arch' io R', of "fetch u"]
    have j: "rel_sum (arch_cfg cursor_rel) (rel_prod (=) (arch_cfg cursor_rel)) (goto_step c) (goto_step d)"
      using False t tv same_arch_fetch [OF arch] by (simp add: c d goto_step_eq)
    have keep: "saving reader st k t (fst e)" if "goto_step c = Inl e" for e
    proof -
      have "jump_to (fetch u) (u', x') = Inl e" using that False t by (simp add: c goto_step_eq)
      then show ?thesis
        using u'(1) exec_label_frame [of _ _ u' x' "fst e" "snd e"]
        by (auto simp: jump_to_def saving_def split: if_splits)
    qed
    have keep': "replaying reader (fst e) \<and> quiet (fst e) \<and> snap_interval (vm_state (fst e)) = 0"
      if "goto_step d = Inl e" for e
      using quiet_step [OF v(2) that [unfolded d]] goto_step_fixed [OF that] v
      by (simp add: d replaying_def same_fixed_def)
    from j show ?thesis
      by cases (auto simp: save_rel_def keep keep')
  qed
qed

text \<open>Where a save that reached its target stopped.\<close>

lemma own_halts:
  assumes "run_goto c = Some q" "snap_interval (vm_state (fst c)) = 0"
  shows "fst q \<notin> Returned ` {HALT_CHECKPOINT, HALT_STEP, HALT_BREAKPOINT}"
proof (rule run_loop_invariant [where I = "\<lambda>c. snap_interval (vm_state (fst c)) = 0", OF assms [unfolded run_goto_def],
      where Q = "\<lambda>q. fst q \<notin> Returned ` {HALT_CHECKPOINT, HALT_STEP, HALT_BREAKPOINT}"])
  fix c c' assume "snap_interval (vm_state (fst c)) = 0" "goto_step c = Inl c'"
  then show "snap_interval (vm_state (fst c')) = 0"
    using goto_step_fixed [of c c'] by (simp add: same_fixed_def)
next
  fix c q assume i: "snap_interval (vm_state (fst c)) = 0" and s: "goto_step c = Inr q"
  obtain r v x where q: "q = (r, v, x)" by (cases q)
  show "fst q \<notin> Returned ` {HALT_CHECKPOINT, HALT_STEP, HALT_BREAKPOINT}"
  proof
    assume "fst q \<in> Returned ` {HALT_CHECKPOINT, HALT_STEP, HALT_BREAKPOINT}"
    then obtain h where h: "r = Returned h" "h \<in> {HALT_CHECKPOINT, HALT_STEP, HALT_BREAKPOINT}"
      by (auto simp: q)
    from goto_step_halts [of "fst c" "snd c" h v x] s i h show False
      by (auto simp: q const_defs elim!: isa_haltE)
  qed
qed

interpretation saves: interruptible goto_step goto_step "save_rel reader st k t"
  "rel_prod (=) (arch_cfg cursor_rel)"
  "\<lambda>q d. fst q = Returned HALT_CHECKPOINT \<and> snd (snd d) = k
     \<and> (\<exists>x. fired st k t (vm_state (advance (fst d))) x (snd (snd q)))"
  for reader st k t
  by unfold_locales (use save_step in fastforce)

lemma save_run_point:
  assumes run: "run_goto c = Some q" "fst q = Returned HALT_CHECKPOINT" and rel: "save_rel reader st k t c d"
  shows "\<exists>n e x. steps goto_step n d = Some e \<and> snd (snd e) = k
    \<and> fired st k t (vm_state (advance (fst e))) x (snd (snd q))"
  using saves.run_point [OF run(1) [unfolded run_goto_def] rel]
proof
  assume "\<exists>s. run_loop goto_step d = Some s \<and> rel_prod (=) (arch_cfg cursor_rel) q s"
  then obtain s where "run_goto d = Some s" "fst s = fst q" by (auto simp: rel_prod_sel run_goto_def)
  moreover have "snap_interval (vm_state (fst d)) = 0" using rel by (simp add: save_rel_def)
  ultimately show ?thesis using own_halts [of d s] run(2) by simp
qed blast

section \<open>What a checkpoint holds\<close>

text \<open>The machine a replay starts with.\<close>

definition replay_start :: "TraceReader \<Rightarrow> bytes \<Rightarrow> replayer VM" where
  "replay_start reader bs = snd (replay_vm reader bs)"

lemma replay_start_fresh:
  "replaying reader (replay_start reader bs)" "quiet (replay_start reader bs)"
  "vm_mode (replay_start reader bs) = ComputedGoto"
  "snap_interval (vm_state (replay_start reader bs)) = 0"
  "length (regs (vm_state (replay_start reader bs))) = 8"
  by (simp_all add: replay_start_def replay_vm_def load_program_def set_io_hooks_def VM_new_def
      reset_state_def replaying_def quiet_def VMState_init_def)

lemma save_vm_fresh:
  assumes "save_vm reader st k t bs = (ok, u)"
  shows "saving reader st k t u" "vm_mode u = ComputedGoto" "ok \<longleftrightarrow> length bs \<le> MEM_SIZE"
    "same_arch u (replay_start reader bs)"
  using assms
  by (auto simp: save_vm_def load_program_def set_io_hooks_def set_snapshot_sink_def
      set_snapshot_interval_def VM_new_def reset_state_def saving_def VMState_init_def
      same_arch_def replay_start_def replay_vm_def fun_eq_iff split: if_splits)

lemma cmd_saveE:
  assumes "cmd_save bin trace st k w = Some (Exit 0, w1)"
  obtains bs reader f u ws u' w' saved where "files w bin = Some bs"
    "TraceReader_open trace w = Inr reader" "frame_at reader k = Some f"
    "save_vm reader st k (f_cycle f) bs = (True, u)"
    "run_goto (u, ws, 0, False) = Some (Returned HALT_CHECKPOINT, u', w', k, saved)"
    "files w1 = files w'"
  using assms
  by (auto simp: cmd_save_def read_file_def vm_run_def Let_def dest: save_vm_fresh(2)
      split: option.splits sum.splits bool.splits prod.splits run_result.splits if_splits)

text \<open>The checkpoint of a replay that is about to execute its next instruction.\<close>

definition checkpoint_before :: "nat \<Rightarrow> VMState \<Rightarrow> CheckpointState" where
  "checkpoint_before k s = \<lparr>ck_frame_index = of_nat k, ck_halted = HALT_CHECKPOINT,
     ck_flags = flags s, ck_regs = regs s, ck_pc = pc s, ck_sp = sp s\<rparr>"

lemma checkpoint_of_advance:
  "length (regs (vm_state v)) = 8 \<Longrightarrow>
     checkpoint_of k (vm_state (advance v)) = checkpoint_before k (vm_state v)"
  by (auto simp: checkpoint_of_def checkpoint_before_def intro: nth_equalityI)

lemma replay_steps_frame:
  assumes "steps goto_step n (replay_start reader bs, y) = Some (v, y')"
  shows "replaying reader v" "quiet v" "snap_interval (vm_state v) = 0" "length (regs (vm_state v)) = 8"
    "vm_mode v = ComputedGoto"
proof -
  let ?I = "\<lambda>c. replaying reader (fst c) \<and> quiet (fst c) \<and> snap_interval (vm_state (fst c)) = 0
    \<and> length (regs (vm_state (fst c))) = 8 \<and> vm_mode (fst c) = ComputedGoto"
  have "?I (v, y')"
    using assms
  proof (rule steps_invariant [where I = ?I])
    show "?I (replay_start reader bs, y)" by (simp add: replay_start_fresh)
  next
    fix c d assume "?I c" "goto_step c = Inl d"
    then show "?I d"
      using quiet_step [of "fst c" "snd c" d] goto_step_fixed [of c d]
      by (simp add: replaying_def same_fixed_def)
  qed
  then show "replaying reader v" "quiet v" "snap_interval (vm_state v) = 0"
    "length (regs (vm_state v)) = 8" "vm_mode v = ComputedGoto"
    by simp_all
qed

lemma save_point:
  assumes "cmd_save bin trace st k w = Some (Exit 0, w1)"
  shows "\<exists>bs reader f n v x. files w bin = Some bs \<and> length bs \<le> MEM_SIZE
    \<and> TraceReader_open trace w = Inr reader
    \<and> frame_at reader k = Some f \<and> steps goto_step n (replay_start reader bs, w0, 0) = Some (v, x, k)
    \<and> cycle_count (vm_state v) + 1 = f_cycle f
    \<and> files w1 st = Some (state_bytes (checkpoint_before k (vm_state v)))"
  using assms
proof (rule cmd_saveE)
  fix bs reader f u ws u' w' saved
  assume f: "files w bin = Some bs" "TraceReader_open trace w = Inr reader" "frame_at reader k = Some f"
    and u: "save_vm reader st k (f_cycle f) bs = (True, u)"
    and run: "run_goto (u, ws, 0, False) = Some (Returned HALT_CHECKPOINT, u', w', k, saved)"
    and w1: "files w1 = files w'"
  have "save_rel reader st k (f_cycle f) (u, ws, 0, False) (replay_start reader bs, w0, 0)"
    using save_vm_fresh(1,4) [OF u] replay_start_fresh
    by (simp add: save_rel_def arch_cfg_def cursor_rel_def)
  from save_run_point [OF run _ this] obtain n v x y
    where steps: "steps goto_step n (replay_start reader bs, w0, 0) = Some (v, x, k)"
      and fired: "fired st k (f_cycle f) (vm_state (advance v)) y (w', k, saved)"
    by fastforce
  note v = replay_steps_frame [OF steps]
  show ?thesis
    using f steps fired w1 checkpoint_of_advance [OF v(4)] save_vm_fresh(3) [OF u]
    by (fastforce simp: fired_def)
qed

text \<open>
  C11: \<open>save\<close> stops exactly before the frame it is asked for. When \<open>save --at-frame=k\<close> succeeds, the
  replay of the binary against the trace, started from power-on, passes after some number of
  instructions through a machine that has consumed exactly the first \<open>k\<close> frames and whose next
  instruction retires in the cycle of frame \<open>k\<close>; and the file holds that machine's registers,
  pc, sp and flags, with \<open>k\<close>, modulo \<open>2 ^ 32\<close>, as the frame index.
\<close>

theorem save_stops_before_frame:
  assumes "cmd_save bin trace st k w = Some (Exit 0, w1)"
  shows "\<exists>bs reader f n v x. files w bin = Some bs \<and> TraceReader_open trace w = Inr reader
    \<and> frame_at reader k = Some f
    \<and> steps goto_step n (snd (replay_vm reader bs), w, 0) = Some (v, x, k)
    \<and> cycle_count (vm_state v) + 1 = f_cycle f
    \<and> files w1 st = Some (state_bytes \<lparr>ck_frame_index = of_nat k, ck_halted = HALT_CHECKPOINT,
        ck_flags = flags (vm_state v), ck_regs = regs (vm_state v), ck_pc = pc (vm_state v),
        ck_sp = sp (vm_state v)\<rparr>)"
  using save_point [OF assms, of w] unfolding replay_start_def checkpoint_before_def by blast

section \<open>Examples\<close>

definition traced_world :: "bytes \<Rightarrow> TraceFrame list \<Rightarrow> world" where
  "traced_world bs T = no_files\<lparr>files := [''p'' \<mapsto> bs, ''t'' \<mapsto> trace_bytes T]\<rparr>"

definition frame :: "u64 \<Rightarrow> u8 \<Rightarrow> u32 \<Rightarrow> TraceFrame" where
  "frame cyc op v = \<lparr>f_cycle = cyc, f_opcode = op, f_value = v\<rparr>"

lemma open_traced: "TraceReader_open ''t'' (traced_world bs T) = Inr (reader_of T)"
  by (intro TraceReader_open_trace_bytes) (simp_all add: traced_world_def no_files_def)

lemma read_traced: "read_file ''p'' (traced_world bs T) = Inr bs"
  by (simp add: read_file_def traced_world_def)

lemma reader_of_count: "rd_frame_count (reader_of T) = length T"
  by (simp add: reader_of_def)

lemma files_traced [simp]:
  "files (traced_world bs T) ''p'' = Some bs" "files (traced_world bs T) ''t'' = Some (trace_bytes T)"
  "fault (traced_world bs T) ''t'' = None"
  by (simp_all add: traced_world_def no_files_def)

lemmas traced_eval = open_traced read_traced reader_of_count frame_at_reader_of frame_def

lemmas hook_eval = consume_def replay_hooks_def replay_hook_def replay_observer_def
  save_hooks_def save_hook_def save_observer_def save_sink_def checkpoint_save_def

lemma save_sample:
  "\<exists>w1. cmd_save ''p'' ''t'' ''s'' 0 (traced_world in_bin [frame 1 OP_IN 42]) = Some (Exit 0, w1)
     \<and> files w1 ''p'' = Some in_bin \<and> files w1 ''t'' = Some (trace_bytes [frame 1 OP_IN 42])
     \<and> fault w1 ''t'' = None"
  apply (simp add: cmd_save_def traced_eval save_vm_def load_eval sample_defs vm_run_def run_goto_def)
  apply (simp add: step_eval hook_eval traced_eval traced_world_def no_files_def)
  done

theorem save_stops_before_frame_witness:
  "\<exists>w1 s. cmd_save ''p'' ''t'' ''s'' 0 (traced_world in_bin [frame 1 OP_IN 42]) = Some (Exit 0, w1)
     \<and> files w1 ''s'' = Some (state_bytes s)"
  using save_sample save_stops_before_frame by blast

end
