(* ===== verification/Resume.thy ===== *)
theory Resume
  imports SavePoint
begin

text \<open>
  A \<open>restore\<close> continues the replay from a checkpoint: when it ends like the full replay, and two
  ways in which it does not.
\<close>

section \<open>A restore resumes the replay\<close>

text \<open>
  No instruction before the frame \<open>k\<close> is consumed has changed memory. The checkpoint does not hold
  memory and \<open>restore\<close> starts from the binary, so this is what it relies on.
\<close>

definition memory_intact :: "TraceReader \<Rightarrow> bytes \<Rightarrow> nat \<Rightarrow> bool" where
  "memory_intact reader bs k \<longleftrightarrow> (\<forall>n w v x. steps goto_step n (snd (replay_vm reader bs), w, 0) =
     Some (v, x, k) \<longrightarrow> vm_mem v = vm_mem (snd (replay_vm reader bs)))"

lemma TraceReader_open_cong:
  "files w path = files w' path \<Longrightarrow> fault w path = fault w' path \<Longrightarrow>
     TraceReader_open path w = TraceReader_open path w'"
  by (simp only: TraceReader_open_def)

lemma replay_cmdE:
  assumes "cmd_replay bin trace w = Some (Exit c, w')" "c \<noteq> 1" "c \<noteq> 3"
  obtains bs reader wb r v x cur where "files w bin = Some bs" "TraceReader_open trace w = Inr reader"
    "run_goto (replay_start reader bs, wb, 0) = Some (Returned r, v, x, cur)"
    "rd_frame_count reader \<le> cur" "c = exit_code r" "length bs \<le> MEM_SIZE"
    "stdout w' = stdout x @ ''replay VERIFIED'' @ nl @ dump_state (vm_state v) r"
proof -
  from assms obtain bs reader u where bs: "files w bin = Some bs" "TraceReader_open trace w = Inr reader"
    and u: "replay_vm reader bs = (True, u)"
    by (auto simp: cmd_replay_def read_file_def Let_def split: option.splits sum.splits bool.splits prod.splits)
  note fresh = replay_vm_fresh [OF u]
  show thesis
    using assms bs u fresh(2,3) that [of bs reader]
    by (auto simp: cmd_replay_def read_file_def vm_run_def replay_start_def Let_def
        split: option.splits prod.splits run_result.splits if_splits)
qed

lemma restore_vm_arch:
  assumes "length (regs s) = 8"
  shows "\<exists>rv. restore_vm reader (restored_state ((checkpoint_before k s)\<lparr>ck_halted := tag\<rparr>) f) bs =
      (length bs \<le> MEM_SIZE, rv)
    \<and> replaying reader rv \<and> quiet rv \<and> vm_mode rv = ComputedGoto
    \<and> vm_mem rv = vm_mem (replay_start reader bs)
    \<and> cycle_count (vm_state rv) = f_cycle f - 1 \<and> regs (vm_state rv) = regs s
    \<and> pc (vm_state rv) = pc s \<and> sp (vm_state rv) = sp s \<and> flags (vm_state rv) = flags s"
proof -
  have "map ((!) (regs s)) [0..<8] = regs s"
    using assms by (intro nth_equalityI) simp_all
  then show ?thesis
    by (auto simp: restore_vm_def restored_state_def checkpoint_before_def load_program_def
        set_io_hooks_def set_state_def VM_new_def reset_state_def replaying_def quiet_def
        VMState_init_def replay_start_def replay_vm_def)
qed

lemma dump_state_arch: "same_arch u v \<Longrightarrow> dump_state (vm_state u) r = dump_state (vm_state v) r"
  by (simp add: same_arch_def dump_state_def)

definition same_cursor :: "string \<Rightarrow> replayer \<Rightarrow> replayer \<Rightarrow> bool" where
  "same_cursor err x y \<longleftrightarrow> snd x = snd y \<and> stderr (fst x) = err"

lemma io_rel_replay: "io_rel (same_cursor err) (replay_hooks reader) (replay_hooks reader)"
  by (auto simp: io_rel_def hook_rel_def replay_hooks_def replay_hook_def replay_observer_def
      same_cursor_def split: prod.splits)

text \<open>
  A checkpoint of the machine that the replay passes through just before frame \<open>k\<close>, with any halt
  tag: \<open>restore\<close> from it ends like the replay, if memory is still as loaded.
\<close>

lemma restored_run:
  assumes bs: "files w2 bin = Some bs" "length bs \<le> MEM_SIZE" and rd: "TraceReader_open trace w2 = Inr reader"
    and st: "files w2 st = Some (state_bytes ((checkpoint_before k (vm_state v))\<lparr>ck_halted := tag\<rparr>))" and k: "k < 2 ^ 32"
    and steps: "steps goto_step n (replay_start reader bs, wb, 0) = Some (v, x, k)"
    and f: "frame_at reader k = Some f" "cycle_count (vm_state v) + 1 = f_cycle f" "f_cycle f \<noteq> 0"
    and intact: "vm_mem v = vm_mem (replay_start reader bs)"
    and run: "run_goto (replay_start reader bs, wb, 0) = Some (Returned r, v', x', cur)" "rd_frame_count reader \<le> cur"
  shows "\<exists>y. cmd_restore garbage bin trace st w2 = Some (Exit (exit_code r), print_out (dump_state (vm_state v') r) y)
    \<and> stderr y = stderr w2"
proof -
  note v = replay_steps_frame [OF steps]
  let ?ck = "(checkpoint_before k (vm_state v))\<lparr>ck_halted := tag\<rparr>"
  have load: "checkpoint_load st w2 = (Some ?ck, w2)"
    using st v(4) by (intro checkpoint_load_state_bytes) (simp_all add: checkpoint_before_def)
  have idx: "unat (ck_frame_index ?ck) = k" using k by (simp add: checkpoint_before_def unat_of_nat)
  have "f_cycle f - 1 = cycle_count (vm_state v)" using f(2) by (simp flip: f(2))
  with restore_vm_arch [OF v(4), where reader = reader and k = k and tag = tag and f = f and bs = bs] bs(2) obtain rv
    where rv: "restore_vm reader (restored_state ?ck f) bs = (True, rv)" "replaying reader rv" "quiet rv"
      "vm_mode rv = ComputedGoto" "vm_mem rv = vm_mem (replay_start reader bs)"
      and fields: "cycle_count (vm_state rv) = cycle_count (vm_state v)" "regs (vm_state rv) = regs (vm_state v)"
        "pc (vm_state rv) = pc (vm_state v)" "sp (vm_state rv) = sp (vm_state v)"
        "flags (vm_state rv) = flags (vm_state v)"
    by auto
  have arch: "same_arch rv v" using intact rv(5) fields by (simp add: same_arch_def)
  let ?w2 = "print_out (restore_banner bin st (length bs) ?ck (restored_state ?ck f)) w2"
  have rel: "quiet_rel (same_cursor (stderr w2)) (rv, ?w2, k) (v, x, k)"
    using arch rv(2,3) v(1,2) io_rel_replay by (simp add: quiet_rel_def arch_cfg_def replaying_def same_cursor_def)
  have "run_goto (v, x, k) = Some (Returned r, v', x', cur)"
    using run(1) run_loop_steps [OF steps] by (simp add: run_goto_def)
  with quiet_runs.lockstep_run [OF rel] obtain u y
    where run': "run_goto (rv, ?w2, k) = Some (Returned r, u, y, cur)" "same_arch u v'"
      and err: "stderr y = stderr w2"
    by (auto simp: run_goto_def option_rel_Some2 arch_cfg_def rel_prod_sel same_cursor_def)
  let ?ok = "''restore OK ('' @ fmt_u (cur - k) @ '' frame(s) replayed from frame_index='' @
    fmt_u32 (ck_frame_index ?ck) @ '')'' @ nl"
  have "cmd_restore garbage bin trace st w2 =
      Some (Exit (exit_code r), print_out (dump_state (vm_state v') r) (print_out ?ok y))"
    using bs rd load idx f rv(1,4) run' run(2)
    by (simp add: cmd_restore_def read_file_def vm_run_def Let_def dump_state_arch)
  then show ?thesis
    using err by (intro exI [of _ "print_out ?ok y"]) simp
qed

text \<open>The same for the file that \<open>save\<close> has written.\<close>

lemma saved_run:
  assumes save: "cmd_save bin trace st k w = Some (Exit 0, w1)" "k < 2 ^ 32"
    and intact: "\<And>reader bs. TraceReader_open trace w = Inr reader \<Longrightarrow> files w bin = Some bs \<Longrightarrow>
      memory_intact reader bs k"
    and cycle: "\<And>reader f. TraceReader_open trace w = Inr reader \<Longrightarrow> frame_at reader k = Some f \<Longrightarrow>
      f_cycle f \<noteq> 0"
    and w2: "files w2 bin = files w bin" "files w2 trace = files w trace"
      "fault w2 trace = fault w trace" "files w2 st = files w1 st"
    and bs: "files w bin = Some bs" "length bs \<le> MEM_SIZE" and rd: "TraceReader_open trace w = Inr reader"
    and run: "run_goto (replay_start reader bs, wb, 0) = Some (Returned r, v', x', cur)" "rd_frame_count reader \<le> cur"
  shows "\<exists>y. cmd_restore garbage bin trace st w2 = Some (Exit (exit_code r), print_out (dump_state (vm_state v') r) y)
    \<and> stderr y = stderr w2"
proof -
  from save_point [OF save(1), of wb] bs rd obtain f n v x
    where f: "frame_at reader k = Some f"
      and steps: "steps goto_step n (replay_start reader bs, wb, 0) = Some (v, x, k)"
      and cyc: "cycle_count (vm_state v) + 1 = f_cycle f"
      and st: "files w1 st = Some (state_bytes (checkpoint_before k (vm_state v)))"
    by auto
  have "checkpoint_before k (vm_state v) = (checkpoint_before k (vm_state v))\<lparr>ck_halted := HALT_CHECKPOINT\<rparr>"
    by (simp add: checkpoint_before_def)
  then have st2: "files w2 st = Some (state_bytes ((checkpoint_before k (vm_state v))\<lparr>ck_halted := HALT_CHECKPOINT\<rparr>))"
    using st w2(4) by simp
  have rd2: "TraceReader_open trace w2 = Inr reader"
    using rd TraceReader_open_cong [OF w2(2,3)] by simp
  have "vm_mem v = vm_mem (replay_start reader bs)"
    using intact [OF rd bs(1)] steps by (auto simp: memory_intact_def replay_start_def)
  with bs w2(1) show ?thesis
    by (intro restored_run [OF _ _ rd2 st2 save(2) steps f cyc cycle [OF rd f] _ run]) simp_all
qed

text \<open>
  C3: a restored replay ends like the full replay. If \<open>save\<close> at frame \<open>k\<close> succeeded and the full
  replay of the same binary and trace is VERIFIED with exit code \<open>c\<close>, then \<open>restore\<close> from the saved
  file ends with the same exit code and prints the same final state dump (reason, cycle count,
  pc, sp, flags and registers), with nothing on the error stream, provided that no instruction
  before frame \<open>k\<close> has changed memory, that \<open>k\<close> fits the 32 bits of the file (\<open>k < 2 ^ 32\<close>) and that
  the cycle of frame \<open>k\<close> is not 0. The resumed run takes every input from the trace, none from stdin.
\<close>

theorem restore_resumes_replay:
  assumes save: "cmd_save bin trace st k w = Some (Exit 0, w1)" "k < 2 ^ 32"
    and replay: "cmd_replay bin trace w = Some (Exit c, wr)" "c \<noteq> 1" "c \<noteq> 3"
    and intact: "\<And>reader bs. TraceReader_open trace w = Inr reader \<Longrightarrow> files w bin = Some bs \<Longrightarrow>
      memory_intact reader bs k"
    and cycle: "\<And>reader f. TraceReader_open trace w = Inr reader \<Longrightarrow> frame_at reader k = Some f \<Longrightarrow>
      f_cycle f \<noteq> 0"
    and w2: "files w2 bin = files w bin" "files w2 trace = files w trace"
      "fault w2 trace = fault w trace" "files w2 st = files w1 st"
  shows "\<exists>w3 out out' s r. cmd_restore garbage bin trace st w2 = Some (Exit c, w3)
    \<and> stdout wr = out @ dump_state s r \<and> stdout w3 = out' @ dump_state s r \<and> stderr w3 = stderr w2"
  using replay
proof (rule replay_cmdE)
  fix bs reader wb r v' x' cur
  assume bs: "files w bin = Some bs" "length bs \<le> MEM_SIZE" and rd: "TraceReader_open trace w = Inr reader"
    and run: "run_goto (replay_start reader bs, wb, 0) = Some (Returned r, v', x', cur)"
    and cur: "rd_frame_count reader \<le> cur" and c: "c = exit_code r"
    and out: "stdout wr = stdout x' @ ''replay VERIFIED'' @ nl @ dump_state (vm_state v') r"
  have "\<exists>y. cmd_restore garbage bin trace st w2 = Some (Exit c, print_out (dump_state (vm_state v') r) y)
    \<and> stderr y = stderr w2"
    unfolding c by (rule saved_run [OF save intact cycle w2 bs rd run cur])
  then obtain y
    where "cmd_restore garbage bin trace st w2 = Some (Exit c, print_out (dump_state (vm_state v') r) y)"
      "stderr y = stderr w2"
    by blast
  then show ?thesis
    using out
    by (intro exI [of _ "print_out (dump_state (vm_state v') r) y"]
        exI [of _ "stdout x' @ ''replay VERIFIED'' @ nl"] exI [of _ "stdout y"]
        exI [of _ "vm_state v'"] exI [of _ r]) simp
qed

lemma replay_sample:
  "\<exists>wr. cmd_replay ''p'' ''t'' (traced_world in_bin [frame 1 OP_IN 42]) = Some (Exit 0, wr)"
  apply (simp add: cmd_replay_def traced_eval replay_vm_def load_eval sample_defs vm_run_def run_goto_def)
  apply (simp add: step_eval hook_eval traced_eval exit_code_def)
  done

lemma intact_sample: "memory_intact (reader_of [frame 1 OP_IN 42]) in_bin 0"
  unfolding memory_intact_def
proof (intro allI impI)
  fix n w v x
  assume "steps goto_step n (snd (replay_vm (reader_of [frame 1 OP_IN 42]) in_bin), w, 0) = Some (v, x, 0)"
  moreover have "\<exists>u y r. goto_step (snd (replay_vm (reader_of [frame 1 OP_IN 42]) in_bin), w, 0) = Inl (u, y, 1)
      \<and> goto_step (u, y, 1) = Inr r"
    apply (simp add: replay_vm_def load_eval sample_defs goto_step_eq)
    apply (simp add: step_eval hook_eval traced_eval)
    done
  ultimately show "vm_mem v = vm_mem (snd (replay_vm (reader_of [frame 1 OP_IN 42]) in_bin))"
    by (cases n; cases "n - 1") auto
qed

theorem restore_resumes_replay_witness:
  "\<exists>w1 w3. cmd_save ''p'' ''t'' ''s'' 0 (traced_world in_bin [frame 1 OP_IN 42]) = Some (Exit 0, w1)
     \<and> cmd_restore 0 ''p'' ''t'' ''s'' w1 = Some (Exit 0, w3)"
proof -
  let ?w = "traced_world in_bin [frame 1 OP_IN 42]"
  obtain w1 where w1: "cmd_save ''p'' ''t'' ''s'' 0 ?w = Some (Exit 0, w1)"
    "files w1 ''p'' = Some in_bin" "files w1 ''t'' = Some (trace_bytes [frame 1 OP_IN 42])"
    "fault w1 ''t'' = None"
    using save_sample by blast
  obtain wr where wr: "cmd_replay ''p'' ''t'' ?w = Some (Exit 0, wr)" using replay_sample by blast
  have intact: "memory_intact reader bs 0"
    if "TraceReader_open ''t'' ?w = Inr reader" "files ?w ''p'' = Some bs" for reader bs
    using that intact_sample by (simp add: open_traced)
  have cycle: "f_cycle f \<noteq> 0"
    if "TraceReader_open ''t'' ?w = Inr reader" "frame_at reader 0 = Some f" for reader f
    using that by (auto simp: open_traced frame_at_reader_of frame_def)
  have "\<exists>w3 out out' s r. cmd_restore 0 ''p'' ''t'' ''s'' w1 = Some (Exit 0, w3)
    \<and> stdout wr = out @ dump_state s r \<and> stdout w3 = out' @ dump_state s r \<and> stderr w3 = stderr w1"
    using w1 by (intro restore_resumes_replay [OF w1(1) _ wr] intact cycle) simp_all
  with w1 show ?thesis by blast
qed

definition stored_state :: CheckpointState where
  "stored_state = \<lparr>ck_frame_index = 0, ck_halted = HALT_CHECKPOINT, ck_flags = 0,
     ck_regs = [0, 0, 5, 0, 0, 0, 0, 0], ck_pc = 8, ck_sp = 0xFFFFC\<rparr>"

lemma save_store:
  "\<exists>w1. cmd_save ''p'' ''t'' ''s'' 0 (traced_world store_bin [frame 3 OP_IN 42]) = Some (Exit 0, w1)
     \<and> files w1 ''p'' = Some store_bin \<and> files w1 ''t'' = Some (trace_bytes [frame 3 OP_IN 42])
     \<and> fault w1 ''t'' = None \<and> files w1 ''s'' = Some (state_bytes stored_state)"
  apply (simp add: cmd_save_def traced_eval save_vm_def load_eval sample_defs vm_run_def run_goto_def)
  apply (simp add: step_eval hook_eval traced_eval traced_world_def no_files_def checkpoint_of_def
      stored_state_def upt_rec)
  apply (simp add: eval_nat_numeral)
  done

lemma replay_store:
  "\<exists>v x. run_goto (snd (replay_vm (reader_of [frame 3 OP_IN 42]) store_bin), w, 0) =
     Some (Returned HALT_NORMAL, v, x, 1) \<and> regs (vm_state v) ! 3 = 5"
  apply (simp add: replay_vm_def load_eval sample_defs run_goto_def)
  apply (simp add: step_eval hook_eval traced_eval)
  done

lemma restore_store:
  "\<exists>v x. run_goto (snd (restore_vm (reader_of [frame 3 OP_IN 42])
       (restored_state stored_state (frame 3 OP_IN 42)) store_bin), w, 0) =
     Some (Returned HALT_NORMAL, v, x, 1) \<and> regs (vm_state v) ! 3 = 0"
  apply (simp add: restore_vm_def restored_state_def stored_state_def load_eval sample_defs run_goto_def upt_rec)
  apply (simp add: step_eval hook_eval traced_eval)
  done

text \<open>
  C39: \<open>restore\<close> loses the program's earlier stores. For \<open>LI R2, 5; STORE R2, 0x100; IN R0;
  LOAD R3, 0x100; HALT\<close> and its one-frame trace, the replay ends with \<open>R3 = 5\<close>; a save before the
  frame and a restore from it also end with exit code 0, but with \<open>R3 = 0\<close>: the \<open>.state\<close> file
  has no memory and the store before the checkpoint is not executed again.
\<close>

theorem restore_loses_stores:
  "\<exists>w1 wr w3 sr s3 outr out3.
     cmd_replay ''p'' ''t'' (traced_world store_bin [frame 3 OP_IN 42]) = Some (Exit 0, wr)
     \<and> cmd_save ''p'' ''t'' ''s'' 0 (traced_world store_bin [frame 3 OP_IN 42]) = Some (Exit 0, w1)
     \<and> cmd_restore 0 ''p'' ''t'' ''s'' w1 = Some (Exit 0, w3)
     \<and> stdout wr = outr @ dump_state sr HALT_NORMAL \<and> regs sr ! 3 = 5
     \<and> stdout w3 = out3 @ dump_state s3 HALT_NORMAL \<and> regs s3 ! 3 = 0"
proof -
  let ?w = "traced_world store_bin [frame 3 OP_IN 42]" and ?rd = "reader_of [frame 3 OP_IN 42]"
  obtain w1 where w1: "cmd_save ''p'' ''t'' ''s'' 0 ?w = Some (Exit 0, w1)"
    "files w1 ''p'' = Some store_bin" "files w1 ''t'' = Some (trace_bytes [frame 3 OP_IN 42])"
    "fault w1 ''t'' = None" "files w1 ''s'' = Some (state_bytes stored_state)"
    using save_store by blast
  have load: "checkpoint_load ''s'' w1 = (Some stored_state, w1)"
    using w1(5) by (rule checkpoint_load_state_bytes) (simp add: stored_state_def)
  have rd: "TraceReader_open ''t'' w1 = Inr ?rd"
    using w1(3,4) by (rule TraceReader_open_trace_bytes)
  have idx: "ck_frame_index stored_state = 0" "f_cycle (frame 3 OP_IN 42) \<noteq> 0"
    by (simp_all add: stored_state_def frame_def)
  obtain v where v: "replay_vm ?rd store_bin = (True, v)" "vm_mode v = ComputedGoto"
    by (simp add: replay_vm_def load_eval store_bin_def)
  obtain u where u: "restore_vm ?rd (restored_state stored_state (frame 3 OP_IN 42)) store_bin = (True, u)"
    "vm_mode u = ComputedGoto"
    by (simp add: restore_vm_def load_eval store_bin_def)
  obtain v' x where run: "run_goto (v, print_out (replay_banner ''p'' ''t'' (length store_bin) ?rd) ?w, 0) =
      Some (Returned HALT_NORMAL, v', x, 1)" "regs (vm_state v') ! 3 = 5"
    using replay_store v by force
  let ?b = "restore_banner ''p'' ''s'' (length store_bin) stored_state
    (restored_state stored_state (frame 3 OP_IN 42))"
  obtain u' y where run': "run_goto (u, print_out ?b w1, 0) = Some (Returned HALT_NORMAL, u', y, 1)"
    "regs (vm_state u') ! 3 = 0"
    using restore_store u by force
  let ?ok = "''replay VERIFIED'' @ nl"
  have replay: "cmd_replay ''p'' ''t'' ?w =
      Some (Exit 0, print_out (dump_state (vm_state v') HALT_NORMAL) (print_out ?ok x))"
    using v run by (simp add: cmd_replay_def read_traced open_traced reader_of_count vm_run_def
        exit_code_def Let_def)
  let ?ok' = "''restore OK ('' @ fmt_u 1 @ '' frame(s) replayed from frame_index='' @ fmt_u32 0 @
    '')'' @ nl"
  have restore: "cmd_restore 0 ''p'' ''t'' ''s'' w1 =
      Some (Exit 0, print_out (dump_state (vm_state u') HALT_NORMAL) (print_out ?ok' y))"
    using w1 rd load u run' idx
    by (simp add: cmd_restore_def read_file_def vm_run_def exit_code_def Let_def reader_of_count
        frame_at_reader_of)
  show ?thesis
    by (rule exI [of _ w1], rule exI, rule exI, rule exI [of _ "vm_state v'"],
        rule exI [of _ "vm_state u'"], rule exI [of _ "stdout x @ ?ok"], rule exI [of _ "stdout y @ ?ok'"],
        intro conjI, rule replay, rule w1(1), rule restore) (simp_all add: run(2) run'(2))
qed

definition two_in_bin :: bytes where
  "two_in_bin = [0x00, 0x00, 0x00, 0x24,  0x00, 0x00, 0x80, 0x24,  0x00, 0x00, 0x00, 0x00]"

definition start_state :: CheckpointState where
  "start_state = \<lparr>ck_frame_index = 0, ck_halted = HALT_CHECKPOINT, ck_flags = 0,
     ck_regs = replicate 8 0, ck_pc = 0, ck_sp = 0xFFFFC\<rparr>"

lemma dump_state_reason: "dump_state s 0 \<noteq> dump_state s 1"
  by (simp add: dump_state_def fmt_u32_def fmt_u_def fmt_base.simps digit_char_def nl_def)

lemma restore_diverges:
  "\<exists>d v x. run_goto (snd (restore_vm (reader_of [frame 1 OP_IN 42, frame 5 OP_IN 43])
       (restored_state start_state (frame 1 OP_IN 42)) two_in_bin), w, 0) = Some (Thrown d, v, x, 1)"
  apply (simp add: restore_vm_def restored_state_def start_state_def load_eval two_in_bin_def run_goto_def)
  apply (simp add: step_eval hook_eval traced_eval)
  done

text \<open>
  When a restored replay diverges, \<open>restore\<close> prints a halt reason that it never set. The
  console output of such a run depends on the contents of the uninitialised variable \<open>r\<close>: on
  \<open>IN R0; IN R1; HALT\<close> with a trace whose second frame is for another cycle, two different contents
  give two different outputs.
\<close>

theorem restore_prints_garbage:
  "\<exists>w o0 o1. cmd_restore 0 ''p'' ''t'' ''s'' w = Some (Exit 3, o0)
     \<and> cmd_restore 1 ''p'' ''t'' ''s'' w = Some (Exit 3, o1) \<and> stdout o0 \<noteq> stdout o1"
proof -
  let ?rd = "reader_of [frame 1 OP_IN 42, frame 5 OP_IN 43]"
  let ?w = "write_file ''s'' (state_bytes start_state)
    (traced_world two_in_bin [frame 1 OP_IN 42, frame 5 OP_IN 43])"
  have load: "checkpoint_load ''s'' ?w = (Some start_state, ?w)"
    by (rule checkpoint_load_state_bytes) (simp_all add: start_state_def)
  have rd: "TraceReader_open ''t'' ?w = Inr ?rd"
    by (rule TraceReader_open_trace_bytes) simp_all
  have idx: "ck_frame_index start_state = 0" "f_cycle (frame 1 OP_IN 42) \<noteq> 0"
    by (simp_all add: start_state_def frame_def)
  obtain u where u: "restore_vm ?rd (restored_state start_state (frame 1 OP_IN 42)) two_in_bin = (True, u)"
    "vm_mode u = ComputedGoto"
    by (simp add: restore_vm_def load_eval two_in_bin_def)
  let ?b = "restore_banner ''p'' ''s'' (length two_in_bin) start_state
    (restored_state start_state (frame 1 OP_IN 42))"
  obtain d v x where run: "run_goto (u, print_out ?b ?w, 0) = Some (Thrown d, v, x, 1)"
    using restore_diverges u by force
  have restore: "cmd_restore g ''p'' ''t'' ''s'' ?w = Some (Exit 3, print_out (dump_state (vm_state v) g)
      (print_err (restore_divergence_text d 1 (rd_frame_count ?rd)) x))" for g
    using rd load u run idx
    by (simp add: cmd_restore_def read_file_def vm_run_def Let_def reader_of_count frame_at_reader_of)
  show ?thesis
    by (rule exI, rule exI, rule exI, intro conjI, rule restore, rule restore)
      (simp add: dump_state_reason)
qed

end
