(* ===== verification/SavedRuns.thy ===== *)
theory SavedRuns
  imports Resume
begin

text \<open>
  A recording through \<open>save\<close> and \<open>restore\<close>: every frame of a recorded trace can be saved at, and the
  restored run ends as the recording did.
\<close>

section \<open>The replay reaches every frame it consumes\<close>

lemma consume_cursor:
  "consume reader cyc op k = (Inr v, k') \<Longrightarrow>
     k' = Suc k \<and> (\<exists>f. frame_at reader k = Some f \<and> f_cycle f = cyc)"
  "consume reader cyc op k = (Inl d, k') \<Longrightarrow> k' = k"
  by (auto simp: consume_def split: option.splits if_splits)

text \<open>One instruction consumes no frame, or the next one, in that frame's cycle.\<close>

definition consumes_at_most :: "TraceReader \<Rightarrow> u64 \<Rightarrow> nat \<Rightarrow> nat \<Rightarrow> bool" where
  "consumes_at_most reader cyc k k' \<longleftrightarrow>
     k' = k \<or> k' = Suc k \<and> (\<exists>f. frame_at reader k = Some f \<and> f_cycle f = cyc)"

lemma replay_handler_cursor:
  assumes "replaying reader v" "quiet v"
  shows "case exec_label l ops (v, x, k) of
      Inl (_, _, k') \<Rightarrow> consumes_at_most reader (cycle_count (vm_state v)) k k'
    | Inr (_, _, _, k') \<Rightarrow> k' = k"
proof (cases "is_io l")
  case True
  with assms(1) show ?thesis
    by (cases ops) (auto simp: is_io_def do_IN_def do_RAND_def replaying_def replay_hooks_def replay_hook_def
        replay_observer_def observe_def consumes_at_most_def Let_def
        dest: consume_cursor split: prod.splits sum.splits)
next
  case False
  from exec_label_pure [OF False same_core_refl [of v], of "(x, k)" "(x, k)" ops] show ?thesis
    by (auto simp: pure_rel_def rel_sum.simps consumes_at_most_def split: prod.splits)
qed

lemma replay_step_cursor:
  assumes "replaying reader v" "quiet v"
  shows "case goto_step (v, x, k) of
      Inl (_, _, k') \<Rightarrow> consumes_at_most reader (cycle_count (vm_state (advance v))) k k'
    | Inr (_, _, _, k') \<Rightarrow> k' = k"
proof -
  obtain b u y where t: "snap_tick (advance v, x, k) = (b, u, y)" by (metis prod_cases3)
  note u = quiet_tick [OF assms(2) t]
  have r: "replaying reader u" "cycle_count (vm_state u) = cycle_count (vm_state (advance v))"
    using assms(1) u(3-5) by (simp_all add: replaying_def quiet_def same_arch_def)
  show ?thesis
    using replay_handler_cursor [OF r(1) u(3), where x = x and k = k
        and l = "dispatch_table ! unat (decode_op (fetch v))"
        and ops = "(decode_dst (fetch v), decode_src (fetch v), decode_imm (fetch v))"] u(1,2) t r(2)
    by (auto simp: goto_step_eq jump_to_def split: sum.splits prod.splits)
qed

lemma replay_reaches:
  assumes "run_goto c = Some q" "replaying reader (fst c)" "quiet (fst c)"
    "snd (snd c) \<le> k" "k < snd (snd (snd q))"
  shows "\<exists>n e f. steps goto_step n c = Some e \<and> snd (snd e) = k \<and> frame_at reader k = Some f
    \<and> f_cycle f = cycle_count (vm_state (advance (fst e)))"
  using assms unfolding run_goto_def
proof (induction rule: run_loop_induct)
  case (stop c q)
  with replay_step_cursor [of reader "fst c" "snd (snd c)" "fst (snd c)"] show ?case
    by (auto split: prod.splits)
next
  case (again c c' q)
  note step = replay_step_cursor [OF again.prems(1,2), of "snd (snd c)" "fst (snd c)"]
  have keep: "replaying reader (fst c')" "quiet (fst c')"
    using quiet_step [of "fst c" "snd c" c'] goto_step_fixed [of c c'] again.hyps(1) again.prems(1,2)
    by (simp_all add: replaying_def same_fixed_def)
  show ?case
  proof (cases "snd (snd c') \<le> k")
    case True
    from again.IH [OF keep True again.prems(4)] obtain n e f where e: "steps goto_step n c' = Some e"
      "snd (snd e) = k" "frame_at reader k = Some f" "f_cycle f = cycle_count (vm_state (advance (fst e)))"
      by blast
    then show ?thesis using again.hyps(1) by (intro exI [of _ "Suc n"] exI [of _ e] exI [of _ f]) simp
  next
    case False
    with step again.hyps(1) again.prems(3) have "snd (snd c') = Suc (snd (snd c))" "snd (snd c) = k"
      "\<exists>f. frame_at reader (snd (snd c)) = Some f \<and> f_cycle f = cycle_count (vm_state (advance (fst c)))"
      by (auto simp: consumes_at_most_def split: prod.splits)
    then show ?thesis by (metis steps.simps(1))
  qed
qed

section \<open>The save does not miss it\<close>

text \<open>
  A save that has touched no file but \<open>st\<close>, which can be written, and has not fired.
\<close>

definition only_at :: "string \<Rightarrow> world \<Rightarrow> world \<Rightarrow> bool" where
  "only_at st w0 w \<longleftrightarrow> fault w = fault w0 \<and> (\<forall>p. p \<noteq> st \<longrightarrow> files w p = files w0 p)"

definition armed :: "string \<Rightarrow> world \<Rightarrow> saver \<Rightarrow> bool" where
  "armed st w0 x \<longleftrightarrow> only_at st w0 (fst x) \<and> \<not> snd (snd x)"

lemma armed_sink:
  assumes "armed st w0 x" "fault w0 st = None"
  shows "if fst (snd x) = k \<and> cycle_count vs = t
    then \<exists>w. save_sink st k t vs s x = (Some HALT_CHECKPOINT, w, k, True) \<and> only_at st w0 w
    else save_sink st k t vs s x = (None, x)"
  using assms
  by (cases x) (auto simp: armed_def only_at_def save_sink_def checkpoint_save_def Let_def)

lemma armed_tick:
  assumes u: "saving reader st k t u" and x: "armed st w0 x" "fault w0 st = None"
    and tick: "snap_tick (advance u, x) = (b, u', x')"
  shows "if fst (snd x) = k \<and> cycle_count (vm_state (advance u)) = t
    then b \<and> halted (vm_state u') = HALT_CHECKPOINT \<and> fst (snd x') = k \<and> only_at st w0 (fst x')
    else \<not> b \<and> x' = x"
proof -
  let ?s = "(vm_state (advance u))\<lparr>snap_timer := 0\<rparr>"
  let ?n = "snapshot_of (vm_state (advance u)) (vm_deltas (advance u))"
  have run: "halted (vm_state (advance u)) = HALT_RUNNING" using u by (simp add: saving_def)
  have "vm_sink (advance u) = Some (save_sink st k t)" "snap_interval (vm_state (advance u)) = 1"
    "snap_timer (vm_state (advance u)) = 1"
    using u by (simp_all add: saving_def)
  from snap_tick_every [OF this, of x] tick
  have e: "(b, u', x') = (let (req, w') = save_sink st k t ?s ?n x;
      h = case req of None \<Rightarrow> halted (vm_state (advance u)) | Some r \<Rightarrow> r
    in (h \<noteq> HALT_RUNNING, (advance u)\<lparr>vm_state := (vm_state (advance u))\<lparr>halted := h, snap_timer := 1\<rparr>,
        vm_deltas := []\<rparr>, w'))"
    by simp
  show ?thesis
  proof (cases "fst (snd x) = k \<and> cycle_count (vm_state (advance u)) = t")
    case True
    with armed_sink [OF x, of k ?s t ?n] obtain w
      where "save_sink st k t ?s ?n x = (Some HALT_CHECKPOINT, w, k, True)" "only_at st w0 w"
      by auto
    with e True show ?thesis by (simp add: Let_def const_defs)
  next
    case False
    with armed_sink [OF x, of k ?s t ?n] have "save_sink st k t ?s ?n x = (None, x)" by (simp split: if_splits)
    with e False run show ?thesis by (simp add: Let_def)
  qed
qed

text \<open>The hooks keep it armed.\<close>

lemma io_rel_armed: "io_rel (\<lambda>x y. x = y \<and> armed st w0 x) (save_hooks reader) (save_hooks reader)"
  by (auto simp: io_rel_def hook_rel_def save_hooks_def save_hook_def save_observer_def armed_def
      only_at_def split: prod.splits)

lemma save_step_armed:
  assumes rel: "save_rel reader st k t c d" and x: "armed st w0 (snd c)" "fault w0 st = None"
  shows "if snd (snd d) = k \<and> cycle_count (vm_state (advance (fst d))) = t
    then \<exists>u y. goto_step c = Inr (Returned HALT_CHECKPOINT, u, y) \<and> fst (snd y) = k \<and> only_at st w0 (fst y)
    else \<forall>d'. goto_step d = Inl d' \<longrightarrow> (\<exists>c'. goto_step c = Inl c' \<and> save_rel reader st k t c' d' \<and> armed st w0 (snd c'))"
proof -
  obtain u y where c: "c = (u, y)" by (cases c)
  from rel have u: "saving reader st k t u" and cur: "fst (snd y) = snd (snd d)"
    and cyc: "cycle_count (vm_state (advance u)) = cycle_count (vm_state (advance (fst d)))"
    by (simp_all add: c save_rel_def arch_cfg_def cursor_rel_def same_arch_def)
  obtain b u' y' where t: "snap_tick (advance u, y) = (b, u', y')" by (metis prod_cases3)
  note tick = armed_tick [OF u x(1) [unfolded c snd_conv] x(2) t]
  show ?thesis
  proof (cases "snd (snd d) = k \<and> cycle_count (vm_state (advance (fst d))) = t")
    case True
    with tick cur cyc have "b \<and> halted (vm_state u') = HALT_CHECKPOINT \<and> fst (snd y') = k \<and> only_at st w0 (fst y')"
      by (simp only: simp_thms if_True)
    with True t show ?thesis by (simp add: c goto_step_eq)
  next
    case False
    with tick cur cyc have b: "\<not> b" and y': "y' = y" by (metis+)
    from save_step [OF rel] False
    have both: "rel_sum (save_rel reader st k t) (rel_prod (=) (arch_cfg cursor_rel)) (goto_step c) (goto_step d)"
      unfolding fired_def by blast
    have io: "vm_io u' = save_hooks reader"
      using save_tick [OF u t] b by (simp add: saving_def)
    have "rel_sum (arch_cfg (\<lambda>x y. x = y \<and> armed st w0 x)) (rel_prod (=) (arch_cfg (\<lambda>x y. x = y \<and> armed st w0 x)))
        (goto_step c) (goto_step c)"
      using jump_param [of u' u' "\<lambda>x y. x = y \<and> armed st w0 x" y y "fetch u"] x(1) b t io_rel_armed [of st w0 reader]
      by (simp add: c goto_step_eq io y' same_arch_def)
    with both False show ?thesis
      by (auto simp: rel_sum.simps arch_cfg_def)
  qed
qed

definition armed_rel :: "TraceReader \<Rightarrow> string \<Rightarrow> nat \<Rightarrow> u64 \<Rightarrow> world \<Rightarrow> saver cfg \<Rightarrow> replayer cfg \<Rightarrow> bool" where
  "armed_rel reader st k t w0 c d \<longleftrightarrow> save_rel reader st k t c d \<and> armed st w0 (snd c) \<and> fault w0 st = None"

definition saved_at :: "string \<Rightarrow> nat \<Rightarrow> world \<Rightarrow> run_result \<times> saver cfg \<Rightarrow> bool" where
  "saved_at st k w0 q \<longleftrightarrow> fst q = Returned HALT_CHECKPOINT \<and> fst (snd (snd (snd q))) = k
     \<and> only_at st w0 (fst (snd (snd q)))"

interpretation armed_saves: interruptible goto_step goto_step "armed_rel reader st k t w0" "\<lambda>_ _. True"
  "\<lambda>q d. saved_at st k w0 q"
  for reader st k t w0
proof unfold_locales
  fix c :: "saver cfg" and d :: "replayer cfg"
  assume rel: "armed_rel reader st k t w0 c d"
  then have parts: "save_rel reader st k t c d" "armed st w0 (snd c)" "fault w0 st = None"
    by (simp_all add: armed_rel_def)
  note step = save_step_armed [OF parts]
  show "(\<exists>q. goto_step c = Inr q \<and> saved_at st k w0 q)
    \<or> rel_sum (armed_rel reader st k t w0) (\<lambda>_ _. True) (goto_step c) (goto_step d)"
  proof (cases "snd (snd d) = k \<and> cycle_count (vm_state (advance (fst d))) = t")
    case True
    with step show ?thesis by (auto simp: saved_at_def)
  next
    case False
    with save_step [OF parts(1)] have "rel_sum (save_rel reader st k t) (rel_prod (=) (arch_cfg cursor_rel))
        (goto_step c) (goto_step d)"
      unfolding fired_def by blast
    with step False parts(3) show ?thesis by (auto simp: rel_sum.simps armed_rel_def)
  qed
qed

lemma save_reaches:
  assumes steps: "steps goto_step n d = Some e" "snd (snd e) = k" "cycle_count (vm_state (advance (fst e))) = t"
    and rel: "armed_rel reader st k t w0 c d"
  shows "\<exists>q. run_goto c = Some q \<and> saved_at st k w0 q"
  using armed_saves.steps_point [OF steps(1) rel]
proof
  assume "\<exists>c'. steps goto_step n c = Some c' \<and> armed_rel reader st k t w0 c' e"
  then obtain c' where c': "steps goto_step n c = Some c'" and rel': "armed_rel reader st k t w0 c' e" by blast
  from rel' have "save_rel reader st k t c' e" "armed st w0 (snd c')" "fault w0 st = None"
    by (simp_all add: armed_rel_def)
  from save_step_armed [OF this] steps(2,3) obtain q where "goto_step c' = Inr q" "saved_at st k w0 q"
    by (auto simp: saved_at_def)
  then show ?thesis using run_loop_steps [OF c'] by (auto simp: run_goto_def run_loop_stop)
qed (auto simp: run_goto_def)

text \<open>Whatever frame the replay consumes, \<open>save\<close> at it succeeds and writes no file but \<open>st\<close>.\<close>

lemma save_succeeds:
  assumes bs: "files w bin = Some bs" "length bs \<le> MEM_SIZE" and rd: "TraceReader_open trace w = Inr reader"
    and run: "run_goto (replay_start reader bs, wb, 0) = Some (res, v', x', cur)" "k < cur"
    and st: "fault w st = None"
  shows "\<exists>w3. cmd_save bin trace st k w = Some (Exit 0, w3) \<and> only_at st w w3"
proof -
  from replay_reaches [OF run(1), of reader k] run(2) replay_start_fresh
  obtain n e f where e: "steps goto_step n (replay_start reader bs, wb, 0) = Some e" "snd (snd e) = k"
    and f: "frame_at reader k = Some f" "cycle_count (vm_state (advance (fst e))) = f_cycle f"
    by (metis fst_conv snd_conv le0)
  obtain u where u: "save_vm reader st k (f_cycle f) bs = (True, u)"
    using save_vm_fresh(3) [of reader st k "f_cycle f" bs] bs(2)
    by (cases "save_vm reader st k (f_cycle f) bs") simp
  let ?w = "print_out (''retrovm: save '' @ sq @ bin @ sq @ '' ('' @ fmt_u (length bs) @ '' bytes) at-frame='' @
    fmt_u k @ '' (target cycle='' @ fmt_u64 (f_cycle f) @ '') -> '' @ st @ nl) w"
  have "save_rel reader st k (f_cycle f) (u, ?w, 0, False) (replay_start reader bs, wb, 0)"
    using save_vm_fresh(1,4) [OF u] replay_start_fresh by (simp add: save_rel_def arch_cfg_def cursor_rel_def)
  then have "armed_rel reader st k (f_cycle f) w (u, ?w, 0, False) (replay_start reader bs, wb, 0)"
    using st by (simp add: armed_rel_def armed_def only_at_def)
  from save_reaches [OF e f(2) this] obtain u' y
    where run': "run_goto (u, ?w, 0, False) = Some (Returned HALT_CHECKPOINT, u', y)" "fst (snd y) = k"
      and only: "only_at st w (fst y)"
    by (auto simp: saved_at_def)
  obtain x saved where y: "y = (x, k, saved)" using run'(2) by (cases y) simp
  let ?line = "''  [save] replay exhausted '' @ fmt_u k @ '' frame(s); VM halted at frame_index='' @ fmt_u k @ nl"
  have "cmd_save bin trace st k w =
      Some (Exit 0, print_out (dump_state (vm_state u') HALT_CHECKPOINT) (print_out ?line x))"
    using bs rd f u run' save_vm_fresh(2) [OF u]
    by (simp add: cmd_save_def read_file_def vm_run_def y Let_def)
  moreover have "only_at st w (print_out (dump_state (vm_state u') HALT_CHECKPOINT) (print_out ?line x))"
    using only by (simp add: only_at_def y)
  ultimately show ?thesis by blast
qed

section \<open>Record, save, restore\<close>

lemma reader_of_inject: "reader_of S = reader_of T \<Longrightarrow> S = T"
proof (rule nth_equalityI)
  assume eq: "reader_of S = reader_of T"
  then show len: "length S = length T" by (simp add: reader_of_def)
  fix i assume "i < length S"
  with eq len frame_at_reader_of [of S i] frame_at_reader_of [of T i] show "S ! i = T ! i" by simp
qed

text \<open>
  C4: a recording can be saved at every frame and resumed. When \<open>record\<close> has ended with an exit
  code other than 1 and written the frames \<open>T\<close>, \<open>save\<close> at any frame \<open>k < 2 ^ 32\<close> of them succeeds, in any
  world that has the binary and the trace and lets the \<open>.state\<close> file be written, at a path that is
  neither of theirs. If no instruction before that frame has changed memory and the cycle of the frame
  is not 0, \<open>restore\<close> from the saved file then ends with the exit code of the
  recording and prints the state dump that the recording ended with.
\<close>

theorem record_save_restore:
  assumes rec: "cmd_record bin seed w = Some (Exit code, w1)" "code \<noteq> 1"
    and frames: "files w1 (bin @ ''.trace'') = Some (trace_bytes T)" "k < length T" "k < 2 ^ 32"
    and w2: "files w2 bin = files w bin" "files w2 (bin @ ''.trace'') = files w1 (bin @ ''.trace'')"
      "fault w2 (bin @ ''.trace'') = None" "fault w2 st = None"
    and st: "st \<noteq> bin" "st \<noteq> bin @ ''.trace''"
  shows "\<exists>w3. cmd_save bin (bin @ ''.trace'') st k w2 = Some (Exit 0, w3)
    \<and> (memory_intact (reader_of T) (the (files w bin)) k \<and> f_cycle (T ! k) \<noteq> 0 \<longrightarrow>
        (\<exists>w4 out1 out4 s r. cmd_restore garbage bin (bin @ ''.trace'') st w3 = Some (Exit code, w4)
          \<and> stdout w1 = out1 @ dump_state s r \<and> stdout w4 = out4 @ dump_state s r
          \<and> stderr w4 = stderr w3))"
  using rec
proof (rule cmd_recordE)
  fix bs u r u' w' g' T'
  assume bs: "files w bin = Some bs" and u: "record_vm bs = (True, u)"
    and run: "run_goto (u, print_out (''retrovm: record '' @ sq @ bin @ sq @ '' ('' @
       fmt_u (length bs) @ '' bytes) seed=0x'' @ fmt_08x seed @ nl) w, mt_init seed, []) =
       Some (Returned r, u', w', g', T')"
    and T': "files w1 (bin @ ''.trace'') = Some (trace_bytes T')" and code: "code = exit_code r"
    and out: "stdout w1 = stdout w' @ ''trace       : '' @ fmt_u (length T') @ '' frames -> '' @
       bin @ ''.trace'' @ nl @ dump_state (vm_state u') r"
  let ?tr = "bin @ ''.trace''"
  have rd: "TraceReader_open ?tr w2 = Inr (reader_of T)"
    using frames(1) w2(2,3) by (intro TraceReader_open_trace_bytes) simp_all
  moreover have "TraceReader_open ?tr w2 = Inr (reader_of T')"
    using T' w2(2,3) by (intro TraceReader_open_trace_bytes) simp_all
  ultimately have "reader_of T' = reader_of T" by simp
  then have T: "T' = T" by (rule reader_of_inject)
  obtain ok v where v: "replay_vm (reader_of T) bs = (ok, v)" by fastforce
  then have start: "replay_start (reader_of T) bs = v" by (simp add: replay_start_def)
  have len: "length bs \<le> MEM_SIZE" using record_vm_fresh(3) [OF u] by simp
  from record_replay_run [OF run [unfolded T] record_vm_fresh(1) [OF u] record_replay_vm_core [OF u v]
      replay_vm_fresh(1) [OF v], of w2]
  obtain v' where run': "run_goto (replay_start (reader_of T) bs, w2, 0) =
      Some (Returned r, v', print_out (trace_lines T) w2, length T)" "same_core u' v'"
    unfolding start by blast
  from bs w2(1) have bs2: "files w2 bin = Some bs" by simp
  from save_succeeds [OF bs2 len rd run'(1) frames(2) w2(4)] obtain w3
    where save: "cmd_save bin ?tr st k w2 = Some (Exit 0, w3)" and only: "only_at st w2 w3"
    by blast
  have same: "files w3 bin = files w2 bin" "files w3 ?tr = files w2 ?tr" "fault w3 ?tr = fault w2 ?tr"
    using only st by (auto simp: only_at_def)
  have restore: "\<exists>y. cmd_restore garbage bin ?tr st w3 =
      Some (Exit (exit_code r), print_out (dump_state (vm_state v') r) y) \<and> stderr y = stderr w3"
    if "memory_intact (reader_of T) bs k" "f_cycle (T ! k) \<noteq> 0"
  proof (rule saved_run [OF save frames(3) _ _ same refl bs2 len rd run'(1)])
    fix reader bs' assume "TraceReader_open ?tr w2 = Inr reader" "files w2 bin = Some bs'"
    then show "memory_intact reader bs' k" using rd bs2 that(1) by simp
  next
    fix reader f assume "TraceReader_open ?tr w2 = Inr reader" "frame_at reader k = Some f"
    then show "f_cycle f \<noteq> 0" using rd that(2) frames(2) by (auto simp: frame_at_reader_of)
  qed (simp add: reader_of_def)
  have "\<exists>w4 out1 out4 s r. cmd_restore garbage bin ?tr st w3 = Some (Exit code, w4)
      \<and> stdout w1 = out1 @ dump_state s r \<and> stdout w4 = out4 @ dump_state s r \<and> stderr w4 = stderr w3"
    if intact: "memory_intact (reader_of T) bs k" and cycle: "f_cycle (T ! k) \<noteq> 0"
  proof -
    from restore [OF intact cycle] obtain y
      where y: "cmd_restore garbage bin ?tr st w3 = Some (Exit code, print_out (dump_state (vm_state v') r) y)"
        "stderr y = stderr w3"
      unfolding code by blast
    from out run'(2) have "stdout w1 = (stdout w' @ ''trace       : '' @ fmt_u (length T') @ '' frames -> '' @
       bin @ ''.trace'' @ nl) @ dump_state (vm_state v') r"
      by (simp add: same_coreD(2))
    moreover have "stdout (print_out (dump_state (vm_state v') r) y) = stdout y @ dump_state (vm_state v') r"
      by simp
    ultimately show ?thesis using y by (metis print_frame(4))
  qed
  with save bs show ?thesis by auto
qed

text \<open>\<open>IN R0; HALT\<close> with \<open>42\<close> on the console.\<close>

lemma scanf_42: "scanf_u ''42'' = (Some 42, [])"
  by (simp add: scanf_u_def strtoul_def isspace_def is_digit_def digit_val_def digits_val_def digit_num_def
      ULONG_MAX_def Let_def of_char_def)

lemma record_frames_sample:
  "\<exists>w1. cmd_record ''p'' 7 (sample_world in_bin) = Some (Exit 0, w1)
     \<and> files w1 ''p'' = Some in_bin \<and> fault w1 = (\<lambda>_. None)
     \<and> files w1 ''p.trace'' = Some (trace_bytes [frame 1 OP_IN 42])"
  apply (simp add: record_eval load_eval sample_defs)
  apply (simp add: step_eval record_eval sample_defs scanf_42 trace_append_def frame_def)
  done

theorem record_save_restore_witness:
  "\<exists>w1 w3 w4. cmd_record ''p'' 7 (sample_world in_bin) = Some (Exit 0, w1)
     \<and> cmd_save ''p'' ''p.trace'' ''s'' 0 w1 = Some (Exit 0, w3)
     \<and> cmd_restore 0 ''p'' ''p.trace'' ''s'' w3 = Some (Exit 0, w4)"
proof -
  obtain w1 where w1: "cmd_record ''p'' 7 (sample_world in_bin) = Some (Exit 0, w1)"
    "files w1 ''p'' = Some in_bin" "fault w1 = (\<lambda>_. None)"
    "files w1 (''p'' @ ''.trace'') = Some (trace_bytes [frame 1 OP_IN 42])"
    using record_frames_sample by auto
  have bin: "files (sample_world in_bin) ''p'' = Some in_bin" by (simp add: sample_world_def)
  from record_save_restore [OF w1(1) _ w1(4), of 0 w1 "''s''" 0] w1 intact_sample
  show ?thesis by (simp add: bin frame_def) blast
qed

end
