(* ===== verification/DebugReplay.thy ===== *)
theory DebugReplay
  imports TimeTravel SavedRuns
begin

text \<open>
  The debugger and the replay: the first run of a \<open>--trace\<close> session passes through the machines of
  the replay, and what a \<open>restore\<close> makes of the file that the command \<open>save\<close> of the session writes.
\<close>

section \<open>A session steps through the replay\<close>

definition session_cursor :: "dbg \<Rightarrow> replayer \<Rightarrow> bool" where
  "session_cursor x y \<longleftrightarrow> d_cursor (the_debug x) = snd y"

lemma io_rel_debug: "io_rel session_cursor (debug_replay_hooks reader) (replay_hooks reader)"
  by (auto simp: io_rel_def hook_rel_def debug_replay_hooks_def replay_hooks_def debug_consume_def
      replay_hook_def debug_observer_def replay_observer_def say_def session_cursor_def the_debug_def
      split: prod.splits)

definition follows :: "TraceReader \<Rightarrow> dbg cfg \<Rightarrow> replayer cfg \<Rightarrow> bool" where
  "follows reader c e \<longleftrightarrow> arch_cfg session_cursor c e \<and> debug_core c
     \<and> d_replay_mode (the_debug (snd c)) \<and> vm_io (fst c) = debug_replay_hooks reader
     \<and> halted (vm_state (fst c)) = HALT_RUNNING
     \<and> replaying reader (fst e) \<and> quiet (fst e) \<and> snap_interval (vm_state (fst e)) = 0"

text \<open>The machine in which the sink has stopped the session, from the replay's.\<close>

definition stopped_before :: "HaltReason \<Rightarrow> dbg cfg \<Rightarrow> replayer cfg \<Rightarrow> bool" where
  "stopped_before r c e \<longleftrightarrow> d_cursor (the_debug (snd c)) = snd (snd e) \<and> vm_mem (fst c) = vm_mem (fst e)
     \<and> cycle_count (vm_state (fst c)) = cycle_count (vm_state (fst e)) + 1
     \<and> debug_checkpoint (vm_state (fst c)) (the_debug (snd c)) =
         (checkpoint_before (snd (snd e)) (vm_state (fst e)))\<lparr>ck_halted := r\<rparr>"

definition stopped_by_sink :: "run_result \<times> dbg cfg \<Rightarrow> replayer cfg \<Rightarrow> bool" where
  "stopped_by_sink q e \<longleftrightarrow> (\<exists>r \<in> {HALT_STEP, HALT_BREAKPOINT}. fst q = Returned r \<and> stopped_before r (snd q) e)"

text \<open>An instruction of the session: the sink stops it, or it is an instruction of the replay.\<close>

lemma follows_halt:
  fixes vm :: "dbg VM"
  assumes rel: "follows reader (vm, w, g, d) e"
    and req: "sink_request d (cycle_count (vm_state vm) + 1) (pc (vm_state vm) + 4) = Some r"
  shows "\<exists>q. goto_step (vm, w, g, d) = Inr q \<and> stopped_by_sink q e"
proof -
  have core: "debug_core (vm, w, g, d)" and mode: "d_replay_mode d" and arch: "same_arch vm (fst e)"
    and cur: "d_cursor d = snd (snd e)"
    using rel by (simp_all add: follows_def arch_cfg_def session_cursor_def the_debug_def)
  have r: "r \<in> {HALT_STEP, HALT_BREAKPOINT}" "r \<noteq> HALT_RUNNING"
    using req by (auto simp: sink_request_def const_defs split: if_splits)
  obtain w' where step: "goto_step (vm, w, g, d) =
      Inr (Returned r, ticked vm (Some r), w', g, pushed d (position (advance vm, w, g, d)) (Some r))"
    using session_halt [OF core r(2) req] by blast
  have "length (regs (vm_state vm)) = 8" using core by (simp add: debug_core_def)
  then have "map ((!) (regs (vm_state vm))) [0..<8] = regs (vm_state vm)" by (metis map_nth)
  then have "stopped_before r (ticked vm (Some r), w', g, pushed d (position (advance vm, w, g, d)) (Some r)) e"
    using arch cur mode r(2)
    by (simp add: stopped_before_def the_debug_def debug_checkpoint_def checkpoint_before_def same_arch_def)
  with step r(1) show ?thesis by (auto simp: stopped_by_sink_def)
qed

lemma follows_next:
  fixes vm :: "dbg VM"
  assumes rel: "follows reader (vm, w, g, d) e"
    and req: "sink_request d (cycle_count (vm_state vm) + 1) (pc (vm_state vm) + 4) = None"
  shows "rel_sum (follows reader) (rel_prod (=) (arch_cfg session_cursor)) (goto_step (vm, w, g, d)) (goto_step e)"
proof -
  let ?c = "(vm, w, g, d)"
  obtain v x where e: "e = (v, x)" by (cases e)
  have core: "debug_core ?c" and run: "halted (vm_state vm) = HALT_RUNNING"
    and mode: "d_replay_mode d" and io: "vm_io vm = debug_replay_hooks reader"
    and arch: "same_arch vm v" and cur: "session_cursor (w, g, d) x"
    and v: "replaying reader v" "quiet v" "snap_interval (vm_state v) = 0"
    using rel by (simp_all add: follows_def e arch_cfg_def the_debug_def)
  obtain w1 where s: "goto_step ?c =
      jump_to (fetch vm) (ticked vm None, w1, g, pushed d (position (advance vm, w, g, d)) None)"
    by (rule session_exec [OF core run req])
  have "same_arch (ticked vm None) (advance v)" using arch by (simp add: same_arch_def)
  moreover have "io_rel session_cursor (vm_io (ticked vm None)) (vm_io (advance v))"
    using io v(1) io_rel_debug by (simp add: replaying_def)
  moreover have "session_cursor (w1, g, pushed d (position (advance vm, w, g, d)) None) x"
    using cur by (simp add: session_cursor_def the_debug_def)
  ultimately have both: "rel_sum (arch_cfg session_cursor) (rel_prod (=) (arch_cfg session_cursor))
      (goto_step ?c) (goto_step e)"
    using jump_param [of "ticked vm None" "advance v"] s v(3) same_arch_fetch [OF arch]
    by (simp add: e goto_step_eq)
  have "follows reader c' e'" if c': "goto_step ?c = Inl c'" and e': "goto_step e = Inl e'"
    and rel': "arch_cfg session_cursor c' e'" for c' e'
  proof -
    obtain vm' w' g' d' where c: "c' = (vm', w', g', d')" by (metis prod_cases4)
    note nxt = debug_next [OF core c' [unfolded c]]
    have "vm_io vm' = debug_replay_hooks reader"
      using goto_step_fixed [OF c'] io by (simp add: c same_fixed_def)
    moreover have "replaying reader (fst e') \<and> quiet (fst e') \<and> snap_interval (vm_state (fst e')) = 0"
      using quiet_step [OF v(2) e' [unfolded e]] goto_step_fixed [OF e'] v
      by (simp add: e replaying_def same_fixed_def)
    ultimately show ?thesis
      using rel' nxt(1,4) mode by (simp add: follows_def after_fetch_def c the_debug_def)
  qed
  with both show ?thesis by (auto simp: rel_sum.simps)
qed

interpretation sessions: interruptible goto_step goto_step "follows reader"
  "rel_prod (=) (arch_cfg session_cursor)" stopped_by_sink
  for reader
proof unfold_locales
  fix c :: "dbg cfg" and e :: "replayer cfg"
  assume rel: "follows reader c e"
  obtain vm w g d where c: "c = (vm, w, g, d)" by (metis prod_cases4)
  show "(\<exists>q. goto_step c = Inr q \<and> stopped_by_sink q e)
    \<or> rel_sum (follows reader) (rel_prod (=) (arch_cfg session_cursor)) (goto_step c) (goto_step e)"
    using follows_halt [OF rel [unfolded c]] follows_next [OF rel [unfolded c]]
    by (cases "sink_request d (cycle_count (vm_state vm) + 1) (pc (vm_state vm) + 4)") (auto simp: c)
qed

lemma follows_run:
  assumes run: "run_goto c = Some q" "fst q = Returned r" "r = HALT_STEP \<or> r = HALT_BREAKPOINT"
    and rel: "follows reader c e"
  shows "\<exists>n e'. steps goto_step n e = Some e' \<and> stopped_before r (snd q) e'"
  using sessions.run_point [OF run(1) [unfolded run_goto_def] rel]
proof
  assume "\<exists>s. run_loop goto_step e = Some s \<and> rel_prod (=) (arch_cfg session_cursor) q s"
  then obtain s where "run_goto e = Some s" "fst s = fst q" by (auto simp: rel_prod_sel run_goto_def)
  moreover have "snap_interval (vm_state (fst e)) = 0" using rel by (simp add: follows_def)
  ultimately show ?thesis using own_halts [of e s] run(2,3) by auto
qed (use run(2) in \<open>auto simp: stopped_by_sink_def\<close>)

text \<open>The session that \<open>debug --trace\<close> starts is where the replay starts.\<close>

lemma session_follows:
  assumes load: "load_program bs (VM_new debug_in debug_rand) = (True, vm0)"
    and session: "debug_session (Some reader) trace vm0 w g = (vm, w, g, d)"
  shows "follows reader (resumed t (vm, w', g', d\<lparr>d_breakpoints := B\<rparr>)) (replay_start reader bs, wb, 0)"
proof -
  have "debug_ready (debug_session (Some reader) trace vm0 w g)"
    using load by (intro session_start_ready [where bs = bs]) simp
  then have core: "debug_core (vm, w, g, d)" by (simp add: session debug_ready_def)
  then have "debug_core (vm, w', g', d\<lparr>d_breakpoints := B\<rparr>)"
    by (simp add: debug_core_def debug_io_def ring_of_def)
  then have core': "debug_core (resumed t (vm, w', g', d\<lparr>d_breakpoints := B\<rparr>))" by (rule resumed_core)
  have d: "d_replay_mode d" "d_cursor d = 0" and io: "vm_io vm = debug_replay_hooks reader"
    and arch: "same_arch vm (replay_start reader bs)"
    using session load
    by (auto simp: debug_session_def install_debug_sink_def set_snapshot_sink_def set_snapshot_interval_def
        set_io_hooks_def take_snapshot_def CmdDebug_init_def Let_def replay_start_def replay_vm_def
        load_program_def VM_new_def reset_state_def same_arch_def fun_eq_iff split: if_splits)
  show ?thesis
    using core' d io arch replay_start_fresh
    by (simp add: follows_def resumed_def arch_cfg_def session_cursor_def the_debug_def same_arch_def)
qed

section \<open>A replay in the wrong cycle\<close>

text \<open>
  The same machine in a cycle that is off by \<open>delta\<close> takes the same steps, until it asks for the frame
  that the replay consumes.
\<close>

definition off_by :: "u64 \<Rightarrow> TraceReader \<Rightarrow> replayer cfg \<Rightarrow> replayer cfg \<Rightarrow> bool" where
  "off_by delta reader c e \<longleftrightarrow> (case c of (u, x) \<Rightarrow> case e of (v, y) \<Rightarrow>
     vm_mem u = vm_mem v \<and> cycle_count (vm_state u) = cycle_count (vm_state v) + delta
     \<and> regs (vm_state u) = regs (vm_state v) \<and> pc (vm_state u) = pc (vm_state v)
     \<and> sp (vm_state u) = sp (vm_state v) \<and> flags (vm_state u) = flags (vm_state v)
     \<and> replaying reader u \<and> replaying reader v \<and> quiet u \<and> quiet v \<and> snd x = snd y)"

lemma off_by_handler:
  assumes rel: "off_by delta reader (u, x) (v, y)" and delta: "delta \<noteq> 0"
    and run: "exec_label l ops (v, y) = Inl (v', y')"
  shows "(\<exists>d c'. exec_label l ops (u, x) = Inr (Thrown d, c'))
    \<or> (\<exists>u' x'. exec_label l ops (u, x) = Inl (u', x') \<and> off_by delta reader (u', x') (v', y') \<and> snd y' = snd y)"
proof (cases "is_io l")
  case True
  with assms show ?thesis
    by (cases ops; cases x; cases y) (auto simp: is_io_def off_by_def do_IN_def do_RAND_def replaying_def
        replay_hooks_def replay_hook_def consume_def Let_def split: prod.splits sum.splits option.splits if_splits)
next
  case False
  obtain dst src imm where ops: "ops = (dst, src, imm)" by (cases ops)
  obtain a k where x: "x = (a, k)" by (cases x)
  obtain b j where y: "y = (b, j)" by (cases y)
  from False show ?thesis
    using rel run
    by (cases l; auto simp: x y is_io_def ops off_by_def handler_defs access_defs quiet_def replaying_def Let_def
        split: if_splits)
qed

lemma off_by_step:
  assumes rel: "off_by delta reader c e" and delta: "delta \<noteq> 0" and run: "goto_step e = Inl e'"
  shows "(\<exists>d c'. goto_step c = Inr (Thrown d, c'))
    \<or> (\<exists>c'. goto_step c = Inl c' \<and> off_by delta reader c' e' \<and> snd (snd e') = snd (snd e))"
proof -
  obtain u x v y where c: "c = (u, x)" and e: "e = (v, y)" by (cases c; cases e)
  obtain v' y' where e': "e' = (v', y')" by (cases e')
  have q: "quiet u" "quiet v" using rel by (simp_all add: c e off_by_def)
  obtain a u1 x1 where tu: "snap_tick (advance u, x) = (a, u1, x1)" by (metis prod_cases3)
  obtain b v1 y1 where tv: "snap_tick (advance v, y) = (b, v1, y1)" by (metis prod_cases3)
  note qu = quiet_tick [OF q(1) tu] and qv = quiet_tick [OF q(2) tv]
  have rel1: "off_by delta reader (u1, x) (v1, y)"
    using rel qu(3-5) qv(3-5)
    by (simp add: c e off_by_def same_arch_def replaying_def quiet_def)
  have f: "fetch u = fetch v" using rel by (simp add: c e off_by_def fetch_def)
  let ?l = "dispatch_table ! unat (decode_op (fetch v))"
  let ?ops = "(decode_dst (fetch v), decode_src (fetch v), decode_imm (fetch v))"
  have op: "\<not> ucast OP_COUNT \<le> decode_op (fetch v)" and ex: "exec_label ?l ?ops (v1, y) = Inl (v', y')"
    using run tv qv(1,2) by (auto simp: e e' goto_step_eq jump_to_def split: if_splits)
  have "goto_step c = exec_label ?l ?ops (u1, x)"
    using tu qu(1,2) op by (simp add: c goto_step_eq jump_to_def f)
  with off_by_handler [OF rel1 delta ex] show ?thesis by (simp add: e e')
qed

lemma off_by_run:
  assumes "run_goto e = Some q" "off_by delta reader c e" "delta \<noteq> 0" "snd (snd e) < snd (snd (snd q))"
  shows "\<exists>d c'. run_goto c = Some (Thrown d, c')"
  using assms unfolding run_goto_def
proof (induction arbitrary: c rule: run_loop_induct)
  case (stop e q)
  then have "replaying reader (fst e)" "quiet (fst e)" by (auto simp: off_by_def)
  from replay_step_cursor [OF this, of "snd (snd e)" "fst (snd e)"] stop.hyps stop.prems(3) show ?case
    by (auto split: prod.splits)
next
  case (again e e' q)
  from off_by_step [OF again.prems(1,2) again.hyps(1)] show ?case
  proof
    assume "\<exists>d c'. goto_step c = Inr (Thrown d, c')"
    then show ?thesis by (auto simp: run_loop_stop)
  next
    assume "\<exists>c'. goto_step c = Inl c' \<and> off_by delta reader c' e' \<and> snd (snd e') = snd (snd e)"
    then obtain c' where c': "goto_step c = Inl c'" "off_by delta reader c' e'" "snd (snd e') = snd (snd e)"
      by blast
    from again.IH [OF c'(2) again.prems(2)] again.prems(3) c'(3) c'(1) show ?thesis
      by (simp add: run_loop_next)
  qed
qed

text \<open>
  A checkpoint of a machine of the replay whose next instruction is not the one that consumes frame
  \<open>k\<close>: \<open>restore\<close> from it diverges.
\<close>

lemma restored_diverges:
  assumes bs: "files w2 bin = Some bs" "length bs \<le> MEM_SIZE" and rd: "TraceReader_open trace w2 = Inr reader"
    and st: "files w2 st = Some (state_bytes ((checkpoint_before k (vm_state v))\<lparr>ck_halted := tag\<rparr>))" and k: "k < 2 ^ 32"
    and steps: "steps goto_step n (replay_start reader bs, wb, 0) = Some (v, x, k)"
    and f: "frame_at reader k = Some f" "cycle_count (vm_state v) + 1 \<noteq> f_cycle f" "f_cycle f \<noteq> 0"
    and intact: "vm_mem v = vm_mem (replay_start reader bs)"
    and run: "run_goto (replay_start reader bs, wb, 0) = Some (Returned r, v', x', cur)" "k < cur"
  shows "\<exists>w3. cmd_restore garbage bin trace st w2 = Some (Exit 3, w3)"
proof -
  note v = replay_steps_frame [OF steps]
  let ?ck = "(checkpoint_before k (vm_state v))\<lparr>ck_halted := tag\<rparr>"
  have load: "checkpoint_load st w2 = (Some ?ck, w2)"
    using st v(4) by (intro checkpoint_load_state_bytes) (simp_all add: checkpoint_before_def)
  have idx: "unat (ck_frame_index ?ck) = k" using k by (simp add: checkpoint_before_def unat_of_nat)
  from restore_vm_arch [OF v(4), where reader = reader and k = k and tag = tag and f = f and bs = bs] bs(2)
  obtain rv where rv: "restore_vm reader (restored_state ?ck f) bs = (True, rv)" "replaying reader rv" "quiet rv"
      "vm_mode rv = ComputedGoto" "vm_mem rv = vm_mem (replay_start reader bs)"
      and fields: "cycle_count (vm_state rv) = f_cycle f - 1" "regs (vm_state rv) = regs (vm_state v)"
        "pc (vm_state rv) = pc (vm_state v)" "sp (vm_state rv) = sp (vm_state v)"
        "flags (vm_state rv) = flags (vm_state v)"
    by auto
  let ?w2 = "print_out (restore_banner bin st (length bs) ?ck (restored_state ?ck f)) w2"
  have off: "off_by (f_cycle f - 1 - cycle_count (vm_state v)) reader (rv, ?w2, k) (v, x, k)"
    using intact rv(2,3,5) fields v(1,2) by (simp add: off_by_def)
  have delta: "f_cycle f - 1 - cycle_count (vm_state v) \<noteq> 0"
  proof
    assume "f_cycle f - 1 - cycle_count (vm_state v) = 0"
    then have "f_cycle f = cycle_count (vm_state v) + 1" by (simp add: diff_eq_eq)
    with f(2) show False by simp
  qed
  have "run_goto (v, x, k) = Some (Returned r, v', x', cur)"
    using run(1) run_loop_steps [OF steps] by (simp add: run_goto_def)
  with off_by_run [OF _ off delta] run(2) obtain d u y j where "run_goto (rv, ?w2, k) = Some (Thrown d, u, y, j)"
    by fastforce
  then show ?thesis
    using bs rd load idx f rv(1,4)
    by (simp add: cmd_restore_def read_file_def vm_run_def Let_def)
qed

section \<open>The command \<open>save\<close> of the debugger\<close>

lemma debug_run_halted:
  assumes "run_goto c0 = Some (Returned r, c')" "debug_core c0"
  shows "halted (vm_state (fst c')) = r"
  using debug_run_count [OF assms, of "\<lambda>_ _. True" "\<lambda>_. True"] by auto

text \<open>A command that has stopped the running machine has run it.\<close>

lemma command_ran:
  assumes cmd: "debug_command tok (vm, w, g, d) = Some (Debug_Continue, vm', w', g', d')"
    and tok: "tok ! 0 = ''step'' \<or> tok ! 0 = ''continue'' \<or> tok ! 0 = ''c''"
    and run: "halted (vm_state vm) = HALT_RUNNING" "halted (vm_state vm') \<noteq> HALT_RUNNING"
  shows "\<exists>t r w''. run_goto (resumed t (vm, w, g, d)) = Some (Returned r, vm', w'', g', d')
    \<and> fault w'' = fault w'"
proof -
  have halt: "resumable (halted (vm_state vm))" using run(1) by (simp add: resumable_def)
  from tok cmd consider "debug_step tok (vm, w, g, d) = Some (Debug_Continue, vm', w', g', d')"
    | "debug_continue (vm, w, g, d) = Some (Debug_Continue, vm', w', g', d')"
    by (auto simp: debug_command_def)
  then show ?thesis
  proof cases
    case 1
    have "\<exists>n. count_arg tok = Inr n \<and> n \<noteq> 0"
      using 1 run by (cases "count_arg tok") (auto simp: debug_step_def complain_def say_def split: if_splits)
    then obtain n where "count_arg tok = Inr n" "n \<noteq> 0" by blast
    with 1 have "debug_drive (resumed (cycle_count (vm_state vm) + n) (vm, w, g, d)) =
        Some (Debug_Continue, vm', w', g', d')"
      using debug_step_run [OF halt] by simp
    then show ?thesis by (rule debug_drive_continue) blast
  next
    case 2
    from 2 halt obtain v x s where "debug_drive (resumed UINT64_MAX (vm, w, g, d)) = Some (Debug_Continue, v, x)"
      "(vm', w', g', d') = (v, say s x)"
      by (rule continue_drive)
    moreover obtain w'' g'' d'' where "x = (w'', g'', d'')" by (metis prod_cases3)
    ultimately show ?thesis
      by (auto elim!: debug_drive_continue simp: say_def)
  qed
qed

text \<open>
  The first \<open>step\<close> or \<open>continue\<close> of a \<open>--trace\<close> session, if the sink stops it, stops at a machine of
  the replay, before its next instruction.
\<close>

lemma first_stop:
  assumes load: "load_program bs (VM_new debug_in debug_rand) = (True, vm0)"
    and session: "debug_session (Some reader) trace vm0 w0 g0 = (vm, w0, g0, d)"
    and cmd: "debug_command tok (vm, w, g, d\<lparr>d_breakpoints := B\<rparr>) = Some (Debug_Continue, vm', w', g', d')"
    and tok: "tok ! 0 = ''step'' \<or> tok ! 0 = ''continue'' \<or> tok ! 0 = ''c''"
    and r: "halted (vm_state vm') = HALT_STEP \<or> halted (vm_state vm') = HALT_BREAKPOINT"
  shows "\<exists>n v x. steps goto_step n (replay_start reader bs, wb, 0) = Some (v, x, d_cursor d')
    \<and> vm_mem vm' = vm_mem v \<and> cycle_count (vm_state vm') = cycle_count (vm_state v) + 1
    \<and> debug_checkpoint (vm_state vm') d' =
        (checkpoint_before (d_cursor d') (vm_state v))\<lparr>ck_halted := halted (vm_state vm')\<rparr>"
proof -
  have rel: "follows reader (resumed t (vm, w, g, d\<lparr>d_breakpoints := B\<rparr>)) (replay_start reader bs, wb, 0)" for t
    by (rule session_follows [OF load session])
  have "halted (vm_state vm) = HALT_RUNNING"
    using session load
    by (auto simp: debug_session_def install_debug_sink_def set_snapshot_sink_def set_snapshot_interval_def
        set_io_hooks_def take_snapshot_def Let_def load_program_def VM_new_def reset_state_def VMState_init_def
        split: if_splits)
  from command_ran [OF cmd tok this] r obtain t q w''
    where run: "run_goto (resumed t (vm, w, g, d\<lparr>d_breakpoints := B\<rparr>)) = Some (Returned q, vm', w'', g', d')"
    by (auto simp: const_defs)
  have "debug_core (resumed t (vm, w, g, d\<lparr>d_breakpoints := B\<rparr>))" using rel [of t] by (simp add: follows_def)
  from debug_run_halted [OF run this] have q: "halted (vm_state vm') = q" by simp
  from follows_run [OF run _ _ rel, of q] r obtain n e
    where "steps goto_step n (replay_start reader bs, wb, 0) = Some e" "stopped_before q (vm', w'', g', d') e"
    unfolding q by auto
  then show ?thesis
    by (cases e) (auto simp: stopped_before_def the_debug_def q)
qed

lemma debug_save_file:
  assumes "debug_command [''save'', st] (vm, w, g, d) = Some (Debug_Continue, vm', w', g', d')"
    "c_str st = st" "fault w st = None"
  shows "files w' st = Some (state_bytes (debug_checkpoint (vm_state vm) d))"
  using assms
  by (auto simp: debug_command_def debug_save_def checkpoint_save_def say_def Let_def)

lemma debug_save_continues:
  "\<exists>v w' g' d'. debug_command [''save'', st] (vm, w, g, d) = Some (Debug_Continue, v, w', g', d')"
proof -
  obtain ok w1 where "checkpoint_save (c_str st) (debug_checkpoint (vm_state vm) d) w = (ok, w1)" by fastforce
  then show ?thesis
    by (cases ok) (simp_all add: debug_command_def debug_save_def say_def complain_def Let_def)
qed

lemma loaded_as_replay:
  "load_program bs (VM_new debug_in debug_rand) = (True, vm) \<Longrightarrow> vm_mem vm = vm_mem (replay_start reader bs)"
  "load_program bs (VM_new debug_in debug_rand) = (True, vm) \<Longrightarrow> length bs \<le> MEM_SIZE"
  by (auto simp: load_program_def replay_start_def replay_vm_def set_io_hooks_def VM_new_def
      reset_state_def split: if_splits)

text \<open>
  C12: when the debugger's \<open>save\<close> can be restored. Take a \<open>--trace\<close> session with any breakpoints whose
  first \<open>step\<close> or \<open>continue\<close> is stopped at the step target or a breakpoint before anything has been
  stored, with a frame left in the trace, and a trace of which the full replay is VERIFIED. If the
  instruction it stopped at runs in the cycle of that frame, \<open>restore\<close> from the file that \<open>save\<close> then
  writes ends with the exit code and the state dump of the full replay. At every other stop,
  \<open>restore\<close> from the file diverges with exit code 3: the \<open>.state\<close> file has no cycle count, and
  \<open>restore\<close> takes that of the next frame.
\<close>

theorem debug_save_restore:
  assumes bs: "files w0 bin = Some bs" "TraceReader_open trace w0 = Inr reader"
    and load: "load_program bs (VM_new debug_in debug_rand) = (True, vm0)"
    and session: "debug_session (Some reader) trace vm0 w0 g0 = (vm, w0, g0, d)"
    and go: "debug_command tok (vm, w, g, d\<lparr>d_breakpoints := B\<rparr>) = Some (Debug_Continue, vm', w', g', d')"
      "tok ! 0 = ''step'' \<or> tok ! 0 = ''continue'' \<or> tok ! 0 = ''c''"
      "halted (vm_state vm') = HALT_STEP \<or> halted (vm_state vm') = HALT_BREAKPOINT"
    and save: "debug_command [''save'', st] (vm', w', g', d') = Some (Debug_Continue, vm2, w2, g2, d2)"
      "c_str st = st" "fault w' st = None"
    and replay: "cmd_replay bin trace w0 = Some (Exit code, wr)" "code \<noteq> 1" "code \<noteq> 3"
    and nxt: "frame_at reader (d_cursor d') = Some f" "f_cycle f \<noteq> 0" "d_cursor d' < 2 ^ 32"
    and intact: "vm_mem vm' = vm_mem vm0"
    and w3: "files w3 bin = files w0 bin" "files w3 trace = files w0 trace"
      "fault w3 trace = fault w0 trace" "files w3 st = files w2 st"
  shows "if f_cycle f = cycle_count (vm_state vm')
    then \<exists>w4 out out' s r. cmd_restore garbage bin trace st w3 = Some (Exit code, w4)
      \<and> stdout wr = out @ dump_state s r \<and> stdout w4 = out' @ dump_state s r \<and> stderr w4 = stderr w3
    else \<exists>w4. cmd_restore garbage bin trace st w3 = Some (Exit 3, w4)"
  using replay
proof (rule replay_cmdE)
  fix bs' reader' wb r v' x' cur
  assume "files w0 bin = Some bs'" "TraceReader_open trace w0 = Inr reader'"
    and run': "run_goto (replay_start reader' bs', wb, 0) = Some (Returned r, v', x', cur)"
    and cur': "rd_frame_count reader' \<le> cur" and code: "code = exit_code r"
    and out: "stdout wr = stdout x' @ ''replay VERIFIED'' @ nl @ dump_state (vm_state v') r"
  then have run: "run_goto (replay_start reader bs, wb, 0) = Some (Returned r, v', x', cur)"
    and cur: "rd_frame_count reader \<le> cur"
    using bs by simp_all
  from first_stop [OF load session go, of wb] obtain n v x
    where steps: "steps goto_step n (replay_start reader bs, wb, 0) = Some (v, x, d_cursor d')"
      and mem: "vm_mem vm' = vm_mem v" and cyc: "cycle_count (vm_state vm') = cycle_count (vm_state v) + 1"
      and ck: "debug_checkpoint (vm_state vm') d' =
        (checkpoint_before (d_cursor d') (vm_state v))\<lparr>ck_halted := halted (vm_state vm')\<rparr>"
    by blast
  have st: "files w3 st = Some (state_bytes ((checkpoint_before (d_cursor d') (vm_state v))\<lparr>ck_halted := halted (vm_state vm')\<rparr>))"
    using debug_save_file [OF save] w3(4) by (simp add: ck)
  have bs3: "files w3 bin = Some bs" using w3(1) bs(1) by simp
  have rd3: "TraceReader_open trace w3 = Inr reader" using bs(2) TraceReader_open_cong [OF w3(2,3)] by simp
  have mem0: "vm_mem v = vm_mem (replay_start reader bs)"
    using mem intact loaded_as_replay(1) [OF load] by simp
  note len = loaded_as_replay(2) [OF load]
  have k: "d_cursor d' < cur"
    using nxt(1) cur by (auto simp: frame_at_def split: if_splits)
  show ?thesis
  proof (cases "f_cycle f = cycle_count (vm_state vm')")
    case True
    then have "cycle_count (vm_state v) + 1 = f_cycle f" using cyc by simp
    from restored_run [OF bs3 len rd3 st nxt(3) steps nxt(1) this nxt(2) mem0 run cur, of garbage]
    obtain y where "cmd_restore garbage bin trace st w3 = Some (Exit code, print_out (dump_state (vm_state v') r) y)"
      "stderr y = stderr w3"
      unfolding code by blast
    then show ?thesis
      using out unfolding if_P [OF True]
      by (intro exI [of _ "print_out (dump_state (vm_state v') r) y"]
          exI [of _ "stdout x' @ ''replay VERIFIED'' @ nl"] exI [of _ "stdout y"]
          exI [of _ "vm_state v'"] exI [of _ r]) simp
  next
    case False
    then have "cycle_count (vm_state v) + 1 \<noteq> f_cycle f" using cyc by simp
    from restored_diverges [OF bs3 len rd3 st nxt(3) steps nxt(1) this nxt(2) mem0 run k, of garbage] False
    show ?thesis by simp
  qed
qed

text \<open>
  \<open>step 1\<close>, then \<open>save\<close>: before the \<open>IN\<close> of \<open>IN R0; HALT\<close>, and before the \<open>LI\<close> of a program that
  reads its input in cycle 3.
\<close>

lemma replay_store_sample:
  "\<exists>wr. cmd_replay ''p'' ''t'' (traced_world store_bin [frame 3 OP_IN 42]) = Some (Exit 0, wr)"
proof -
  let ?rd = "reader_of [frame 3 OP_IN 42]"
  obtain v where v: "replay_vm ?rd store_bin = (True, v)" "vm_mode v = ComputedGoto"
    by (simp add: replay_vm_def load_eval store_bin_def)
  obtain v' x where "run_goto (v, print_out (replay_banner ''p'' ''t'' (length store_bin) ?rd)
      (traced_world store_bin [frame 3 OP_IN 42]), 0) = Some (Returned HALT_NORMAL, v', x, 1)"
    using replay_store v by force
  then show ?thesis
    using v by (simp add: cmd_replay_def read_traced open_traced reader_of_count vm_run_def exit_code_def Let_def)
qed

lemma step_one_save:
  assumes load: "load_program bs (VM_new debug_in debug_rand) = (True, vm0)"
    and session: "debug_session (Some reader) ''t'' vm0 (traced_world bs T) g0 = (vm, w0, g0, d)"
  shows "d\<lparr>d_breakpoints := {}\<rparr> = d \<and> d_cursor d = 0 \<and> (\<exists>w' d'. debug_command [''step''] (vm, w0, g0, d) =
      Some (Debug_Continue, vm\<lparr>vm_state := (vm_state vm)\<lparr>pc := pc (vm_state vm) + 4,
        cycle_count := cycle_count (vm_state vm) + 1, halted := HALT_STEP\<rparr>\<rparr>, w', g0, d')
    \<and> fault w' ''s'' = None \<and> d_cursor d' = 0) \<and> vm_mem vm = vm_mem vm0 \<and> cycle_count (vm_state vm) = 0"
proof -
  have "debug_ready (debug_session (Some reader) ''t'' vm0 (traced_world bs T) g0)"
    using load by (intro session_start_ready [where bs = bs]) simp
  then have ready: "debug_ready (vm, w0, g0, d)" by (simp add: session)
  have w0: "w0 = traced_world bs T" and d: "d_cursor d = 0" "d\<lparr>d_breakpoints := {}\<rparr> = d"
    and vm: "vm_mem vm = vm_mem vm0" "cycle_count (vm_state vm) = 0" "halted (vm_state vm) = HALT_RUNNING"
    using session load
    by (auto simp: debug_session_def install_debug_sink_def set_snapshot_sink_def set_snapshot_interval_def
        set_io_hooks_def take_snapshot_def CmdDebug_init_def Let_def
        load_program_def VM_new_def reset_state_def VMState_init_def split: if_splits)
  have "resumable (halted (vm_state vm))" "cycle_count (vm_state vm) + 1 \<noteq> UINT64_MAX"
    by (simp_all add: vm resumable_def UINT64_MAX_def)
  from step_one_stops [OF ready this] d vm show ?thesis
    by (auto simp: w0 traced_world_def no_files_def)
qed

text \<open>The session \<open>step\<close>, \<open>save s\<close>, and a \<open>restore\<close> of \<open>s\<close> that ends with the exit code \<open>e\<close>.\<close>

definition step_save_restore :: "bytes \<Rightarrow> TraceFrame list \<Rightarrow> int \<Rightarrow> bool" where
  "step_save_restore bs T e \<longleftrightarrow> (\<exists>c v w g d w4.
     debug_command [''step''] (debug_session (Some (reader_of T)) ''t''
       (snd (load_program bs (VM_new debug_in debug_rand))) (traced_world bs T) (mt_init 0)) = Some (Debug_Continue, c)
     \<and> debug_command [''save'', ''s''] c = Some (Debug_Continue, v, w, g, d)
     \<and> cmd_restore 0 ''p'' ''t'' ''s'' (write_file ''s'' (the (files w ''s'')) (traced_world bs T)) = Some (Exit e, w4))"

theorem debug_save_restore_witness:
  "step_save_restore in_bin [frame 1 OP_IN 42] 0 \<and> step_save_restore store_bin [frame 3 OP_IN 42] 3"
proof -
  have *: "step_save_restore bs [f] (if f_cycle f = 1 then 0 else 3)"
    if replay: "cmd_replay ''p'' ''t'' (traced_world bs [f]) = Some (Exit 0, wr)"
      and loads: "fst (load_program bs (VM_new debug_in debug_rand))" and cycle: "f_cycle f \<noteq> 0" for bs f wr
  proof -
    let ?w0 = "traced_world bs [f]" and ?g = "mt_init 0"
    obtain vm0 where load: "load_program bs (VM_new debug_in debug_rand) = (True, vm0)"
      using loads by (cases "load_program bs (VM_new debug_in debug_rand)") simp
    obtain vm d where s: "debug_session (Some (reader_of [f])) ''t'' vm0 ?w0 ?g = (vm, ?w0, ?g, d)"
      by (simp add: debug_session_def Let_def split_def)
    note one = step_one_save [OF load s]
    let ?vm = "vm\<lparr>vm_state := (vm_state vm)\<lparr>pc := pc (vm_state vm) + 4,
        cycle_count := cycle_count (vm_state vm) + 1, halted := HALT_STEP\<rparr>\<rparr>"
    obtain w' d' where go: "debug_command [''step''] (vm, ?w0, ?g, d\<lparr>d_breakpoints := {}\<rparr>) = Some (Debug_Continue, ?vm, w', ?g, d')"
      and w': "fault w' ''s'' = None" "d_cursor d' = 0"
      using one by auto
    obtain v w g e where save: "debug_command [''save'', ''s''] (?vm, w', ?g, d') = Some (Debug_Continue, v, w, g, e)"
      using debug_save_continues by blast
    have saved: "files w ''s'' = Some (state_bytes (debug_checkpoint (vm_state ?vm) d'))"
      using debug_save_file [OF save _ w'(1)] by (simp add: c_str_def)
    let ?w3 = "write_file ''s'' (the (files w ''s'')) ?w0"
    have nxt: "frame_at (reader_of [f]) (d_cursor d') = Some f" by (simp add: w' frame_at_reader_of)
    have "if f_cycle f = cycle_count (vm_state ?vm)
      then \<exists>w4 out out' s r. cmd_restore 0 ''p'' ''t'' ''s'' ?w3 = Some (Exit 0, w4)
        \<and> stdout wr = out @ dump_state s r \<and> stdout w4 = out' @ dump_state s r \<and> stderr w4 = stderr ?w3
      else \<exists>w4. cmd_restore 0 ''p'' ''t'' ''s'' ?w3 = Some (Exit 3, w4)"
      by (rule debug_save_restore [OF _ open_traced load s go _ _ save _ w'(1) replay _ _ nxt cycle])
        (use one w'(2) saved in \<open>simp_all add: c_str_def\<close>)
    then have "\<exists>w4. cmd_restore 0 ''p'' ''t'' ''s'' ?w3 = Some (Exit (if f_cycle f = 1 then 0 else 3), w4)"
      using one by (auto split: if_splits)
    then show ?thesis using go save s load one by (fastforce simp: step_save_restore_def)
  qed
  obtain wr wr' where "cmd_replay ''p'' ''t'' (traced_world in_bin [frame 1 OP_IN 42]) = Some (Exit 0, wr)"
    "cmd_replay ''p'' ''t'' (traced_world store_bin [frame 3 OP_IN 42]) = Some (Exit 0, wr')"
    using replay_sample replay_store_sample by blast
  from * [OF this(1)] * [OF this(2)] show ?thesis
    by (simp add: load_program_def in_bin_def store_bin_def MEM_SIZE_def frame_def)
qed

end
