(* ===== verification/Snapshots.thy ===== *)
theory Snapshots
  imports Commands
begin

text \<open>
  The command \<open>snapshot\<close> of \<open>src/main.cpp\<close> and the file format of \<open>include/retrovm/vm.hpp\<close> that it
  writes: a run that puts every periodic snapshot into a file of its own. The run is the one
  \<open>run\<close> makes, and the files' deltas lead back to the memory the program was loaded into.
\<close>

section \<open>The file format\<close>

record SnapshotFileHeader =
  sh_magic :: bytes
  sh_version :: u32
  sh_flags :: u32
  sh_cycle_count :: u64
  sh_halted :: u32
  sh_num_deltas :: u32

record SnapshotFileRegs =
  sr_regs :: "u32 list"
  sr_pc :: u32
  sr_sp :: u32

definition snap_header_bytes :: "SnapshotFileHeader \<Rightarrow> bytes" where
  "snap_header_bytes h = sh_magic h @ le_bytes 4 (sh_version h) @ le_bytes 4 (sh_flags h)
     @ le_bytes 8 (sh_cycle_count h) @ le_bytes 4 (sh_halted h) @ le_bytes 4 (sh_num_deltas h)"

definition snap_regs_bytes :: "SnapshotFileRegs \<Rightarrow> bytes" where
  "snap_regs_bytes r = concat (map (\<lambda>i. le_bytes 4 (sr_regs r ! i)) [0..<8])
     @ le_bytes 4 (sr_pc r) @ le_bytes 4 (sr_sp r)"

definition delta_bytes :: "MemDelta \<Rightarrow> bytes" where
  "delta_bytes d = [run_count d, page d] @ le_bytes 2 (offset d) @ le_bytes 4 (old_value d)"

definition delta_of_bytes :: "bytes \<Rightarrow> MemDelta" where
  "delta_of_bytes bs = \<lparr>run_count = bs ! 0, page = bs ! 1, offset = of_le_bytes (take 2 (drop 2 bs)),
     old_value = of_le_bytes (take 4 (drop 4 bs))\<rparr>"

definition snap_header :: "Snapshot \<Rightarrow> SnapshotFileHeader" where
  "snap_header s = \<lparr>sh_magic = str_bytes ''RVMSNAP'' @ [0], sh_version = 1, sh_flags = 0,
     sh_cycle_count = s_cycle_count s, sh_halted = s_halted s,
     sh_num_deltas = of_nat (length (s_deltas s))\<rparr>"

definition snap_regs :: "Snapshot \<Rightarrow> SnapshotFileRegs" where
  "snap_regs s = \<lparr>sr_regs = map (\<lambda>i. s_regs s ! i) [0..<8], sr_pc = s_pc s, sr_sp = s_sp s\<rparr>"

definition snapshot_bytes :: "Snapshot \<Rightarrow> bytes" where
  "snapshot_bytes s = snap_header_bytes (snap_header s) @ snap_regs_bytes (snap_regs s)
     @ concat (map delta_bytes (s_deltas s))"

section \<open>The sink\<close>

text \<open>
  What its closure and the default hooks capture: the console and the files, the generator, and the
  number of snapshots so far. The path is cut at the 511 characters its buffer holds.
\<close>

type_synonym snapper = "world \<times> mt19937 \<times> u32"

definition fmt_04u :: "u32 \<Rightarrow> string" where
  "fmt_04u v = pad_left 4 (CHR ''0'') (fmt_u32 v)"

definition snap_path :: "string \<Rightarrow> u32 \<Rightarrow> string" where
  "snap_path bin idx = take 511 (bin @ ''.snap.'' @ fmt_04u idx)"

text \<open>None of the results of \<open>fwrite\<close> and \<open>fclose\<close> is looked at.\<close>

definition unchecked_write :: "string \<Rightarrow> bytes \<Rightarrow> world \<Rightarrow> world" where
  "unchecked_write path data w = write_file path
     (case fault w path of Some (F_write n) \<Rightarrow> take n data | Some (F_close n) \<Rightarrow> take n data
        | _ \<Rightarrow> data) w"

definition snapshot_line :: "u32 \<Rightarrow> string \<Rightarrow> Snapshot \<Rightarrow> string" where
  "snapshot_line idx path s =
     ''  ['' @ fmt_04u idx @ ''] '' @ path @ ''  cycle='' @ pad_right 4 (CHR '' '') (fmt_u64 (s_cycle_count s)) @
     ''  deltas='' @ fmt_u (length (s_deltas s)) @
     ''  size='' @ fmt_u (32 + 40 + length (s_deltas s) * 8) @ '' B'' @ nl"

definition snapshot_sink :: "string \<Rightarrow> snapper SnapshotSink" where
  "snapshot_sink bin vs s x = (case x of (w, g, counter) \<Rightarrow>
     let idx = counter; path = snap_path bin idx; counter = counter + 1 in
     if fault w path = Some F_open_write
     then (None, print_err (''retrovm: cannot open '' @ sq @ path @ sq @ '' for writing'' @ nl) w, g, counter)
     else (None, print_out (snapshot_line idx path s) (unchecked_write path (snapshot_bytes s) w), g, counter))"

section \<open>The command\<close>

definition snapper_in :: "u64 \<Rightarrow> snapper \<Rightarrow> (TraceMismatch + u32) \<times> snapper" where
  "snapper_in cycle x = (case x of (w, g, n) \<Rightarrow> case scan_or_zero w of (v, w) \<Rightarrow> (Inr v, w, g, n))"

definition snapper_rand :: "u64 \<Rightarrow> snapper \<Rightarrow> (TraceMismatch + u32) \<times> snapper" where
  "snapper_rand cycle x = (case x of (w, g, n) \<Rightarrow> case mt_next g of (v, g) \<Rightarrow> (Inr v, w, g, n))"

definition snapshot_vm :: "string \<Rightarrow> u32 \<Rightarrow> bytes \<Rightarrow> bool \<times> snapper VM" where
  "snapshot_vm bin interval bs = (case load_program bs (VM_new snapper_in snapper_rand) of
     (ok, vm) \<Rightarrow> (ok, set_snapshot_sink (Some (snapshot_sink bin)) (set_snapshot_interval interval vm)))"

definition snapshots_text :: "u32 \<Rightarrow> string \<Rightarrow> string" where
  "snapshots_text counter bin =
     ''snapshots  : '' @ fmt_u32 counter @ '' written -> '' @ bin @ ''.snap.NNNN'' @ nl"

definition cmd_snapshot :: "u32 \<Rightarrow> string \<Rightarrow> u32 \<Rightarrow> world \<Rightarrow> (outcome \<times> world) option" where
  "cmd_snapshot entropy bin interval w = (case read_file bin w of
     Inl w \<Rightarrow> Some (Exit 1, w)
   | Inr bs \<Rightarrow>
      (case snapshot_vm bin interval bs of
         (False, _) \<Rightarrow> Some (Exit 1, print_err (''retrovm: '' @ too_large) w)
       | (True, vm) \<Rightarrow>
          let w = print_out (''retrovm: snapshot '' @ sq @ bin @ sq @ '' ('' @ fmt_u (length bs) @
                '' bytes) every '' @ fmt_u32 interval @ '' cycles'' @ nl) w
          in (case vm_run (vm, w, mt_init entropy, 0) of
                None \<Rightarrow> None
              | Some (Thrown e, _, w, _) \<Rightarrow> Some (Uncaught (mismatch_what e), w)
              | Some (Returned r, vm, w, _, counter) \<Rightarrow>
                  Some (Exit (exit_code r),
                    print_out (snapshots_text counter bin @ dump_state (vm_state vm) r) w))))"

section \<open>The format\<close>

interpretation delta_codec: fixed_codec delta_bytes delta_of_bytes 8
  by unfold_locales (simp_all add: delta_bytes_def delta_of_bytes_def)

lemma length_snapshot_bytes: "length (snapshot_bytes s) = 72 + 8 * length (s_deltas s)"
proof -
  have "length (concat (map (\<lambda>i. le_bytes 4 (f i :: u32)) xs)) = length xs * 4" for f and xs :: "nat list"
    by (induction xs) simp_all
  then show ?thesis
    by (simp add: snapshot_bytes_def snap_header_bytes_def snap_regs_bytes_def snap_header_def)
qed

text \<open>Snapshots of different indices go to different files, as long as the path is not cut.\<close>

lemma digits_val_zeros: "digits_val 10 (replicate k (CHR ''0'') @ s) = digits_val 10 s"
proof -
  have "digit_num (CHR ''0'') = 0" by (simp add: digit_num_def digit_val_def)
  then show ?thesis by (induction k) (simp_all add: digits_val_def)
qed

lemma digits_val_fmt_04u: "digits_val 10 (fmt_04u v) = unat v"
  by (simp add: fmt_04u_def pad_left_def digits_val_zeros fmt_u32_def fmt_u_def digits_val_fmt_base)

lemma length_fmt_base: "2 \<le> base \<Longrightarrow> n < base ^ Suc k \<Longrightarrow> length (fmt_base base n) \<le> Suc k"
proof (induction k arbitrary: n)
  case 0
  then show ?case by (subst fmt_base.simps) simp
next
  case (Suc k)
  show ?case
  proof (cases "n < base")
    case False
    have "n div base < base ^ Suc k"
      using Suc.prems by (intro less_mult_imp_div_less) (simp add: mult.commute)
    from Suc.IH [OF Suc.prems(1) this] False Suc.prems(1) show ?thesis
      by (subst fmt_base.simps) simp
  qed (use Suc.prems in \<open>subst fmt_base.simps; simp\<close>)
qed

lemma length_fmt_04u: "length (fmt_04u v) \<le> 10"
proof -
  have "unat v < 10 ^ Suc 9"
    using unsigned_less [of v, where ?'a = nat] by simp
  then have "length (fmt_base 10 (unat v)) \<le> Suc 9" by (intro length_fmt_base) simp_all
  then show ?thesis by (simp add: fmt_04u_def pad_left_def fmt_u32_def fmt_u_def)
qed

lemma snap_path_inject:
  assumes "length bin \<le> 495" "snap_path bin i = snap_path bin j"
  shows "i = j"
proof -
  have "snap_path bin k = bin @ ''.snap.'' @ fmt_04u k" for k
    using assms(1) length_fmt_04u [of k] by (simp add: snap_path_def)
  with assms(2) have "fmt_04u i = fmt_04u j" by simp
  then show ?thesis using digits_val_fmt_04u by (metis word_unat_eq_iff)
qed

end
