(* ===== verification/PassiveSink.thy ===== *)
theory PassiveSink
  imports Parametric
begin

text \<open>
  A snapshot sink that never asks for a halt does not disturb the program. \<open>R\<close> relates what the
  closures of a machine without a sink capture to what those of a machine with the sink capture;
  the sink may change the latter as long as \<open>R\<close> is kept.
\<close>

definition sampled_rel :: "'w SnapshotSink \<Rightarrow> ('v \<Rightarrow> 'w \<Rightarrow> bool) \<Rightarrow> 'v cfg \<Rightarrow> 'w cfg \<Rightarrow> bool" where
  "sampled_rel sink R c d \<longleftrightarrow> arch_cfg R c d \<and> quiet (fst c) \<and> vm_sink (fst d) = Some sink
     \<and> halted (vm_state (fst d)) = HALT_RUNNING \<and> io_rel R (vm_io (fst c)) (vm_io (fst d))"

locale passive_sink =
  fixes sink :: "'w SnapshotSink" and R :: "'v \<Rightarrow> 'w \<Rightarrow> bool"
  assumes never_halts: "R x y \<Longrightarrow> sink vs s y = (req, y') \<Longrightarrow> req = None \<and> R x y'"
begin

lemma passive_tick:
  assumes "vm_sink v = Some sink" "halted (vm_state v) = HALT_RUNNING" "R x y"
    and tick: "snap_tick (advance v, y) = (b, v', y')"
  shows "\<not> b" "R x y'" "halted (vm_state v') = HALT_RUNNING"
proof -
  show "\<not> b" and "R x y'"
  proof (atomize (full), cases "snap_interval (vm_state v) \<noteq> 0 \<and> snap_timer (vm_state v) = 1")
    case True
    then have fire: "vm_sink (advance v) = Some sink" "snap_interval (vm_state (advance v)) \<noteq> 0"
      "snap_timer (vm_state (advance v)) = 1"
      using assms(1) by simp_all
    obtain req z where "sink ((vm_state (advance v))\<lparr>snap_timer := 0\<rparr>)
        (snapshot_of (vm_state (advance v)) (vm_deltas (advance v))) y = (req, z)" by fastforce
    with never_halts [OF assms(3) this] snap_tick_fire [OF fire, of y] tick assms(2)
    show "\<not> b \<and> R x y'" by simp
  next
    case False
    then show "\<not> b \<and> R x y'"
      using tick snap_tick_wait [of "advance v" y] assms(3)
      by (cases "snap_interval (vm_state v) = 0") simp_all
  qed
  then show "halted (vm_state v') = HALT_RUNNING"
    using snap_tick_running [of "advance v" y v' y'] tick assms(2) by simp
qed

lemma sampled_step:
  assumes rel: "sampled_rel sink R c d"
  shows "rel_sum (sampled_rel sink R) (rel_prod (=) (arch_cfg R)) (goto_step c) (goto_step d)"
proof -
  obtain u x v y where c: "c = (u, x)" and d: "d = (v, y)" by (cases c; cases d)
  from rel have arch: "same_arch u v" and R: "R x y" and q: "quiet u"
    and v: "vm_sink v = Some sink" "halted (vm_state v) = HALT_RUNNING"
    and io: "io_rel R (vm_io u) (vm_io v)"
    by (simp_all add: c d sampled_rel_def arch_cfg_def)
  obtain a u' x' where tu: "snap_tick (advance u, x) = (a, u', x')" by (metis prod_cases3)
  obtain b v' y' where tv: "snap_tick (advance v, y) = (b, v', y')" by (metis prod_cases3)
  note qu = quiet_tick [OF q tu] and pv = passive_tick [OF v R tv]
  have "same_arch u' v'"
    using qu(5) snap_tick_arch [OF tv] same_arch_advance [OF arch]
    by (blast intro: same_arch_trans same_arch_sym)
  from jump_param [OF this, of R x y' "fetch u"] pv(2)
  have j: "rel_sum (arch_cfg R) (rel_prod (=) (arch_cfg R)) (jump_to (fetch u) (u', x)) (jump_to (fetch u) (v', y'))"
    using io snap_tick_frame(2) [OF tv] by (simp add: qu)
  have f: "fetch v = fetch u" using same_arch_fetch [OF arch] by simp
  have gc: "goto_step c = jump_to (fetch u) (u', x)" by (simp add: c goto_step_eq tu qu(1,2))
  have gd: "goto_step d = jump_to (fetch u) (v', y')" by (simp add: d goto_step_eq tv pv(1) f)
  from j show ?thesis
  proof cases
    case (1 c' d')
    have "quiet (fst c')" "vm_io (fst c') = vm_io u"
      using quiet_step [OF q, of x c'] 1(1) gc c by simp_all
    moreover have "vm_sink (fst d') = Some sink" "vm_io (fst d') = vm_io v"
      "halted (vm_state (fst d')) = HALT_RUNNING"
      using goto_step_fixed [of "(v, y)" d'] goto_step_running [of "(v, y)" d'] 1(2) gd d v
      by (simp_all add: same_fixed_def)
    ultimately show ?thesis using 1 io by (simp add: sampled_rel_def gc gd)
  next
    case (2 r s)
    then show ?thesis by (simp add: gc gd)
  qed
qed

sublocale sampled: lockstep goto_step goto_step "sampled_rel sink R" "rel_prod (=) (arch_cfg R)"
  by unfold_locales (rule sampled_step)

end

end
