(* ===== verification/SnapshotRun.thy ===== *)
theory SnapshotRun
  imports Snapshots RecordReplay PassiveSink
begin

text \<open>
  What the command \<open>snapshot\<close> does to a run: nothing. And what its files hold: every
  \<open>interval\<close>-th fetch, with deltas that lead back to the start of the run.
\<close>

section \<open>The machine of the command\<close>

definition sampling :: "string \<Rightarrow> u32 \<Rightarrow> snapper VM \<Rightarrow> bool" where
  "sampling bin interval u \<longleftrightarrow> vm_sink u = Some (snapshot_sink bin) \<and> halted (vm_state u) = HALT_RUNNING
     \<and> vm_io u = \<lparr>on_nondeterministic = None, io_in = Some snapper_in, io_rand = Some snapper_rand\<rparr>
     \<and> snap_interval (vm_state u) = interval"

lemma snapshot_vm_fresh:
  assumes "snapshot_vm bin interval bs = (ok, u)"
  shows "sampling bin interval u" "vm_mode u = ComputedGoto" "ok \<longleftrightarrow> length bs \<le> MEM_SIZE"
    "snap_timer (vm_state u) = interval" "vm_deltas u = []" "cycle_count (vm_state u) = 0"
  using assms
  by (auto simp: snapshot_vm_def load_program_def set_snapshot_sink_def set_snapshot_interval_def
      VM_new_def reset_state_def sampling_def VMState_init_def split: if_splits)

text \<open>One tick: the timer counts down, or the sink is called and the log is drained.\<close>

lemma sampling_tick:
  assumes u: "sampling bin n u" and n: "n \<noteq> 0" and tick: "snap_tick (advance u, x) = (b, u', x')"
  shows "\<not> b" "sampling bin n u'" "same_arch u' (advance u)"
    and "if snap_timer (vm_state u) = 1
      then (\<exists>vs. snapshot_sink bin vs (snapshot_of (vm_state (advance u)) (vm_deltas u)) x = (None, x'))
        \<and> snap_timer (vm_state u') = n \<and> vm_deltas u' = []
      else x' = x \<and> snap_timer (vm_state u') = snap_timer (vm_state u) - 1 \<and> vm_deltas u' = vm_deltas u" (is ?T)
proof -
  have k: "vm_sink (advance u) = Some (snapshot_sink bin)" "snap_interval (vm_state (advance u)) \<noteq> 0"
    "halted (vm_state (advance u)) = HALT_RUNNING"
    using u n by (simp_all add: sampling_def)
  have sink: "fst (snapshot_sink bin vs s x) = None" for vs s
    by (auto simp: snapshot_sink_def Let_def split: prod.splits)
  show "\<not> b" and ?T
  proof (atomize (full), cases "snap_timer (vm_state u) = 1")
    case True
    then have "snap_timer (vm_state (advance u)) = 1" by simp
    note f = snap_tick_fire [OF k(1,2) this, of x, unfolded tick]
    obtain y where "snapshot_sink bin ((vm_state (advance u))\<lparr>snap_timer := 0\<rparr>)
        (snapshot_of (vm_state (advance u)) (vm_deltas (advance u))) x = (None, y)"
      using sink by (metis prod.collapse)
    with f k(3) u True show "\<not> b \<and> ?T"
      by (auto simp: sampling_def)
  next
    case False
    then show "\<not> b \<and> ?T"
      using snap_tick_wait [OF k(2), of x] tick by (auto simp: upd_state_def)
  qed
  then show "sampling bin n u'" "same_arch u' (advance u)"
    using u tick snap_tick_frame(2,3,11) [OF tick] snap_tick_running [of "advance u" x u' x']
      snap_tick_arch [OF tick]
    by (auto simp: sampling_def)
qed

lemma sampling_handler:
  assumes "exec_label l ops (u, x) = Inl (u', x')" "sampling bin n u"
  shows "sampling bin n u'"
  using exec_label_frame [OF assms(1)] assms(2) by (simp add: sampling_def)

section \<open>Snapshots do not disturb the run\<close>

text \<open>The states the closures of \<open>run\<close> and of \<open>snapshot\<close> capture: the same input and generator.\<close>

definition same_input :: "host \<Rightarrow> snapper \<Rightarrow> bool" where
  "same_input h x \<longleftrightarrow> (case (h, x) of ((w, g), (w', g', n)) \<Rightarrow> stdin w = stdin w' \<and> g = g')"

lemma snapshot_sink_input:
  "snapshot_sink bin vs s x = (r, x') \<Longrightarrow> same_input h x' = same_input h x"
  by (auto simp: snapshot_sink_def same_input_def unchecked_write_def Let_def split: prod.splits if_splits)

lemma hooks_rel:
  "hook_rel same_input host_in snapper_in" "hook_rel same_input host_rand snapper_rand"
  by (auto simp: hook_rel_def same_input_def host_in_def snapper_in_def host_rand_def snapper_rand_def
      scan_or_zero_def split: prod.splits option.splits)

interpretation snapshots: passive_sink "snapshot_sink bin" same_input for bin
proof unfold_locales
  fix x y vs s req y' assume R: "same_input x y" and sink: "snapshot_sink bin vs s y = (req, y')"
  have "req = None" using sink by (auto simp: snapshot_sink_def Let_def split: prod.splits if_splits)
  with snapshot_sink_input [OF sink] R show "req = None \<and> same_input x y'" by blast
qed

lemma run_vm_fresh:
  assumes "load_program bs (VM_new host_in host_rand) = (ok, u)"
  shows "quiet u" "vm_mode u = ComputedGoto" "ok \<longleftrightarrow> length bs \<le> MEM_SIZE"
    "vm_io u = \<lparr>on_nondeterministic = None, io_in = Some host_in, io_rand = Some host_rand\<rparr>"
  using assms
  by (auto simp: load_program_def VM_new_def reset_state_def quiet_def VMState_init_def split: if_splits)

lemma same_start:
  assumes "load_program bs (VM_new host_in host_rand) = (ok, u)" "snapshot_vm bin n bs = (ok', v)"
  shows "same_arch u v"
  using assms
  by (auto simp: snapshot_vm_def load_program_def set_snapshot_sink_def set_snapshot_interval_def
      VM_new_def reset_state_def same_arch_def VMState_init_def split: if_splits)

lemma same_dump:
  "\<exists>st r out1 out2. exit_code a = exit_code r \<and> x @ dump_state s a = out1 @ dump_state st r
     \<and> y @ z @ dump_state s a = out2 @ dump_state st r"
  by (intro exI [of _ s] exI [of _ a] exI [of _ x] exI [of _ "y @ z"]) simp

text \<open>
  C14: taking snapshots does not disturb the program. For every binary, input, seed delivered by
  \<open>std::random_device\<close> and interval, 0 included, \<open>snapshot\<close> runs forever exactly
  when \<open>run\<close> does, and otherwise ends with the same exit code; unless the code is 1 both end by
  printing the dump of the same final state with the same halt reason. None of this depends on
  whether the snapshot files can be written.
\<close>

theorem snapshot_transparent:
  "rel_option (\<lambda>(o1, w1) (o2, w2). o1 = o2 \<and> (\<forall>code. o1 = Exit code \<and> code \<noteq> 1 \<longrightarrow>
      (\<exists>st r out1 out2. code = exit_code r \<and> stdout w1 = out1 @ dump_state st r
         \<and> stdout w2 = out2 @ dump_state st r)))
    (cmd_run entropy bin w) (cmd_snapshot entropy bin interval w)"
proof (cases "files w bin")
  case None
  then show ?thesis by (simp add: cmd_run_def cmd_snapshot_def read_file_def)
next
  case (Some bs)
  obtain ok u where u: "load_program bs (VM_new host_in host_rand) = (ok, u)" by fastforce
  obtain ok' v where v: "snapshot_vm bin interval bs = (ok', v)" by fastforce
  note fu = run_vm_fresh [OF u] and fv = snapshot_vm_fresh [OF v]
  have ok: "ok' = ok" using fu(3) fv(3) by simp
  show ?thesis
  proof (cases ok)
    case False
    then show ?thesis using Some u v ok by (simp add: cmd_run_def cmd_snapshot_def read_file_def)
  next
    case True
    let ?w1 = "print_out (''retrovm: running '' @ sq @ bin @ sq @ '' ('' @ fmt_u (length bs) @
      '' bytes)'' @ nl) w"
    let ?w2 = "print_out (''retrovm: snapshot '' @ sq @ bin @ sq @ '' ('' @ fmt_u (length bs) @
      '' bytes) every '' @ fmt_u32 interval @ '' cycles'' @ nl) w"
    have rel: "sampled_rel (snapshot_sink bin) same_input (u, ?w1, mt_init entropy) (v, ?w2, mt_init entropy, 0)"
      using fu(1,4) fv(1) same_start [OF u v] hooks_rel
      by (simp add: sampled_rel_def arch_cfg_def same_input_def sampling_def io_rel_def)
    from snapshots.sampled.lockstep_run [OF rel]
    show ?thesis
    proof cases
      case None
      then show ?thesis
        using Some u v True ok fu(2) fv(2)
        by (simp add: cmd_run_def cmd_snapshot_def read_file_def vm_run_def run_goto_def Let_def)
    next
      case (Some p q)
      obtain r u' x' where p: "p = (r, u', x')" by (cases p)
      obtain v' y' where q: "q = (r, v', y')" and arch: "same_arch u' v'" and R: "same_input x' y'"
        using Some(3) p by (cases q) (auto simp: arch_cfg_def)
      obtain wa ga where x': "x' = (wa, ga)" by (cases x')
      obtain wb gb nb where y': "y' = (wb, gb, nb)" by (cases y')
      have d: "dump_state (vm_state v') a = dump_state (vm_state u') a" for a
        using arch by (simp add: same_arch_def dump_state_def)
      note run = Some(1,2) \<open>files w bin = Some bs\<close> u v True ok fu(2) fv(2)
      show ?thesis
      proof (cases r)
        case (Returned a)
        have "cmd_run entropy bin w =
            Some (Exit (exit_code a), print_out (dump_state (vm_state u') a) wa)"
          using run by (simp add: cmd_run_def read_file_def vm_run_def run_goto_def Let_def p x' Returned)
        moreover have "cmd_snapshot entropy bin interval w =
            Some (Exit (exit_code a), print_out (snapshots_text nb bin @ dump_state (vm_state u') a) wb)"
          using run by (simp add: cmd_snapshot_def read_file_def vm_run_def run_goto_def Let_def q y' d
              Returned snapshots_text_def)
        ultimately show ?thesis
          using same_dump [of a "stdout wa" "vm_state u'" "stdout wb" "snapshots_text nb bin"] by simp
      next
        case (Thrown e)
        then show ?thesis
          using run by (simp add: cmd_run_def cmd_snapshot_def read_file_def vm_run_def run_goto_def
              Let_def p q x' y')
      qed
    qed
  qed
qed

lemma run_sample: "\<exists>w1. cmd_run 7 ''p'' (sample_world in_bin) = Some (Exit 0, w1)"
  apply (simp add: cmd_run_def record_eval load_eval sample_defs)
  apply (simp add: step_eval host_in_def record_eval sample_defs)
  done

theorem snapshot_transparent_witness:
  "\<exists>w1 w2. cmd_run 7 ''p'' (sample_world in_bin) = Some (Exit 0, w1)
     \<and> cmd_snapshot 7 ''p'' 1 (sample_world in_bin) = Some (Exit 0, w2)"
proof -
  obtain w1 where w1: "cmd_run 7 ''p'' (sample_world in_bin) = Some (Exit 0, w1)"
    using run_sample by blast
  from snapshot_transparent [of 7 "''p''" "sample_world in_bin" 1] w1 show ?thesis
    by (auto simp: option_rel_Some1)
qed

section \<open>What the files hold\<close>

text \<open>
  The invariant of the run: \<open>ss\<close> are the snapshots taken so far, \<open>j\<close> is the number of fetches and
  \<open>m0\<close> the memory at the start.
\<close>

definition shot :: "string \<Rightarrow> u32 \<Rightarrow> mem \<Rightarrow> nat \<Rightarrow> Snapshot list \<Rightarrow> VMState \<Rightarrow> MemDelta list \<Rightarrow> mem \<Rightarrow> snapper \<Rightarrow> bool" where
  "shot bin n m0 j ss st deltas m x \<longleftrightarrow> (case x of (w, g, counter) \<Rightarrow>
     counter = of_nat (length ss)
     \<and> cycle_count st = of_nat j \<and> j = length ss * unat n + (unat n - unat (snap_timer st))
     \<and> undo_deltas (concat (map s_deltas ss) @ deltas) m = m0
     \<and> (\<forall>i < length ss. s_cycle_count (ss ! i) = of_nat (Suc i * unat n))
     \<and> (length ss \<le> 2 ^ 32 \<longrightarrow>
          (\<forall>i < length ss. files w (snap_path bin (of_nat i)) = Some (snapshot_bytes (ss ! i))))
     \<and> fault w = (\<lambda>_. None) \<and> snap_timer st \<noteq> 0 \<and> snap_timer st \<le> n)"

lemma undo_deltas_append: "undo_deltas (a @ b) m = undo_deltas a (undo_deltas b m)"
  by (simp add: undo_deltas_def)

lemma snapshot_sink_ok:
  assumes "snapshot_sink bin vs s (w, g, counter) = (r, x')" "fault w = (\<lambda>_. None)"
  shows "\<exists>w'. x' = (w', g, counter + 1) \<and> files w' = (files w)(snap_path bin counter := Some (snapshot_bytes s))
    \<and> fault w' = (\<lambda>_. None)"
  using assms by (auto simp: snapshot_sink_def unchecked_write_def Let_def)

lemma shot_tick:
  assumes bin: "length bin \<le> 495" and n: "n \<noteq> 0" and u: "sampling bin n u"
    and inv: "shot bin n m0 j ss (vm_state u) (vm_deltas u) (vm_mem u) x"
    and tick: "snap_tick (advance u, x) = (b, u', x')"
  shows "\<exists>ss'. shot bin n m0 (Suc j) ss' (vm_state u') (vm_deltas u') (vm_mem u') x'"
proof -
  obtain w g counter where x: "x = (w, g, counter)" by (cases x)
  from inv have counter: "counter = of_nat (length ss)" and f: "fault w = (\<lambda>_. None)"
    and cyc: "cycle_count (vm_state u) = of_nat j"
      "j = length ss * unat n + (unat n - unat (snap_timer (vm_state u)))"
    and undo: "undo_deltas (concat (map s_deltas ss) @ vm_deltas u) (vm_mem u) = m0"
    and cycs: "\<forall>i < length ss. s_cycle_count (ss ! i) = of_nat (Suc i * unat n)"
    and files: "length ss \<le> 2 ^ 32 \<longrightarrow>
      (\<forall>i < length ss. files w (snap_path bin (of_nat i)) = Some (snapshot_bytes (ss ! i)))"
    and t: "snap_timer (vm_state u) \<noteq> 0" "snap_timer (vm_state u) \<le> n"
    by (simp_all add: shot_def x)
  note k = sampling_tick(4) [OF u n tick] and fr = snap_tick_frame [OF tick]
  have t': "0 < unat (snap_timer (vm_state u))" "unat (snap_timer (vm_state u)) \<le> unat n"
    using t by (simp_all add: word_le_nat_alt word_neq_0_conv unat_gt_0)
  show ?thesis
  proof (cases "snap_timer (vm_state u) = 1")
    case False
    then have t2: "unat (snap_timer (vm_state u) - 1) = unat (snap_timer (vm_state u)) - 1"
      "snap_timer (vm_state u) - 1 \<noteq> 0"
      using t(1) by (simp_all add: unat_minus_one)
    have "unat n - (unat (snap_timer (vm_state u)) - 1) = Suc (unat n - unat (snap_timer (vm_state u)))"
      using t' by simp
    then have "shot bin n m0 (Suc j) ss (vm_state u') (vm_deltas u') (vm_mem u') x'"
      using False k fr inv t2 t' by (simp add: shot_def x word_le_nat_alt)
    then show ?thesis ..
  next
    case True
    let ?s = "snapshot_of (vm_state (advance u)) (vm_deltas u)"
    from True k obtain vs where "snapshot_sink bin vs ?s x = (None, x')"
      and t2: "snap_timer (vm_state u') = n" "vm_deltas u' = []" by auto
    with snapshot_sink_ok [of bin vs ?s w g counter None x'] f x
    obtain w' where x': "x' = (w', g, counter + 1)" "fault w' = (\<lambda>_. None)"
      and fw: "files w' = (files w)(snap_path bin counter := Some (snapshot_bytes ?s))"
      by auto
    have j: "Suc j = Suc (length ss) * unat n" using cyc(2) t' True by simp
    have c1: "cycle_count (vm_state u) + 1 = of_nat (Suc j)" using cyc(1) by simp
    then have c: "cycle_count (vm_state u) + 1 = of_nat (Suc (length ss) * unat n)"
      by (simp only: j)
    have "of_nat i \<noteq> (of_nat (length ss) :: u32)" if "i < length ss" "Suc (length ss) \<le> 2 ^ 32" for i
      using that by (auto simp: word_of_nat_eq_iff take_bit_nat_eq_self)
    then have "files w' (snap_path bin (of_nat i)) = Some (snapshot_bytes ((ss @ [?s]) ! i))"
      if "i < Suc (length ss)" "Suc (length ss) \<le> 2 ^ 32" for i
      using that files counter fw snap_path_inject [OF bin, of "of_nat i" "of_nat (length ss)"]
      by (auto simp: nth_append less_Suc_eq)
    then have "shot bin n m0 (Suc j) (ss @ [?s]) (vm_state u') (vm_deltas u') (vm_mem u') x'"
      using t2 x' fr c c1 j cycs undo counter n
      by (simp add: shot_def nth_append less_Suc_eq snapshot_of_def)
    then show ?thesis ..
  qed
qed

text \<open>The handlers touch neither the files nor the counter.\<close>

lemma snapper_handler:
  assumes "exec_label l ops (u, w, g, k) = Inl (u', x')" "sampling bin n u"
  shows "\<exists>w' g'. x' = (w', g', k) \<and> files w' = files w \<and> fault w' = fault w"
proof (cases "is_io l")
  case True
  with assms show ?thesis
    by (auto simp: is_io_def do_IN_def do_RAND_def sampling_def snapper_in_def snapper_rand_def
        scan_or_zero_def observe_def access_defs Let_def split: prod.splits)
next
  case False
  from exec_label_pure [OF False same_core_refl [of u], of "(w, g, k)" "(w, g, k)" ops] assms(1)
  show ?thesis by (auto simp: pure_rel_def)
qed

lemma snapper_handler_stop:
  assumes "exec_label l ops (u, x) = Inr (r, u', x')" "sampling bin n u"
  shows "x' = x"
proof (cases "is_io l")
  case True
  with assms show ?thesis
    by (cases x) (auto simp: is_io_def do_IN_def do_RAND_def sampling_def snapper_in_def snapper_rand_def
        Let_def split: prod.splits)
next
  case False
  from exec_label_pure [OF False same_core_refl [of u], of x x ops] assms(1)
  show ?thesis by (auto simp: pure_rel_def)
qed

definition shots :: "string \<Rightarrow> u32 \<Rightarrow> mem \<Rightarrow> nat \<Rightarrow> snapper cfg \<Rightarrow> bool" where
  "shots bin n m0 j c \<longleftrightarrow>
     (\<exists>ss. shot bin n m0 j ss (vm_state (fst c)) (vm_deltas (fst c)) (vm_mem (fst c)) (snd c))"

lemma shots_tick:
  assumes "length bin \<le> 495" "n \<noteq> 0" "sampling bin n u" "shots bin n m0 j (u, x)"
    and "snap_tick (advance u, x) = (b, u', x')"
  shows "shots bin n m0 (Suc j) (u', x')"
proof -
  from assms(4) obtain ss where "shot bin n m0 j ss (vm_state u) (vm_deltas u) (vm_mem u) x"
    by (auto simp: shots_def)
  from shot_tick [OF assms(1-3) this assms(5)] show ?thesis by (simp add: shots_def)
qed

lemma shots_handler:
  assumes e: "exec_label l ops (u, x) = Inl (u', x')" and "sampling bin n u" "shots bin n m0 j (u, x)"
  shows "shots bin n m0 j (u', x')"
proof -
  obtain w g k where x: "x = (w, g, k)" by (cases x)
  from snapper_handler [OF e [unfolded x] assms(2)] obtain w' g'
    where "x' = (w', g', k)" "files w' = files w" "fault w' = fault w" by blast
  moreover have "undo_deltas (vm_deltas u') (vm_mem u') = undo_deltas (vm_deltas u) (vm_mem u)"
    using exec_label_base [OF e] by (simp add: base_mem_def)
  ultimately show ?thesis
    using assms(3) exec_label_frame(4,8) [OF e]
    by (simp add: shots_def shot_def x undo_deltas_append)
qed

lemma shots_stop:
  assumes s: "goto_step (u, x) = Inr (r, u', x')" and "length bin \<le> 495" "n \<noteq> 0" "sampling bin n u"
    and inv: "shots bin n m0 j (u, x)"
  shows "shots bin n m0 (Suc j) (u', x')"
  using s
proof (cases rule: goto_step_InrE)
  case (snapshot v y)
  with sampling_tick(1) [OF assms(4,3)] show ?thesis by blast
next
  case (unknown v y)
  with shots_tick [OF assms(2-4) inv] have "shots bin n m0 (Suc j) (v, y)" by blast
  with unknown show ?thesis by (simp add: shots_def shot_def access_defs)
next
  case (handler v y)
  have "sampling bin n v" by (rule sampling_tick(2) [OF assms(4,3) handler(1)])
  from shots_tick [OF assms(2-4) inv handler(1)] snapper_handler_stop [OF handler(3) this]
    exec_label_stop_frame [OF handler(3)]
  show ?thesis by (simp add: shots_def shot_def)
qed

lemma shots_run:
  assumes run: "fuel_loop goto_step N (u, x) = Some q" and bin: "length bin \<le> 495" and n: "n \<noteq> 0"
    and u: "sampling bin n u" and inv: "shots bin n m0 0 (u, x)"
  shows "\<exists>j \<le> N. shots bin n m0 j (snd q)"
proof -
  have "\<exists>j \<le> 0 + N. shots bin n m0 j (snd q)"
    using run
  proof (rule fuel_loop_count [where I = "\<lambda>j c. sampling bin n (fst c) \<and> shots bin n m0 j c"])
    fix j and c c' :: "snapper cfg"
    assume I: "sampling bin n (fst c) \<and> shots bin n m0 j c" and s: "goto_step c = Inl c'"
    obtain v y where c: "c = (v, y)" by (cases c)
    obtain v' y' where c': "c' = (v', y')" by (cases c')
    from s c obtain a b l ops where t: "snap_tick (advance v, y) = (False, a, b)"
      and e: "exec_label l ops (a, b) = Inl (v', y')"
      by (auto simp: c' elim!: goto_step_InlE)
    have "sampling bin n v" "shots bin n m0 j (v, y)" using I c by simp_all
    with sampling_tick(2) [OF _ n t] shots_tick [OF bin n _ _ t]
    have "sampling bin n a" "shots bin n m0 (Suc j) (a, b)" by blast+
    with sampling_handler [OF e] shots_handler [OF e]
    show "sampling bin n (fst c') \<and> shots bin n m0 (Suc j) c'"
      by (simp add: c')
  next
    fix j and c :: "snapper cfg" and q
    assume "sampling bin n (fst c) \<and> shots bin n m0 j c" "goto_step c = Inr q"
    then show "shots bin n m0 (Suc j) (snd q)"
      using shots_stop [of "fst c" "snd c" "fst q" "fst (snd q)" "snd (snd q)"] bin n by simp
  qed (use u inv in simp)
  then show ?thesis by simp
qed

text \<open>
  C8: the snapshot files are complete. When the machine that \<open>snapshot\<close> builds runs to its end in
  fewer than \<open>2 ^ 32\<close> steps (and no write fails, and the path fits its buffer), the counter is the
  cycle count divided by the interval; for every \<open>i\<close> below it file \<open>i\<close> exists, is 72 bytes and 8 per
  delta long, and holds the snapshot of cycle \<open>(i + 1) * interval\<close>; and undoing the deltas of all the
  files and of the unfinished interval, newest first, turns the final memory back into the loaded
  program. A snapshot is taken before the instruction of its cycle executes, so a store of that cycle is
  in the next file. (The registers a file holds are those of some snapshot; which, is not part of the
  claim.)
\<close>

theorem snapshot_files_complete:
  assumes "snapshot_vm bin interval bs = (True, u)" and "interval \<noteq> 0" and "length bin \<le> 495"
    and "fault w = (\<lambda>_. None)"
    and run: "fuel_loop goto_step N (u, w, g, 0) = Some (r, u', w', g', counter)" and N: "N < 2 ^ 32"
  shows "vm_run (u, w, g, 0) = Some (r, u', w', g', counter)
    \<and> unat counter = unat (cycle_count (vm_state u')) div unat interval
    \<and> (\<exists>ss. length ss = unat counter
        \<and> (\<forall>i < length ss. s_cycle_count (ss ! i) = of_nat ((i + 1) * unat interval)
             \<and> files w' (snap_path bin (of_nat i)) = Some (snapshot_bytes (ss ! i))
             \<and> length (snapshot_bytes (ss ! i)) = 72 + 8 * length (s_deltas (ss ! i)))
        \<and> undo_deltas (concat (map s_deltas ss) @ vm_deltas u') (vm_mem u') = vm_mem u)"
proof -
  note f = snapshot_vm_fresh [OF assms(1)]
  have "shot bin interval (vm_mem u) 0 [] (vm_state u) (vm_deltas u) (vm_mem u) (w, g, 0)"
    using f assms by (simp add: shot_def)
  then have "shots bin interval (vm_mem u) 0 (u, w, g, 0)" by (auto simp: shots_def)
  from shots_run [OF run assms(3,2) f(1) this] obtain j ss where j: "j \<le> N"
    and ss: "shot bin interval (vm_mem u) j ss (vm_state u') (vm_deltas u') (vm_mem u') (w', g', counter)"
    by (auto simp: shots_def)
  let ?t = "unat (snap_timer (vm_state u'))"
  have t: "0 < ?t" "0 < unat interval" and jt: "j = length ss * unat interval + (unat interval - ?t)"
    using ss assms(2) by (simp_all add: shot_def unat_gt_0)
  have len: "length ss \<le> j" using jt t(2) by (cases "unat interval") simp_all
  have div: "j div unat interval = length ss"
    unfolding jt using t by (simp add: div_mult_self3)
  have "cycle_count (vm_state u') = of_nat j" "counter = of_nat (length ss)"
    using ss by (auto simp only: shot_def split_conv)
  then have c: "unat (cycle_count (vm_state u')) = j" "unat counter = length ss"
    using j len N by (simp_all add: unsigned_of_nat take_bit_nat_eq_self)
  have "vm_run (u, w, g, 0) = Some (r, u', w', g', counter)"
    using fuel_loop_run [OF run] f(2) by (simp add: vm_run_def run_goto_def)
  then show ?thesis
    using ss c div len j N
    by (intro conjI exI [of _ ss]) (auto simp: shot_def length_snapshot_bytes)
qed

lemma snapshot_run_sample:
  "\<exists>u u' w' g'. snapshot_vm ''p'' 3 store_bin = (True, u) \<and> cycle_count (vm_state u') = 5
     \<and> fuel_loop goto_step (Suc (Suc (Suc (Suc (Suc 0))))) (u, sample_world store_bin, mt_init 7, 0) = Some (Returned HALT_NORMAL, u', w', g', 1)"
  apply (simp add: snapshot_vm_def load_eval sample_defs)
  apply (simp add: step_eval snapper_in_def scan_or_zero_def snapshot_sink_def
      unchecked_write_def sample_defs)
  done

theorem snapshot_files_complete_witness:
  "\<exists>u u' w' g' s. snapshot_vm ''p'' 3 store_bin = (True, u)
     \<and> vm_run (u, sample_world store_bin, mt_init 7, 0) = Some (Returned HALT_NORMAL, u', w', g', 1)
     \<and> files w' (snap_path ''p'' 0) = Some (snapshot_bytes s) \<and> s_cycle_count s = 3"
proof -
  obtain u u' w' g' where u: "snapshot_vm ''p'' 3 store_bin = (True, u)"
    and run: "fuel_loop goto_step (Suc (Suc (Suc (Suc (Suc 0))))) (u, sample_world store_bin, mt_init 7, 0) =
      Some (Returned HALT_NORMAL, u', w', g', 1)"
    using snapshot_run_sample by blast
  have "(3 :: u32) \<noteq> 0" "length ''p'' \<le> 495" "fault (sample_world store_bin) = (\<lambda>_. None)" "Suc (Suc (Suc (Suc (Suc 0)))) < 2 ^ 32"
    by (simp_all add: sample_world_def)
  note r = snapshot_files_complete [OF u this(1-3) run this(4)]
  then obtain ss where "length ss = unat (1 :: u32)" and ss: "\<forall>i < length ss.
      s_cycle_count (ss ! i) = of_nat ((i + 1) * unat (3 :: u32))
      \<and> files w' (snap_path ''p'' (of_nat i)) = Some (snapshot_bytes (ss ! i))"
    by blast
  then have "files w' (snap_path ''p'' 0) = Some (snapshot_bytes (ss ! 0))" "s_cycle_count (ss ! 0) = 3"
    by (auto dest: spec [of _ 0])
  with r u show ?thesis by blast
qed

end
