(* ===== verification/TraceStream.thy ===== *)
theory TraceStream
  imports Trace
begin

text \<open>
  The other branch of \<open>src/trace.cpp\<close>, for a host without \<open>mmap\<close> (\<open>_WIN32\<close>): the reader copies the
  file to the heap, the writer stages it there and writes it with one call. Both branches read and
  make the same files.
\<close>

section \<open>The reader\<close>

definition TraceReader_stream :: "string \<Rightarrow> world \<Rightarrow> string + TraceReader" where
  "TraceReader_stream path w = (
     case files w path of
       None \<Rightarrow> Inl (''cannot open trace file: '' @ path)
     | Some buf \<Rightarrow>
        if length buf = 0 then Inl (''trace file is empty: '' @ path)
        else read_header path buf)"

section \<open>The writer\<close>

definition memcpy_at :: "nat \<Rightarrow> bytes \<Rightarrow> bytes \<Rightarrow> bytes" where
  "memcpy_at a src dst = take a dst @ src @ drop (a + length src) dst"

text \<open>The staging vector, from its zeros on.\<close>

definition staged_trace :: "TraceWriter \<Rightarrow> bytes" where
  "staged_trace frames = (
     let total = sizeof_TraceHeader + length frames * sizeof_TraceFrame;
         buf = replicate total 0;
         buf = memcpy_at 0 (str_bytes ''RVMTRACE'') buf;
         buf = memcpy_at 8 (write_u32_le 1) buf;
         buf = memcpy_at 12 (write_u32_le 0) buf
     in if frames \<noteq> [] then memcpy_at sizeof_TraceHeader (concat (map frame_bytes frames)) buf else buf)"

text \<open>
  \<open>flush_to_file\<close>. The stream is tested right after \<open>write\<close>, and closed by its destructor. Whether it
  still holds the data at the test (\<open>buffered\<close>, which depends on the library and on the size) is an
  argument: a write that fails later is not noticed.
\<close>

definition flush_to_stream :: "bool \<Rightarrow> string \<Rightarrow> TraceWriter \<Rightarrow> world \<Rightarrow> string option \<times> world" where
  "flush_to_stream buffered path frames w = (
     let buf = staged_trace frames in
     case fault w path of
       Some F_open_write \<Rightarrow> (Some (''cannot open trace for write: '' @ path), w)
     | Some (F_write n) \<Rightarrow>
         (if n < length buf \<and> \<not> buffered then Some (''write failed for trace: '' @ path) else None,
          write_file path (take n buf) w)
     | Some (F_close n) \<Rightarrow> (None, write_file path (take n buf) w)
     | _ \<Rightarrow> (None, write_file path buf w))"

section \<open>The two branches\<close>

lemma memcpy_at_append [simp]:
  "length xs = a \<Longrightarrow> memcpy_at a src (xs @ ys) = xs @ src @ drop (length src) ys"
  by (simp add: memcpy_at_def)

lemma staged_trace_bytes: "staged_trace frames = trace_bytes frames"
proof -
  let ?n = "length frames * 16"
  let ?m = "str_bytes ''RVMTRACE''"
  have len: "length ?m = 8" "length (write_u32_le v) = 4" for v by (simp_all add: write_u32_le_eq)
  have 1: "memcpy_at 0 ?m (replicate (16 + ?n) 0) = ?m @ replicate (8 + ?n) 0"
    using memcpy_at_append [of "[]" 0 ?m "replicate (16 + ?n) 0"] by (simp add: len)
  have 2: "memcpy_at 8 (write_u32_le 1) (?m @ replicate (8 + ?n) 0)
      = ?m @ write_u32_le 1 @ replicate (4 + ?n) 0"
    by (simp add: len)
  have 3: "memcpy_at 12 (write_u32_le 0) (?m @ write_u32_le 1 @ replicate (4 + ?n) 0)
      = (?m @ write_u32_le 1 @ write_u32_le 0) @ replicate ?n 0"
    using memcpy_at_append [of "?m @ write_u32_le 1" 12 "write_u32_le 0" "replicate (4 + ?n) 0"]
    by (simp add: len)
  have 4: "memcpy_at 16 (concat (map frame_bytes frames)) ((?m @ write_u32_le 1 @ write_u32_le 0) @ replicate ?n 0)
      = trace_bytes frames"
    by (subst memcpy_at_append) (simp_all add: len trace_bytes_def)
  have "staged_trace frames = (if frames \<noteq> [] then trace_bytes frames
      else (?m @ write_u32_le 1 @ write_u32_le 0) @ replicate ?n 0)"
    by (simp only: staged_trace_def Let_def sizeof_trace_defs 1 2 3 4)
  then show ?thesis by (simp add: trace_bytes_def)
qed

lemma reader_stream_agrees:
  "fault w path \<notin> {Some F_fstat, Some F_mmap} \<Longrightarrow> TraceReader_stream path w = TraceReader_open path w"
  by (auto simp: TraceReader_stream_def TraceReader_open_def split: option.split)

text \<open>
  C28: trace files do not depend on the platform. A trace written by either branch is the same file,
  however the stream buffers, and both readers open it with the same result: they count exactly the
  frames and return each of them unchanged, and \<open>nullptr\<close> from the count on. On any other file,
  damaged or foreign, they give the same answer too, as long as the system calls succeed.
\<close>

theorem trace_portable:
  assumes "fault w path = None"
  shows "TraceReader_stream path w = TraceReader_open path w
    \<and> (\<exists>w1 rd. flush_to_file path frames w = (None, w1) \<and> flush_to_stream buffered path frames w = (None, w1)
      \<and> TraceReader_open path w1 = Inr rd \<and> TraceReader_stream path w1 = Inr rd
      \<and> rd_frame_count rd = length frames
      \<and> (\<forall>i. frame_at rd i = (if i < length frames then Some (frames ! i) else None)))"
proof
  show "TraceReader_stream path w = TraceReader_open path w"
    using assms by (intro reader_stream_agrees) simp
  let ?w1 = "write_file path (trace_bytes frames) w"
  have "flush_to_file path frames w = (None, ?w1)" "flush_to_stream buffered path frames w = (None, ?w1)"
    using assms by (simp_all add: flush_to_file_def flush_to_stream_def staged_trace_bytes)
  moreover have "TraceReader_open path ?w1 = Inr (reader_of frames)"
    using assms by (intro TraceReader_open_trace_bytes) simp_all
  moreover have "TraceReader_stream path ?w1 = TraceReader_open path ?w1"
    using assms by (intro reader_stream_agrees) simp
  moreover have "rd_frame_count (reader_of frames) = length frames" by (simp add: reader_of_def)
  ultimately show "\<exists>w1 rd. flush_to_file path frames w = (None, w1)
      \<and> flush_to_stream buffered path frames w = (None, w1)
      \<and> TraceReader_open path w1 = Inr rd \<and> TraceReader_stream path w1 = Inr rd
      \<and> rd_frame_count rd = length frames
      \<and> (\<forall>i. frame_at rd i = (if i < length frames then Some (frames ! i) else None))"
    using frame_at_reader_of by fastforce
qed

theorem trace_portable_witness:
  "\<exists>w1 rd. flush_to_stream True ''t'' [\<lparr>f_cycle = 3, f_opcode = OP_IN, f_value = 42\<rparr>] no_files = (None, w1)
     \<and> TraceReader_open ''t'' w1 = Inr rd
     \<and> frame_at rd 0 = Some \<lparr>f_cycle = 3, f_opcode = OP_IN, f_value = 42\<rparr> \<and> frame_at rd 1 = None"
  using trace_portable [of no_files "''t''" "[\<lparr>f_cycle = 3, f_opcode = OP_IN, f_value = 42\<rparr>]" True]
  by (fastforce simp: no_files_def)

text \<open>
  A short write that the stream still buffers is reported as success, and when it ends between two
  frames the file left behind is a well-formed trace with the last frames missing.
\<close>

lemma lost_frames:
  assumes "fault w path = Some (F_write (16 + 16 * k))" "k < length frames"
  shows "\<exists>w1. flush_to_stream True path frames w = (None, w1) \<and> TraceReader_stream path w1 = Inr (reader_of (take k frames))"
proof -
  have "take (16 + 16 * k) (trace_bytes frames) = trace_bytes (take k frames)"
  proof -
    have "take (16 * k) (concat (map frame_bytes frames)) = concat (map frame_bytes (take k frames))"
      using assms(2)
    proof (induction k arbitrary: frames)
      case (Suc k)
      then obtain f fs where "frames = f # fs" by (cases frames) auto
      with Suc show ?case by simp
    qed simp
    then show ?thesis by (simp add: trace_bytes_def write_u32_le_eq)
  qed
  then have "flush_to_stream True path frames w = (None, write_file path (trace_bytes (take k frames)) w)"
    using assms(1) by (simp add: flush_to_stream_def staged_trace_bytes)
  moreover have "TraceReader_stream path (write_file path (trace_bytes (take k frames)) w)
    = TraceReader_open path ((write_file path (trace_bytes (take k frames)) w)\<lparr>fault := (\<lambda>_. None)\<rparr>)"
    by (simp add: TraceReader_stream_def TraceReader_open_def)
  moreover have "\<dots> = Inr (reader_of (take k frames))" by (intro TraceReader_open_trace_bytes) simp_all
  ultimately show ?thesis by simp
qed

end
