(* ===== verification/Workload.thy ===== *)
theory Workload
  imports Isa
begin

text \<open>
  The synthetic program of the benchmarks in \<open>src/main.cpp\<close>, and what it does: on every machine
  that starts it, it halts normally after exactly 9219 cycles and leaves its own code in place.
\<close>

section \<open>The program\<close>

definition kBenchmarkLoopCount :: u32 where "kBenchmarkLoopCount = 1024"

definition bench_program :: "u32 list" where
  "bench_program =
     [encode (ucast OP_LI) 0 0 kBenchmarkLoopCount,
      encode (ucast OP_LI) 1 0 1,
      encode (ucast OP_ADD) 2 1 0,
      encode (ucast OP_ADD) 3 1 0,
      encode (ucast OP_SUB) 4 0 0,
      encode (ucast OP_MUL) 5 1 0,
      encode (ucast OP_DIV) 6 1 0,
      encode (ucast OP_STORE) 2 0 0x100,
      encode (ucast OP_LOAD) 7 0 0x100,
      encode (ucast OP_SUB) 0 1 0,
      encode (ucast OP_JNZ) 0 0 0x08,
      encode (ucast OP_HALT) 0 0 0]"

text \<open>The words as the bytes that \<open>reinterpret_cast\<close> of the vector shows on a little-endian host.\<close>

definition program_bytes :: "u32 list \<Rightarrow> bytes" where
  "program_bytes ws = concat (map (le_bytes 4) ws)"

definition bench_expected :: u64 where
  "bench_expected = 2 + 9 * ucast kBenchmarkLoopCount + 1"

section \<open>Its instructions\<close>

definition bench_instrs :: "instr list" where
  "bench_instrs = [Li 0 1024, Li 1 1, Add 2 1, Add 3 1, Sub 4 0, Mul 5 1, Div 6 1, Store 2 256,
     Load 7 256, Sub 0 1, Jnz 0 8, Halt]"

text \<open>The code is in memory.\<close>

definition has_code :: "arch \<Rightarrow> bool" where
  "has_code s \<longleftrightarrow> (\<forall>i < 12. isa_decode (a_load32 (a_mem s) (4 * i)) = bench_instrs ! i)"

lemma a_load32_store:
  assumes "a + 4 \<le> b" "b + 4 \<le> 2 ^ 20"
  shows "a_load32 (a_store32 m b v) a = a_load32 m a"
  using assms by (simp add: a_load32_def a_store32_def)

lemma has_code_at:
  assumes "has_code s"
  shows "a_pc s = 0 \<Longrightarrow> a_instr s = Li 0 1024" "a_pc s = 4 \<Longrightarrow> a_instr s = Li 1 1"
    "a_pc s = 8 \<Longrightarrow> a_instr s = Add 2 1" "a_pc s = 12 \<Longrightarrow> a_instr s = Add 3 1"
    "a_pc s = 16 \<Longrightarrow> a_instr s = Sub 4 0" "a_pc s = 20 \<Longrightarrow> a_instr s = Mul 5 1"
    "a_pc s = 24 \<Longrightarrow> a_instr s = Div 6 1" "a_pc s = 28 \<Longrightarrow> a_instr s = Store 2 256"
    "a_pc s = 32 \<Longrightarrow> a_instr s = Load 7 256" "a_pc s = 36 \<Longrightarrow> a_instr s = Sub 0 1"
    "a_pc s = 40 \<Longrightarrow> a_instr s = Jnz 0 8" "a_pc s = 44 \<Longrightarrow> a_instr s = Halt"
proof -
  have *: "isa_decode (a_load32 (a_mem s) (4 * i)) = bench_instrs ! i" if "i < 12" for i
    using assms that by (simp add: has_code_def)
  show "a_pc s = 0 \<Longrightarrow> a_instr s = Li 0 1024" "a_pc s = 4 \<Longrightarrow> a_instr s = Li 1 1"
    "a_pc s = 8 \<Longrightarrow> a_instr s = Add 2 1" "a_pc s = 12 \<Longrightarrow> a_instr s = Add 3 1"
    "a_pc s = 16 \<Longrightarrow> a_instr s = Sub 4 0" "a_pc s = 20 \<Longrightarrow> a_instr s = Mul 5 1"
    "a_pc s = 24 \<Longrightarrow> a_instr s = Div 6 1" "a_pc s = 28 \<Longrightarrow> a_instr s = Store 2 256"
    "a_pc s = 32 \<Longrightarrow> a_instr s = Load 7 256" "a_pc s = 36 \<Longrightarrow> a_instr s = Sub 0 1"
    "a_pc s = 40 \<Longrightarrow> a_instr s = Jnz 0 8" "a_pc s = 44 \<Longrightarrow> a_instr s = Halt"
    using * [of 0] * [of 1] * [of 2] * [of 3] * [of 4] * [of 5] * [of 6] * [of 7] * [of 8] * [of 9]
      * [of 10] * [of 11]
    by (simp_all add: a_instr_def bench_instrs_def)
qed

section \<open>The loop\<close>

text \<open>At the address \<open>p\<close>, with \<open>k\<close> rounds to go, \<open>c\<close> cycles after the start.\<close>

definition at :: "nat \<Rightarrow> nat \<Rightarrow> nat \<Rightarrow> arch \<Rightarrow> bool" where
  "at p k c s \<longleftrightarrow> has_code s \<and> a_pc s = p \<and> a_reg s 0 = k \<and> a_reg s 1 = 1 \<and> a_cycle s = c"

lemma isa_run_trans: "isa_run es s t \<Longrightarrow> isa_run es' t u \<Longrightarrow> isa_run (es @ es') s u"
  by (induction rule: isa_run.induct) (auto intro: isa_run.intros)

lemma has_code_store: "has_code s \<Longrightarrow> has_code (s\<lparr>a_mem := a_store32 (a_mem s) 256 v\<rparr>)"
  by (simp add: has_code_def a_load32_store)

lemma has_code_upd [simp]:
  "has_code (a_set d v s) = has_code s" "has_code (a_next s) = has_code s"
  "has_code (a_alu d x b s) = has_code s" "has_code (s\<lparr>a_pc := p\<rparr>) = has_code s"
  by (simp_all add: has_code_def a_set_def a_next_def a_alu_def Let_def)

lemma stepI: "isa_step Silent s t \<Longrightarrow> at p k c t \<Longrightarrow> \<exists>t. isa_step Silent s t \<and> at p k c t"
  by blast

lemma walk:
  assumes "c + 1 < 2 ^ 64"
  shows "at 8 k c s \<Longrightarrow> \<exists>t. isa_step Silent s t \<and> at 12 k (c + 1) t"
    and "at 12 k c s \<Longrightarrow> \<exists>t. isa_step Silent s t \<and> at 16 k (c + 1) t"
    and "at 16 k c s \<Longrightarrow> \<exists>t. isa_step Silent s t \<and> at 20 k (c + 1) t"
    and "at 20 k c s \<Longrightarrow> \<exists>t. isa_step Silent s t \<and> at 24 k (c + 1) t"
    and "at 24 k c s \<Longrightarrow> \<exists>t. isa_step Silent s t \<and> at 28 k (c + 1) t"
    and "at 28 k c s \<Longrightarrow> \<exists>t. isa_step Silent s t \<and> at 32 k (c + 1) t"
    and "at 32 k c s \<Longrightarrow> \<exists>t. isa_step Silent s t \<and> at 36 k (c + 1) t"
    and "at 36 (Suc k) c s \<Longrightarrow> Suc k < 2 ^ 32 \<Longrightarrow> \<exists>t. isa_step Silent s t \<and> at 40 k (c + 1) t"
    and "at 40 k c s \<Longrightarrow> \<exists>t. isa_step Silent s t \<and> at (if k = 0 then 44 else 8) k (c + 1) t"
proof -
  note d = at_def has_code_at
  show "at 8 k c s \<Longrightarrow> \<exists>t. isa_step Silent s t \<and> at 12 k (c + 1) t"
    by (insert assms, rule stepI, rule step_add [OF _ refl]) (auto simp: d)
  show "at 12 k c s \<Longrightarrow> \<exists>t. isa_step Silent s t \<and> at 16 k (c + 1) t"
    by (insert assms, rule stepI, rule step_add [OF _ refl]) (auto simp: d)
  show "at 16 k c s \<Longrightarrow> \<exists>t. isa_step Silent s t \<and> at 20 k (c + 1) t"
    by (insert assms, rule stepI, rule step_sub [OF _ refl]) (auto simp: d)
  show "at 20 k c s \<Longrightarrow> \<exists>t. isa_step Silent s t \<and> at 24 k (c + 1) t"
    by (insert assms, rule stepI, rule step_mul [OF _ refl]) (auto simp: d)
  show "at 24 k c s \<Longrightarrow> \<exists>t. isa_step Silent s t \<and> at 28 k (c + 1) t"
    by (insert assms, rule stepI, rule step_div) (auto simp: d)
  show "at 28 k c s \<Longrightarrow> \<exists>t. isa_step Silent s t \<and> at 32 k (c + 1) t"
    by (insert assms has_code_store [of "a_next s"], rule stepI, rule step_store) (auto simp: d)
  show "at 32 k c s \<Longrightarrow> \<exists>t. isa_step Silent s t \<and> at 36 k (c + 1) t"
    by (insert assms, rule stepI, rule step_load) (auto simp: d)
  show "at 36 (Suc k) c s \<Longrightarrow> Suc k < 2 ^ 32 \<Longrightarrow> \<exists>t. isa_step Silent s t \<and> at 40 k (c + 1) t"
    by (insert assms, rule stepI, rule step_sub [OF _ refl]) (auto simp: d)
  show "at 40 k c s \<Longrightarrow> \<exists>t. isa_step Silent s t \<and> at (if k = 0 then 44 else 8) k (c + 1) t"
    by (insert assms, cases "k = 0"; rule stepI, rule step_jnz_skip step_jnz_taken) (auto simp: d)
qed

text \<open>One round, and the whole loop.\<close>

lemma isa_run_step1: "isa_step Silent s t \<Longrightarrow> isa_run [] t u \<Longrightarrow> isa_run [] s u"
  by (rule run_silent)

definition reaches :: "arch \<Rightarrow> nat \<Rightarrow> nat \<Rightarrow> nat \<Rightarrow> bool" where
  "reaches s p k c \<longleftrightarrow> (\<exists>t. isa_run [] s t \<and> at p k c t)"

lemma reaches_self: "at p k c s \<Longrightarrow> reaches s p k c"
  unfolding reaches_def by (blast intro: run_refl)

lemma reaches_walk:
  assumes "reaches s p k c" "\<And>t. at p k c t \<Longrightarrow> \<exists>u. isa_step Silent t u \<and> at q l d u"
  shows "reaches s q l d"
proof -
  from assms(1) obtain t where t: "isa_run [] s t" "at p k c t" by (auto simp: reaches_def)
  with assms(2) obtain u where u: "isa_step Silent t u" "at q l d u" by blast
  from isa_run_trans [OF t(1) run_silent [OF u(1) run_refl]] u(2)
  show ?thesis by (auto simp: reaches_def)
qed

lemma loop_round:
  assumes "reaches s 8 (Suc k) c" "Suc k < 2 ^ 32" "c + 9 < 2 ^ 64"
  shows "reaches s (if k = 0 then 44 else 8) k (c + 9)"
proof -
  note head = assms(1)
  have r12: "reaches s 12 (Suc k) (c + 1)"
    by (rule reaches_walk [OF head], rule walk(1)) (use assms(3) in simp_all)
  have r16: "reaches s 16 (Suc k) (c + 1 + 1)"
    by (rule reaches_walk [OF r12], rule walk(2)) (use assms(3) in simp_all)
  have r20: "reaches s 20 (Suc k) (c + 1 + 1 + 1)"
    by (rule reaches_walk [OF r16], rule walk(3)) (use assms(3) in simp_all)
  have r24: "reaches s 24 (Suc k) (c + 1 + 1 + 1 + 1)"
    by (rule reaches_walk [OF r20], rule walk(4)) (use assms(3) in simp_all)
  have r28: "reaches s 28 (Suc k) (c + 1 + 1 + 1 + 1 + 1)"
    by (rule reaches_walk [OF r24], rule walk(5)) (use assms(3) in simp_all)
  have r32: "reaches s 32 (Suc k) (c + 1 + 1 + 1 + 1 + 1 + 1)"
    by (rule reaches_walk [OF r28], rule walk(6)) (use assms(3) in simp_all)
  have r36: "reaches s 36 (Suc k) (c + 1 + 1 + 1 + 1 + 1 + 1 + 1)"
    by (rule reaches_walk [OF r32], rule walk(7)) (use assms(3) in simp_all)
  have r40: "reaches s 40 k (c + 1 + 1 + 1 + 1 + 1 + 1 + 1 + 1)"
    by (rule reaches_walk [OF r36], rule walk(8)) (use assms(2,3) in simp_all)
  have r: "reaches s (if k = 0 then 44 else 8) k (c + 1 + 1 + 1 + 1 + 1 + 1 + 1 + 1 + 1)"
    by (rule reaches_walk [OF r40], rule walk(9)) (use assms(3) in simp_all)
  have "c + 1 + 1 + 1 + 1 + 1 + 1 + 1 + 1 + 1 = c + 9" by simp
  from r [unfolded this] show ?thesis .
qed

lemma loop_rounds:
  "reaches s 8 (Suc k) c \<Longrightarrow> Suc k < 2 ^ 32 \<Longrightarrow> c + 9 * Suc k < 2 ^ 64 \<Longrightarrow> reaches s 44 0 (c + 9 * Suc k)"
proof (induction k arbitrary: c)
  case 0
  then show ?case using loop_round [of s 0 c] by simp
next
  case (Suc k)
  have "reaches s 8 (Suc k) (c + 9)"
    using loop_round [of s "Suc k" c] Suc.prems by simp
  with Suc.IH [of "c + 9"] Suc.prems show ?case by (simp add: algebra_simps)
qed

lemma workload_halts:
  assumes "has_code s" "a_pc s = 0" "a_cycle s = 0"
  shows "\<exists>t u. isa_run [] s t \<and> isa_halt 1 t u \<and> a_cycle u = 9219 \<and> has_code u"
proof -
  let ?s1 = "a_set 0 1024 (a_next s)"
  have s1: "isa_step Silent s ?s1" by (rule step_li) (simp add: has_code_at assms)
  let ?s2 = "a_set 1 1 (a_next ?s1)"
  have s2: "isa_step Silent ?s1 ?s2" by (rule step_li) (simp add: has_code_at assms)
  have "at 8 (Suc 1023) 2 ?s2" using assms by (simp add: at_def)
  then have "reaches s 8 (Suc 1023) 2"
    using run_silent [OF s1 run_silent [OF s2 run_refl]] by (auto simp: reaches_def)
  from loop_rounds [OF this] obtain t where t: "isa_run [] s t" "at 44 0 9218 t"
    by (auto simp: reaches_def)
  then have "isa_halt 1 t (a_next t)" by (intro halt_normal) (simp add: at_def has_code_at)
  moreover have "a_cycle (a_next t) = 9219" "has_code (a_next t)" using t(2) by (simp_all add: at_def)
  ultimately show ?thesis using t(1) by blast
qed

end
