(* ===== verification/Double.thy ===== *)
theory Double
  imports CString Complex_Main "HOL-Library.Log_Nat"
begin

text \<open>
  The C++ type \<open>double\<close> (IEEE 754 binary64, rounding to the nearest, ties to even) as far as the
  benchmarks use it: the numbers of the program are not negative, apart from the result -1.0 of a
  measurement that failed. Also what \<open>printf("%.nf")\<close> prints of one.
\<close>

section \<open>Rounding\<close>

text \<open>The nearest integer; of two, the even one.\<close>

definition round_even :: "rat \<Rightarrow> int" where
  "round_even x = (let f = \<lfloor>x\<rfloor>; r = x - of_int f in if r < 1 / 2 \<or> r = 1 / 2 \<and> even f then f else f + 1)"

text \<open>The binary exponent of a positive number.\<close>

definition ilog2 :: "rat \<Rightarrow> int" where
  "ilog2 x = (case quotient_of x of (n, d) \<Rightarrow>
     let k = bitlen n - bitlen d in if 2 powi k * of_int d \<le> (of_int n :: rat) then k else k - 1)"

text \<open>The unit in the last of the 53 places, for a subnormal number that of the smallest one.\<close>

definition ulp :: "rat \<Rightarrow> rat" where
  "ulp x = 2 powi max (ilog2 x - 52) (- 1074)"

datatype double = Finite rat | Infinite | NaN

definition rounded :: "rat \<Rightarrow> double" where
  "rounded x = (let u = ulp \<bar>x\<bar>; y = of_int (round_even (x / u)) * u
     in if \<bar>y\<bar> \<ge> 2 ^ 1024 then Infinite else Finite y)"

section \<open>Arithmetic\<close>

instantiation double :: "{times, inverse, ord}"
begin

fun times_double :: "double \<Rightarrow> double \<Rightarrow> double" where
  "Finite a * Finite b = rounded (a * b)"
| "Finite a * Infinite = (if a = 0 then NaN else Infinite)"
| "Infinite * Finite b = (if b = 0 then NaN else Infinite)"
| "Infinite * Infinite = Infinite"
| "NaN * _ = NaN"
| "_ * NaN = NaN"

fun divide_double :: "double \<Rightarrow> double \<Rightarrow> double" where
  "divide_double (Finite a) (Finite b) = (if b \<noteq> 0 then rounded (a / b) else if a = 0 then NaN else Infinite)"
| "divide_double (Finite a) Infinite = Finite 0"
| "divide_double Infinite (Finite b) = Infinite"
| "divide_double Infinite Infinite = NaN"
| "divide_double NaN _ = NaN"
| "divide_double _ NaN = NaN"

definition inverse_double :: "double \<Rightarrow> double" where
  "inverse_double d = divide (Finite 1) d"

fun less_double :: "double \<Rightarrow> double \<Rightarrow> bool" where
  "Finite a < Finite b \<longleftrightarrow> a < b"
| "Finite a < Infinite \<longleftrightarrow> True"
| "(_ :: double) < _ \<longleftrightarrow> False"

fun less_eq_double :: "double \<Rightarrow> double \<Rightarrow> bool" where
  "Finite a \<le> Finite b \<longleftrightarrow> a \<le> b"
| "Finite a \<le> Infinite \<longleftrightarrow> True"
| "Infinite \<le> Infinite \<longleftrightarrow> True"
| "(_ :: double) \<le> _ \<longleftrightarrow> False"

instance ..

end

text \<open>The conversion of an unsigned integer, as by \<open>static_cast<double>\<close>.\<close>

definition double_of :: "nat \<Rightarrow> double" where
  "double_of n = rounded (of_nat n)"

section \<open>Text\<close>

text \<open>
  \<open>%.pf\<close>: the decimal number with \<open>p\<close> places nearest to the value. What is printed of a NaN differs
  between platforms (with a sign or without), it is an argument.
\<close>

fun fmt_double :: "string \<Rightarrow> nat \<Rightarrow> double \<Rightarrow> string" where
  "fmt_double nan p (Finite x) = (let n = nat (round_even (\<bar>x\<bar> * 10 ^ p)) in
     (if x < 0 then ''-'' else []) @ fmt_u (n div 10 ^ p) @
     (if p = 0 then [] else ''.'' @ pad_left p (CHR ''0'') (fmt_u (n mod 10 ^ p))))"
| "fmt_double nan p Infinite = ''inf''"
| "fmt_double nan p NaN = nan"

section \<open>Rounding to an integer\<close>

lemma round_even_of_int [simp]: "round_even (of_int k) = k"
  by (simp add: round_even_def)

lemma round_even_bounds: "\<lfloor>x\<rfloor> \<le> round_even x" "round_even x \<le> \<lfloor>x\<rfloor> + 1"
  by (simp_all add: round_even_def Let_def)

lemma round_even_error: "\<bar>of_int (round_even x) - x\<bar> \<le> 1 / 2"
proof -
  have "of_int \<lfloor>x\<rfloor> \<le> x" "x < of_int \<lfloor>x\<rfloor> + 1" by linarith+
  then show ?thesis by (auto simp: round_even_def Let_def abs_le_iff)
qed

lemma round_even_mono:
  assumes "x \<le> y"
  shows "round_even x \<le> round_even y"
proof (cases "\<lfloor>x\<rfloor> = \<lfloor>y\<rfloor>")
  case True
  then show ?thesis using assms by (auto simp: round_even_def Let_def)
next
  case False
  then have "\<lfloor>x\<rfloor> + 1 \<le> \<lfloor>y\<rfloor>" using floor_mono [OF assms] by linarith
  then show ?thesis using round_even_bounds [of x] round_even_bounds [of y] by linarith
qed

section \<open>The exponent\<close>

lemma powi_mono: "a \<le> b \<Longrightarrow> (2 :: rat) powi a \<le> 2 powi b"
  by (rule power_int_increasing) simp_all

lemma powi_pos [simp]: "0 < (2 :: rat) powi a"
  by (rule zero_less_power_int) simp

lemma powi_nat: "0 \<le> k \<Longrightarrow> (2 :: rat) powi k = 2 ^ nat k"
  by (simp add: power_int_def)

lemma ilog2_bounds:
  assumes "0 < x"
  shows "2 powi ilog2 x \<le> x" "x < 2 powi (ilog2 x + 1)"
proof -
  obtain n d where q: "quotient_of x = (n, d)" by (cases "quotient_of x")
  have d: "0 < d" using quotient_of_denom_pos [OF q] .
  have x: "x = of_int n / of_int d" using quotient_of_div [OF q] .
  have n: "0 < n" using assms d by (simp add: x zero_less_divide_iff)
  define k where "k = bitlen n - bitlen d"
  have bits: "1 \<le> bitlen n" "1 \<le> bitlen d" using n d by (simp_all add: bitlen_alt_def)
  have "(of_int n :: rat) < of_int (2 ^ nat (bitlen n))" "of_int (2 ^ nat (bitlen n - 1)) \<le> (of_int n :: rat)"
    "(of_int d :: rat) < of_int (2 ^ nat (bitlen d))" "of_int (2 ^ nat (bitlen d - 1)) \<le> (of_int d :: rat)"
    using bitlen_bounds [OF n] bitlen_bounds [OF d] by (simp_all only: of_int_less_iff of_int_le_iff)
  then have nb: "(of_int n :: rat) < 2 powi bitlen n" "2 powi (bitlen n - 1) \<le> (of_int n :: rat)"
    and db: "(of_int d :: rat) < 2 powi bitlen d" "2 powi (bitlen d - 1) \<le> (of_int d :: rat)"
    using bits by (simp_all add: powi_nat)
  have up: "x < 2 powi (k + 1)"
  proof -
    have "x < 2 powi bitlen n / of_int d" using nb(1) d by (simp add: x divide_strict_right_mono)
    also have "\<dots> \<le> 2 powi bitlen n / 2 powi (bitlen d - 1)" using db(2) d by (intro divide_left_mono) simp_all
    also have "\<dots> = 2 powi (k + 1)" by (simp add: k_def algebra_simps flip: power_int_diff)
    finally show ?thesis .
  qed
  have low: "2 powi (k - 1) \<le> x"
  proof -
    have "2 powi (k - 1) = 2 powi (bitlen n - 1) / (2 powi bitlen d :: rat)"
      by (simp add: k_def algebra_simps flip: power_int_diff)
    also have "\<dots> \<le> of_int n / 2 powi bitlen d" using nb(2) by (intro divide_right_mono) simp_all
    also have "\<dots> \<le> x" unfolding x using db(1) d n by (intro divide_left_mono) simp_all
    finally show ?thesis .
  qed
  have "2 powi k * of_int d \<le> (of_int n :: rat) \<longleftrightarrow> 2 powi k \<le> x" using d by (simp add: x field_simps)
  then have e: "ilog2 x = (if 2 powi k \<le> x then k else k - 1)" by (simp add: ilog2_def q k_def)
  show "2 powi ilog2 x \<le> x" "x < 2 powi (ilog2 x + 1)"
    using low up by (auto simp: e not_le)
qed

lemma ilog2_less: "0 < x \<Longrightarrow> x < 2 powi k \<Longrightarrow> ilog2 x < k"
  using ilog2_bounds(1) [of x] powi_mono [of k "ilog2 x"] by (rule_tac ccontr) (simp add: not_less)

lemma ilog2_mono: "0 < x \<Longrightarrow> x \<le> y \<Longrightarrow> ilog2 x \<le> ilog2 y"
  using ilog2_less [of x "ilog2 y + 1"] ilog2_bounds(2) [of y] by simp

lemma ulp_pos [simp]: "0 < ulp x" "ulp x \<noteq> 0"
  by (simp_all add: ulp_def less_imp_neq [symmetric])

section \<open>Rounding is monotone, and exact on short numbers\<close>

definition nearest :: "rat \<Rightarrow> rat" where
  "nearest x = of_int (round_even (x / ulp x)) * ulp x"

lemma rounded_nearest: "0 \<le> x \<Longrightarrow> rounded x = (if 2 ^ 1024 \<le> \<bar>nearest x\<bar> then Infinite else Finite (nearest x))"
  by (simp add: rounded_def nearest_def Let_def)

lemma grid_le:
  assumes "0 < u" "x \<le> of_int k * u"
  shows "of_int (round_even (x / u)) * u \<le> of_int k * u"
proof -
  have "x / u \<le> of_int k" using assms by (simp add: divide_le_eq)
  then have "round_even (x / u) \<le> k" using round_even_mono by (metis round_even_of_int)
  then show ?thesis using assms(1) by simp
qed

lemma grid_ge:
  assumes "0 < u" "of_int k * u \<le> x"
  shows "of_int k * u \<le> of_int (round_even (x / u)) * u"
proof -
  have "of_int k \<le> x / u" using assms by (simp add: le_divide_eq)
  then have "k \<le> round_even (x / u)" using round_even_mono by (metis round_even_of_int)
  then show ?thesis using assms(1) by simp
qed

lemma powi_multiple: "a \<le> b \<Longrightarrow> (2 :: rat) powi b = of_int (2 ^ nat (b - a)) * 2 powi a"
  by (simp flip: powi_nat power_int_add)

lemma nearest_nonneg: "0 \<le> x \<Longrightarrow> 0 \<le> nearest x"
  using grid_ge [of "ulp x" 0 x] by (simp add: nearest_def)

lemma nearest_mono:
  assumes "0 \<le> x" "x \<le> y"
  shows "nearest x \<le> nearest y"
proof (cases "x = 0 \<or> ulp x = ulp y")
  case True
  then show ?thesis
  proof
    assume "x = 0"
    moreover have "nearest 0 = 0" using round_even_of_int [of 0] by (simp add: nearest_def)
    ultimately show ?thesis using nearest_nonneg [of y] assms by simp
  next
    assume u: "ulp x = ulp y"
    have "x / ulp y \<le> y / ulp y" using assms(2) by (simp add: divide_right_mono less_imp_le)
    then show ?thesis using round_even_mono by (simp add: nearest_def u)
  qed
next
  case False
  then have x: "0 < x" "ulp x \<noteq> ulp y" using assms by simp_all
  have le: "ilog2 x \<le> ilog2 y" using ilog2_mono x(1) assms(2) by blast
  have "ilog2 x \<noteq> ilog2 y" using x(2) by (auto simp: ulp_def)
  moreover have "- 1074 < ilog2 y - 52"
  proof (rule ccontr)
    assume "\<not> - 1074 < ilog2 y - 52"
    then have "max (ilog2 x - 52) (- 1074) = max (ilog2 y - 52) (- 1074)" using le by simp
    then show False using x(2) by (simp only: ulp_def)
  qed
  ultimately have e: "ilog2 x < ilog2 y" "- 1074 < ilog2 y - 52" using le by simp_all
  let ?P = "2 powi ilog2 y :: rat"
  have "x \<le> ?P"
    using ilog2_bounds(2) [OF x(1)] powi_mono [of "ilog2 x + 1" "ilog2 y"] e(1) by simp
  moreover have "?P = of_int (2 ^ nat (ilog2 y - max (ilog2 x - 52) (- 1074))) * ulp x"
    unfolding ulp_def using e by (intro powi_multiple) simp
  ultimately have "nearest x \<le> ?P" unfolding nearest_def using grid_le [of "ulp x" x] by simp
  moreover have "?P \<le> y" using ilog2_bounds(1) [of y] x(1) assms(2) by simp
  moreover have "?P = of_int (2 ^ nat (ilog2 y - max (ilog2 y - 52) (- 1074))) * ulp y"
    unfolding ulp_def using e by (intro powi_multiple) simp
  ultimately have "?P \<le> nearest y"
    unfolding nearest_def using grid_ge [of "ulp y" "2 ^ nat (ilog2 y - max (ilog2 y - 52) (- 1074))" y] by simp
  with \<open>nearest x \<le> ?P\<close> show ?thesis by (rule order_trans)
qed

text \<open>Numbers of at most 53 bits are not changed.\<close>

lemma nearest_exact:
  assumes "0 \<le> m" "m < 2 ^ 53" "- 1074 \<le> q"
  shows "nearest (of_int m * 2 powi q) = of_int m * 2 powi q"
proof (cases "m = 0")
  case True
  then show ?thesis using round_even_of_int [of 0] by (simp add: nearest_def)
next
  case False
  define x where "x = (of_int m * 2 powi q :: rat)"
  define e where "e = max (ilog2 x - 52) (- 1074)"
  have m: "0 < m" using False assms(1) by simp
  then have pos: "0 < x" by (simp add: x_def)
  have "(of_int m :: rat) < of_int (2 ^ 53)" using assms(2) by (simp only: of_int_less_iff)
  then have "x < of_int (2 ^ 53) * 2 powi q" unfolding x_def by (rule mult_strict_right_mono) simp
  also have "of_int (2 ^ 53) * 2 powi q = (2 powi (53 + q) :: rat)"
    by (subst power_int_add) simp_all
  finally have "ilog2 x < 53 + q" by (rule ilog2_less [OF pos])
  then have "e \<le> q" using assms(3) by (simp add: e_def)
  from powi_multiple [OF this] have "x = of_int (m * 2 ^ nat (q - e)) * 2 powi e"
    by (simp only: x_def of_int_mult mult.assoc)
  then have x: "x = of_int (m * 2 ^ nat (q - e)) * ulp x" by (simp only: ulp_def e_def)
  have "x / ulp x = of_int (m * 2 ^ nat (q - e))"
    by (subst (1) x) (simp only: nonzero_mult_div_cancel_right [OF ulp_pos(2)])
  then have "nearest x = of_int (m * 2 ^ nat (q - e)) * ulp x" by (simp only: nearest_def round_even_of_int)
  then show ?thesis using x by (simp only: x_def)
qed

lemma nearest_error: "\<bar>nearest x - x\<bar> \<le> ulp x / 2"
proof -
  define k where "k = round_even (x / ulp x)"
  have "\<bar>of_int k - x / ulp x\<bar> * ulp x \<le> 1 / 2 * ulp x"
    unfolding k_def by (rule mult_right_mono [OF round_even_error]) (simp add: less_imp_le)
  moreover have "(of_int k - x / ulp x) * ulp x = nearest x - x"
    by (simp add: nearest_def left_diff_distrib k_def [symmetric])
  moreover have "\<bar>(of_int k - x / ulp x) * ulp x\<bar> = \<bar>of_int k - x / ulp x\<bar> * ulp x"
    using ulp_pos(1) [of x] by (simp only: abs_mult abs_of_pos)
  ultimately show ?thesis by simp
qed

text \<open>
  The result is a closest one: no number that the format can hold lies nearer to \<open>x\<close>. The multiples
  of \<open>ulp x\<close> around \<open>x\<close> have no such number between them.
\<close>

lemma ulp_between:
  assumes "0 < x" "of_int \<lfloor>x / ulp x\<rfloor> * ulp x < c" "c < of_int (\<lfloor>x / ulp x\<rfloor> + 1) * ulp x"
  shows "ulp c = ulp x"
proof -
  define e where "e = max (ilog2 x - 52) (- 1074)"
  define k where "k = \<lfloor>x / 2 powi e\<rfloor>"
  have u: "ulp x = 2 powi e" by (simp only: ulp_def e_def)
  have shift: "2 powi (e + of_nat n) = of_int (2 ^ n) * (2 powi e :: rat)" for n
    using powi_multiple [of e "e + of_nat n"] by simp
  have "0 \<le> x / 2 powi e" using assms(1) by simp
  then have k: "0 \<le> k" by (simp add: k_def)
  have c: "of_int k * 2 powi e < c" "c < of_int (k + 1) * 2 powi e"
    using assms(2,3) by (simp_all only: u k_def)
  have "0 < c" using k by (rule_tac le_less_trans [OF _ c(1)]) simp
  have "ilog2 x + 1 \<le> e + 53" unfolding e_def by linarith
  then have "x < 2 powi (e + 53)" by (rule less_le_trans [OF ilog2_bounds(2) [OF assms(1)] powi_mono])
  then have "x / 2 powi e < of_int (2 ^ 53)" using shift [of 53] by (simp add: divide_less_eq)
  then have "k + 1 \<le> 2 ^ 53" unfolding k_def by (simp only: floor_less_iff [symmetric] add1_zle_eq)
  then have "of_int (k + 1) * 2 powi e \<le> (of_int (2 ^ 53) * 2 powi e :: rat)"
    by (intro mult_right_mono) (simp_all only: of_int_le_iff powi_pos less_imp_le)
  with c(2) have "c < of_int (2 ^ 53) * 2 powi e" by (rule less_le_trans)
  then have "c < 2 powi (e + 53)" using shift [of 53] by simp
  then have up: "ilog2 c - 52 \<le> e" using ilog2_less [OF \<open>0 < c\<close>, of "e + 53"] by simp
  show ?thesis
  proof (cases "e = - 1074")
    case True
    with up have "max (ilog2 c - 52) (- 1074) = e" by simp
    then show ?thesis by (simp only: ulp_def e_def)
  next
    case False
    then have e: "ilog2 x = e + 52" by (simp add: e_def max_def split: if_splits)
    have "of_int (2 ^ 52) \<le> x / 2 powi e"
      using ilog2_bounds(1) [OF assms(1)] shift [of 52] by (simp add: e le_divide_eq)
    then have "2 ^ 52 \<le> k" unfolding k_def by (simp only: le_floor_iff)
    then have "of_int (2 ^ 52) * 2 powi e \<le> (of_int k * 2 powi e :: rat)"
      by (intro mult_right_mono) (simp_all only: of_int_le_iff powi_pos less_imp_le)
    then have "of_int (2 ^ 52) * 2 powi e < c" using c(1) by (rule le_less_trans)
    then have "2 powi (e + 52) < c" using shift [of 52] by simp
    then have "\<not> ilog2 c < e + 52"
      using ilog2_bounds(2) [OF \<open>0 < c\<close>] powi_mono [of "ilog2 c + 1" "e + 52"] by auto
    then have "max (ilog2 c - 52) (- 1074) = e" using up False by (simp add: e_def)
    then show ?thesis by (simp only: ulp_def e_def)
  qed
qed

lemma nearest_closest:
  assumes "0 \<le> x" "nearest c = c"
  shows "\<bar>nearest x - x\<bar> \<le> \<bar>c - x\<bar>"
proof (cases "x = 0")
  case True
  then show ?thesis using round_even_of_int [of 0] by (simp add: nearest_def)
next
  case False
  define u f where "u = ulp x" and "f = \<lfloor>x / u\<rfloor>"
  have u: "0 < u" by (simp add: u_def)
  have fx: "of_int f \<le> x / u" "x / u < of_int f + 1" unfolding f_def by linarith+
  have out: "c \<le> of_int f * u \<or> of_int (f + 1) * u \<le> c"
  proof (rule ccontr)
    assume "\<not> ?thesis"
    then have c: "of_int f * u < c" "c < of_int (f + 1) * u" by simp_all
    have "ulp c = u"
      unfolding u_def by (rule ulp_between) (use c False assms(1) in \<open>simp_all add: u_def f_def\<close>)
    then obtain j where "c = of_int j * u" using assms(2) by (metis nearest_def)
    with c u have "f < j" "j < f + 1" by (simp_all only: mult_less_cancel_right_pos of_int_less_iff)
    then show False by simp
  qed
  define k where "k = round_even (x / u)"
  have n: "nearest x = of_int k * u" by (simp add: nearest_def u_def k_def)
  have k: "k = f \<or> k = f + 1" "\<bar>of_int k - x / u\<bar> \<le> 1 / 2"
    using round_even_bounds [of "x / u"] round_even_error [of "x / u"] by (auto simp: k_def f_def)
  have x: "x = (x / u) * u" using u by simp
  have c: "c / u \<le> of_int f \<or> of_int (f + 1) \<le> c / u"
    using out u by (simp add: divide_le_eq le_divide_eq)
  have "\<bar>of_int k - y\<bar> \<le> \<bar>z - y\<bar>"
    if "\<bar>of_int k - y\<bar> \<le> 1 / 2" "z \<le> of_int f \<or> of_int (f + 1) \<le> z" "of_int f \<le> y" "y < of_int f + 1"
    for y z :: rat
    using k(1) that by (auto simp: abs_if split: if_splits)
  then have "\<bar>of_int k - x / u\<bar> \<le> \<bar>c / u - x / u\<bar>" using k(2) c fx by blast
  then have "\<bar>of_int k - x / u\<bar> * u \<le> \<bar>c / u - x / u\<bar> * u" by (rule mult_right_mono) (simp add: u less_imp_le)
  moreover have "\<bar>a - x / u\<bar> * u = \<bar>a * u - x\<bar>" for a
    using u by (metis abs_mult_pos left_diff_distrib less_imp_le x)
  ultimately show ?thesis using u by (simp add: n)
qed

text \<open>A result is on the same side of a number of at most 53 bits as the exact value.\<close>

lemma rounded_le:
  assumes "0 \<le> x" "x \<le> c" "nearest c = c" "c < 2 ^ 1024"
  shows "\<exists>y. rounded x = Finite y \<and> 0 \<le> y \<and> y \<le> c"
proof -
  have "nearest x \<le> c" using nearest_mono [OF assms(1,2)] assms(3) by simp
  then show ?thesis using nearest_nonneg [OF assms(1)] assms(4) by (simp add: rounded_nearest [OF assms(1)])
qed

lemma rounded_ge:
  assumes "0 \<le> c" "c \<le> x" "nearest c = c"
  shows "Finite c \<le> rounded x"
proof -
  have "0 \<le> x" using assms(1,2) by (rule order_trans)
  moreover have "c \<le> nearest x" using nearest_mono [OF assms(1,2)] assms(3) by simp
  ultimately show ?thesis by (simp add: rounded_nearest)
qed

lemma nearest_int: "0 \<le> m \<Longrightarrow> m < 2 ^ 53 \<Longrightarrow> nearest (of_int m) = of_int m"
  using nearest_exact [of m 0] by simp

lemma double_of_exact: "n < 2 ^ 53 \<Longrightarrow> double_of n = Finite (of_nat n)"
proof -
  assume n: "n < 2 ^ 53"
  then have "nearest (of_nat n) = of_nat n" using nearest_int [of "int n"] by simp
  moreover have "(of_nat n :: rat) < 2 ^ 1024"
  proof -
    have "n < 2 ^ 1024" by (rule less_trans [OF n power_strict_increasing]) simp_all
    then have "(of_nat n :: rat) < of_nat (2 ^ 1024)" by (simp only: of_nat_less_iff)
    then show ?thesis by (simp only: of_nat_power of_nat_numeral)
  qed
  ultimately show ?thesis by (simp add: double_of_def rounded_nearest not_le)
qed

lemma rounded_not_negative: "0 \<le> x \<Longrightarrow> \<not> rounded x < Finite 0"
  using nearest_nonneg [of x] by (simp add: rounded_nearest)

lemma rounded_cases:
  assumes "0 \<le> x"
  obtains "rounded x = Infinite" | y where "rounded x = Finite y" "0 \<le> y"
  using nearest_nonneg [OF assms] by (cases "2 ^ 1024 \<le> \<bar>nearest x\<bar>") (auto simp: rounded_nearest assms)

lemma quotient_not_negative:
  assumes "0 \<le> x" "0 \<le> y"
  shows "\<not> rounded x / rounded y < Finite 0"
  by (rule rounded_cases [OF assms(1)]; rule rounded_cases [OF assms(2)])
    (auto simp: rounded_not_negative split: if_splits)

end
