(* ===== verification/Bench.thy ===== *)
theory Bench
  imports Workload Commands Double
begin

text \<open>
  The throughput benchmarks of \<open>src/main.cpp\<close>, \<open>--benchmark\<close> and \<open>--bench-dispatch-cmp\<close>: the same
  program run over and over, on one and on both dispatch paths. What the clock measures is an
  argument of the commands; the arithmetic on measured times is that of \<open>Double\<close>.
\<close>

section \<open>Measured times\<close>

text \<open>
  A measurement is the number of nanoseconds between two readings of the clock. How the library
  prints a NaN is an argument too.
\<close>

record stopwatch =
  elapsed :: "nat \<Rightarrow> nat"
  nan_text :: string

definition fmt_f :: "stopwatch \<Rightarrow> nat \<Rightarrow> double \<Rightarrow> string" where
  "fmt_f sw p x = fmt_double (nan_text sw) p x"

text \<open>\<open>duration<double, std::nano>(t1 - t0).count()\<close> and the same in microseconds.\<close>

definition nanos :: "stopwatch \<Rightarrow> nat \<Rightarrow> double" where
  "nanos sw k = double_of (elapsed sw k)"

definition micros :: "stopwatch \<Rightarrow> nat \<Rightarrow> double" where
  "micros sw k = double_of (elapsed sw k) / Finite 1000"

section \<open>Repeated runs\<close>

text \<open>
  \<open>for (i = 0; i < n; ++i) { vm.reset_cpu_for_reuse(); vm.run(); }\<close>. \<open>None\<close> is a run that does
  not end, \<open>Inl\<close> an exception.
\<close>

primrec bench_runs :: "nat \<Rightarrow> 'w cfg \<Rightarrow> (string \<times> 'w + 'w cfg) option" where
  "bench_runs 0 c = Some (Inr c)"
| "bench_runs (Suc n) c = (case vm_run (reset_cpu_for_reuse (fst c), snd c) of
     None \<Rightarrow> None
   | Some (Thrown e, _, x) \<Rightarrow> Some (Inl (mismatch_what e, x))
   | Some (Returned r, c) \<Rightarrow> bench_runs n c)"

section \<open>--benchmark\<close>

definition bench_report :: "stopwatch \<Rightarrow> nat \<Rightarrow> u64 \<Rightarrow> u64 \<Rightarrow> string" where
  "bench_report sw n_iters cycles_per_run total_ops = (
     let total_ns = nanos sw 0;
         ns_per_op = total_ns / double_of (unat total_ops);
         ops_per_sec = double_of (unat total_ops) / (total_ns * rounded (1 / 10 ^ 9))
     in ''retrovm: benchmark synthetic workload'' @ nl @
        ''  program         : '' @ fmt_u (length bench_program) @ '' instructions, '' @
          fmt_u (length bench_program * 4) @ '' B'' @ nl @
        ''  inner loop      : '' @ fmt_u32 kBenchmarkLoopCount @ '' iterations  ->  '' @
          fmt_u64 cycles_per_run @ '' cycles/run'' @ nl @
        ''  opcode coverage : LI ADD SUB MUL DIV LOAD STORE JNZ HALT (no IN/RAND -> pure dispatch)'' @ nl @
        ''  warmup          : 1 untimed run'' @ nl @
        ''  runs            : '' @ fmt_u n_iters @ '' iterations'' @ nl @
        ''  total ops       : '' @ fmt_u64 total_ops @ '' retired instructions'' @ nl @
        ''  total time      : '' @ fmt_f sw 3 (total_ns / Finite (10 ^ 6)) @ '' ms'' @ nl @
        ''  ns / op         : '' @ fmt_f sw 2 ns_per_op @ '' ns/instruction'' @ nl @
        ''  instructions/s  : '' @ fmt_f sw 2 (ops_per_sec / Finite (10 ^ 6)) @ '' MIPS (millions per second)'' @ nl)"

definition cmd_benchmark :: "stopwatch \<Rightarrow> u32 \<Rightarrow> nat \<Rightarrow> world \<Rightarrow> (outcome \<times> world) option" where
  "cmd_benchmark sw entropy n_iters w =
     (case load_program (program_bytes bench_program) (VM_new host_in host_rand) of
        (False, _) \<Rightarrow> Some (Exit 1, print_err (''retrovm: benchmark program too large'' @ nl) w)
      | (True, vm) \<Rightarrow>
         (case vm_run (vm, w, mt_init entropy) of
            None \<Rightarrow> None
          | Some (Thrown e, _, w, _) \<Rightarrow> Some (Uncaught (mismatch_what e), w)
          | Some (Returned sanity, vm, w, g) \<Rightarrow>
              if sanity \<noteq> HALT_NORMAL then
                Some (Exit 1, print_err (''retrovm: benchmark sanity failed (halt='' @ fmt_u32 sanity @
                  '')'' @ nl) w)
              else
                let cycles_per_run = cycle_count (vm_state vm); expected = bench_expected in
                if cycles_per_run \<noteq> expected then
                  Some (Exit 1, print_err (''retrovm: benchmark cycle count drift (got '' @
                    fmt_u64 cycles_per_run @ '', want '' @ fmt_u64 expected @ '')'' @ nl) w)
                else
                  (case bench_runs 1 (vm, w, g) of
                     None \<Rightarrow> None
                   | Some (Inl (what, w, _)) \<Rightarrow> Some (Uncaught what, w)
                   | Some (Inr c) \<Rightarrow>
                      (case bench_runs n_iters c of
                         None \<Rightarrow> None
                       | Some (Inl (what, w, _)) \<Rightarrow> Some (Uncaught what, w)
                       | Some (Inr (_, w, _)) \<Rightarrow>
                           Some (Exit 0, print_out (bench_report sw n_iters cycles_per_run
                             (cycles_per_run * of_nat n_iters)) w)))))"

section \<open>--bench-dispatch-cmp\<close>

text \<open>\<open>run_mode\<close>: the nanoseconds per instruction, or -1. \<open>k\<close> numbers the measurement.\<close>

definition run_mode :: "stopwatch \<Rightarrow> nat \<Rightarrow> DispatchMode \<Rightarrow> nat \<Rightarrow> host \<Rightarrow>
    (string \<times> host + double \<times> host) option" where
  "run_mode sw k mode n_iters h =
     (case load_program (program_bytes bench_program) (set_dispatch_mode mode (VM_new host_in host_rand)) of
        (False, _) \<Rightarrow> Some (Inr (Finite (- 1), h))
      | (True, vm) \<Rightarrow>
         (case vm_run (vm, h) of
            None \<Rightarrow> None
          | Some (Thrown e, _, h) \<Rightarrow> Some (Inl (mismatch_what e, h))
          | Some (Returned sanity, vm, h) \<Rightarrow>
              if sanity \<noteq> HALT_NORMAL then Some (Inr (Finite (- 1), h))
              else if cycle_count (vm_state vm) \<noteq> 2 + 9 * 1024 + 1 then Some (Inr (Finite (- 1), h))
              else
                (case bench_runs 1 (vm, h) of
                   None \<Rightarrow> None
                 | Some (Inl e) \<Rightarrow> Some (Inl e)
                 | Some (Inr c) \<Rightarrow>
                    (case bench_runs n_iters c of
                       None \<Rightarrow> None
                     | Some (Inl e) \<Rightarrow> Some (Inl e)
                     | Some (Inr (vm, h)) \<Rightarrow>
                         Some (Inr (nanos sw k /
                           double_of (unat (cycle_count (vm_state vm) * of_nat n_iters)), h))))))"

definition cmd_benchmark_dispatch_cmp :: "stopwatch \<Rightarrow> u32 \<Rightarrow> nat \<Rightarrow> world \<Rightarrow> (outcome \<times> world) option" where
  "cmd_benchmark_dispatch_cmp sw entropy n_iters w =
     (case run_mode sw 0 ComputedGoto n_iters (w, mt_init entropy) of
        None \<Rightarrow> None
      | Some (Inl (what, w, _)) \<Rightarrow> Some (Uncaught what, w)
      | Some (Inr (ns_goto, h)) \<Rightarrow>
         (case run_mode sw 1 NaiveSwitch n_iters h of
            None \<Rightarrow> None
          | Some (Inl (what, w, _)) \<Rightarrow> Some (Uncaught what, w)
          | Some (Inr (ns_switch, w, _)) \<Rightarrow>
              if ns_goto < Finite 0 \<or> ns_switch < Finite 0 then
                Some (Exit 1, print_err (''retrovm --bench-dispatch-cmp: sanity check failed (refusing to print a divergent benchmark)'' @ nl) w)
              else
                let w = print_out (''computed-goto : '' @ fmt_f sw 2 ns_goto @ '' ns/op'' @ nl @
                          ''naive-switch  : '' @ fmt_f sw 2 ns_switch @ '' ns/op'' @ nl) w
                in Some (Exit 0,
                     if Finite 0 < ns_goto
                     then print_out (''speedup       : '' @ fmt_f sw 2 (ns_switch / ns_goto) @
                            ''x (goto -vs- switch)'' @ nl) w
                     else w)))"

section \<open>The workload on the machine\<close>

definition bench_ready :: "'w VM \<Rightarrow> bool" where
  "bench_ready vm \<longleftrightarrow> has_code (abs_vm vm) \<and> well_formed vm \<and> devices_present vm
     \<and> snap_interval (vm_state vm) = 0 \<and> halted (vm_state vm) = HALT_RUNNING
     \<and> pc (vm_state vm) = 0 \<and> cycle_count (vm_state vm) = 0"

lemma bench_run:
  assumes "bench_ready vm"
  shows "\<exists>vm'. vm_run (vm, x) = Some (Returned HALT_NORMAL, vm', x) \<and> cycle_count (vm_state vm') = 9219
    \<and> bench_ready (reset_cpu_for_reuse vm')"
proof -
  have a: "has_code (abs_vm vm)" "a_pc (abs_vm vm) = 0" "a_cycle (abs_vm vm) = 0"
    using assms by (simp add: bench_ready_def) (use assms in \<open>simp_all add: bench_ready_def abs_arch_def\<close>)
  from workload_halts [OF this] obtain t u where t: "isa_run [] (abs_vm vm) t" "isa_halt 1 t u"
    and u: "a_cycle u = 9219" "has_code u" by blast
  from silent_run_returns [OF t refl refl, of x] assms obtain vm'
    where run: "run_goto (vm, x) = Some (Returned HALT_NORMAL, vm', x)" and abs: "abs_vm vm' = u"
    by (auto simp: bench_ready_def HALT_NORMAL_def)
  have "vm_run (vm, x) = run_goto (vm, x)"
    using assms run_paths_agree [of "(vm, x)"] by (simp add: vm_run_def bench_ready_def)
  moreover have "unat (cycle_count (vm_state vm')) = 9219" using u(1) abs by (auto simp: abs_arch_def)
  then have "cycle_count (vm_state vm') = 9219" 
    by (simp add: word_unat_eq_iff)
  moreover have "bench_ready (reset_cpu_for_reuse vm')"
    using assms u(2) abs run_goto_fixed [OF run]
    by (auto simp: bench_ready_def reset_cpu_for_reuse_def well_formed_def devices_present_def
        same_fixed_def has_code_def abs_arch_def)
  ultimately show ?thesis using run by simp
qed

lemma bench_runs_ready:
  assumes "bench_ready (reset_cpu_for_reuse vm)"
  shows "\<exists>vm'. bench_runs n (vm, x) = Some (Inr (vm', x)) \<and> bench_ready (reset_cpu_for_reuse vm')
    \<and> (0 < n \<longrightarrow> cycle_count (vm_state vm') = 9219)"
  using assms
proof (induction n arbitrary: vm)
  case (Suc n)
  from bench_run [OF Suc.prems, of x] obtain v
    where v: "vm_run (reset_cpu_for_reuse vm, x) = Some (Returned HALT_NORMAL, v, x)"
      "cycle_count (vm_state v) = 9219" "bench_ready (reset_cpu_for_reuse v)" by blast
  from Suc.IH [OF v(3)] v show ?case by (cases n) auto
qed simp

lemma bench_bytes: "program_bytes bench_program =
  [0, 4, 0, 44, 1, 0, 128, 44, 0, 0, 16, 13, 0, 0, 144, 13, 0, 0, 0, 18, 0, 0, 144, 22,
   0, 0, 16, 27, 0, 1, 0, 9, 0, 1, 128, 7, 0, 0, 16, 16, 8, 0, 0, 32, 0, 0, 0, 0]"
  by (simp add: program_bytes_def bench_program_def encode_def const_defs kBenchmarkLoopCount_def
      le_bytes_def upt_rec)

text \<open>A loaded program as the instruction set sees it.\<close>

lemma abs_loaded:
  assumes "a + 4 \<le> length bs" "length bs \<le> MEM_SIZE"
  shows "a_load32 (abs_mem (\<lambda>x. if unat x < length bs then bs ! unat x else m x)) a =
    unat (bs ! a) + unat (bs ! (a + 1)) * 256 + unat (bs ! (a + 2)) * 65536 + unat (bs ! (a + 3)) * 16777216"
proof -
  have small: "abs_mem (\<lambda>x. if unat x < length bs then bs ! unat x else m x) n = unat (bs ! n)"
    if "n < length bs" for n
  proof -
    have "n < 2 ^ 20" using that assms(2) by (simp add: MEM_SIZE_def)
    then have "unat (word_of_nat n :: u32) = n" by (simp add: unsigned_of_nat take_bit_nat_eq_self)
    with that \<open>n < 2 ^ 20\<close> show ?thesis by (simp add: abs_mem_def)
  qed
  have "a + 3 < 2 ^ 20" using assms by (simp add: MEM_SIZE_def)
  then show ?thesis using assms(1) by (simp add: a_load32_def small)
qed

lemma bench_code:
  "i < 12 \<Longrightarrow> isa_decode (a_load32 (abs_mem (\<lambda>x. if unat x < length (program_bytes bench_program)
     then program_bytes bench_program ! unat x else m x)) (4 * i)) = bench_instrs ! i"
proof -
  assume i: "i < 12"
  let ?bs = "program_bytes bench_program"
  have len: "length ?bs = 48" by (simp add: bench_bytes)
  have "i \<in> {0, 1, 2, 3, 4, 5, 6, 7, 8, 9, 10, 11}" using i by (simp only: insert_iff empty_iff) arith
  then have "isa_decode (unat (?bs ! (4 * i)) + unat (?bs ! (4 * i + 1)) * 256
      + unat (?bs ! (4 * i + 2)) * 65536 + unat (?bs ! (4 * i + 3)) * 16777216) = bench_instrs ! i"
    by (elim insertE emptyE) (simp_all add: bench_bytes isa_decode_def Let_def bench_instrs_def)
  then show ?thesis
    using i by (subst abs_loaded) (simp_all add: len MEM_SIZE_def)
qed

lemma bench_load:
  "\<exists>vm. load_program (program_bytes bench_program) (set_dispatch_mode mode (VM_new f g)) = (True, vm)
     \<and> bench_ready vm"
proof -
  have "length (program_bytes bench_program) \<le> MEM_SIZE" by (simp add: bench_bytes MEM_SIZE_def)
  then show ?thesis
    by (simp add: load_program_def set_dispatch_mode_def VM_new_def reset_state_def VMState_init_def
        bench_ready_def well_formed_def devices_present_def has_code_def abs_arch_def bench_code)
qed

lemma bench_boot:
  obtains vm vm' where
    "load_program (program_bytes bench_program) (set_dispatch_mode mode (VM_new f g)) = (True, vm)"
    "vm_run (vm, x) = Some (Returned HALT_NORMAL, vm', x)" "cycle_count (vm_state vm') = 9219"
    "bench_ready (reset_cpu_for_reuse vm')"
proof -
  obtain vm where vm: "load_program (program_bytes bench_program) (set_dispatch_mode mode (VM_new f g)) = (True, vm)"
    "bench_ready vm"
    using bench_load by blast
  from bench_run [OF vm(2), of x] obtain vm' where "vm_run (vm, x) = Some (Returned HALT_NORMAL, vm', x)"
    "cycle_count (vm_state vm') = 9219" "bench_ready (reset_cpu_for_reuse vm')" by blast
  with vm(1) show thesis by (rule that)
qed

lemma set_default_mode: "set_dispatch_mode ComputedGoto (VM_new f g) = VM_new f g"
  by (simp add: set_dispatch_mode_def VM_new_def reset_state_def)

lemma run_mode_measures:
  "\<exists>d. run_mode sw k mode n h = Some (Inr (d, h)) \<and> \<not> d < Finite 0"
proof -
  from bench_boot [of mode host_in host_rand h] obtain vm vm1
    where 1: "load_program (program_bytes bench_program) (set_dispatch_mode mode (VM_new host_in host_rand)) = (True, vm)"
      "vm_run (vm, h) = Some (Returned HALT_NORMAL, vm1, h)" "cycle_count (vm_state vm1) = 9219"
      "bench_ready (reset_cpu_for_reuse vm1)" .
  from bench_runs_ready [OF 1(4), of 1 h] obtain vm2
    where 2: "bench_runs 1 (vm1, h) = Some (Inr (vm2, h))" "bench_ready (reset_cpu_for_reuse vm2)" by blast
  from bench_runs_ready [OF 2(2), of n h] obtain vm3
    where 3: "bench_runs n (vm2, h) = Some (Inr (vm3, h))" by blast
  have "\<not> nanos sw k / double_of a < Finite 0" for a
    unfolding nanos_def double_of_def by (rule quotient_not_negative) simp_all
  with 1 2(1) 3 show ?thesis by (simp add: run_mode_def del: bench_runs.simps)
qed

text \<open>
  C16: the benchmarks never refuse their workload. Whatever the clock shows and however many runs are
  asked for, \<open>--benchmark\<close> ends with 0 and reports the 9219 cycles per run it expects (its own sanity
  check) and that many retired instructions times the number of runs; \<open>--bench-dispatch-cmp\<close>
  completes the workload on both dispatch paths and ends with 0. Neither touches a file, reads
  input or writes to the error stream.
\<close>

theorem benchmarks_complete:
  "cmd_benchmark sw entropy n w = Some (Exit 0, print_out (bench_report sw n 9219 (9219 * of_nat n)) w)
   \<and> (\<exists>out. cmd_benchmark_dispatch_cmp sw entropy n w = Some (Exit 0, print_out out w))"
proof
  let ?h = "(w, mt_init entropy)"
  from bench_boot [of ComputedGoto host_in host_rand ?h, unfolded set_default_mode] obtain vm vm1
    where 1: "load_program (program_bytes bench_program) (VM_new host_in host_rand) = (True, vm)"
      "vm_run (vm, ?h) = Some (Returned HALT_NORMAL, vm1, ?h)" "cycle_count (vm_state vm1) = 9219"
      "bench_ready (reset_cpu_for_reuse vm1)" .
  from bench_runs_ready [OF 1(4), of 1 ?h] obtain vm2
    where 2: "bench_runs 1 (vm1, ?h) = Some (Inr (vm2, ?h))" "bench_ready (reset_cpu_for_reuse vm2)" by blast
  from bench_runs_ready [OF 2(2), of n ?h] obtain vm3
    where 3: "bench_runs n (vm2, ?h) = Some (Inr (vm3, ?h))" by blast
  have "bench_expected = 9219" by (simp add: bench_expected_def kBenchmarkLoopCount_def)
  with 1 2(1) 3 show "cmd_benchmark sw entropy n w =
      Some (Exit 0, print_out (bench_report sw n 9219 (9219 * of_nat n)) w)"
    by (simp add: cmd_benchmark_def Let_def del: bench_runs.simps)
next
  let ?h = "(w, mt_init entropy)"
  from run_mode_measures [of sw 0 ComputedGoto n ?h] obtain d
    where d: "run_mode sw 0 ComputedGoto n ?h = Some (Inr (d, ?h))" "\<not> d < Finite 0" by blast
  from run_mode_measures [of sw 1 NaiveSwitch n ?h] obtain e
    where e: "run_mode sw 1 NaiveSwitch n ?h = Some (Inr (e, ?h))" "\<not> e < Finite 0" by blast
  have "\<exists>out. print_out a w = print_out out w" for a by blast
  with d e show "\<exists>out. cmd_benchmark_dispatch_cmp sw entropy n w = Some (Exit 0, print_out out w)"
    by (auto simp: cmd_benchmark_dispatch_cmp_def Let_def)
qed

end
