(* ===== verification/Rewind.thy ===== *)
theory Rewind
  imports Bench Debugger
begin

text \<open>
  The rewind benchmarks of \<open>src/main.cpp\<close>, \<open>--bench-back\<close> and \<open>--bench-back-sweep\<close>: the program of
  the other benchmarks under a snapshot sink, and rounds of going back and forward again.
\<close>

section \<open>The captured state\<close>

definition kBenchRingCap :: nat where "kBenchRingCap = 256"

text \<open>The console and the generator, the ring, the history index and the target cycle.\<close>

type_synonym rewinder = "host \<times> Snapshot list \<times> nat \<times> u64"

definition rewinder_in :: "u64 \<Rightarrow> rewinder \<Rightarrow> (TraceMismatch + u32) \<times> rewinder" where
  "rewinder_in cycle x = (case x of (h, r) \<Rightarrow> case host_in cycle h of (v, h) \<Rightarrow> (v, h, r))"

definition rewinder_rand :: "u64 \<Rightarrow> rewinder \<Rightarrow> (TraceMismatch + u32) \<times> rewinder" where
  "rewinder_rand cycle x = (case x of (h, r) \<Rightarrow> case host_rand cycle h of (v, h) \<Rightarrow> (v, h, r))"

definition bench_sink :: "rewinder SnapshotSink" where
  "bench_sink vs s x = (case x of (h, ring, history_index, target_cycle) \<Rightarrow>
     let (req, target_cycle) =
           (if target_cycle \<noteq> UINT64_MAX \<and> s_cycle_count s \<ge> target_cycle
            then (Some HALT_STEP, UINT64_MAX) else (None, target_cycle));
         (ring, history_index) = ring_push kBenchRingCap Snapshot_init s (ring, history_index)
     in (req, h, ring, history_index, target_cycle))"

definition rewind_vm :: "u32 \<Rightarrow> bool \<times> rewinder VM" where
  "rewind_vm interval = (case load_program (program_bytes bench_program) (VM_new rewinder_in rewinder_rand) of
     (False, vm) \<Rightarrow> (False, vm)
   | (True, vm) \<Rightarrow> (True, set_snapshot_sink (Some bench_sink) (set_snapshot_interval interval vm)))"

section \<open>Back and forward\<close>

text \<open>
  The index that \<open>do_back\<close> goes to: in \<open>--bench-back\<close> a difference of \<open>size_t\<close> values, which wraps
  around; in \<open>--bench-back-sweep\<close> it stops at 0. Reading the ring out of range is undefined
  behaviour; here it is the unspecified value of \<open>!\<close>.
\<close>

definition backn_target :: "nat \<Rightarrow> nat \<Rightarrow> nat" where
  "backn_target depth history_index = unat (of_nat history_index - of_nat depth :: u64)"

definition sweep_target :: "nat \<Rightarrow> nat \<Rightarrow> nat" where
  "sweep_target depth history_index = (if depth > history_index then 0 else history_index - depth)"

definition do_back :: "(nat \<Rightarrow> nat) \<Rightarrow> rewinder cfg \<Rightarrow> rewinder cfg" where
  "do_back target c = (case c of (vm, h, ring, history_index, target_cycle) \<Rightarrow>
     let target_idx = target history_index;
         vm = vm\<lparr>vm_mem := undo_range (\<lambda>k. s_deltas (ring ! k)) target_idx history_index (vm_mem vm)\<rparr>;
         vm = set_state (restore_snapshot (ring ! target_idx) (vm_state vm)) vm
     in (vm, h, ring, target_idx, target_cycle))"

definition do_step :: "nat \<Rightarrow> rewinder cfg \<Rightarrow> (run_result \<times> rewinder cfg) option" where
  "do_step depth c = (case c of (vm, h, ring, history_index, target_cycle) \<Rightarrow>
     let vm = set_state ((vm_state vm)\<lparr>halted := HALT_RUNNING\<rparr>) vm
     in vm_run (vm, h, ring, history_index, cycle_count (vm_state vm) + of_nat depth))"

primrec rewind_rounds :: "(nat \<Rightarrow> nat) \<Rightarrow> nat \<Rightarrow> nat \<Rightarrow> rewinder cfg \<Rightarrow>
    (string \<times> rewinder + rewinder cfg) option" where
  "rewind_rounds target depth 0 c = Some (Inr c)"
| "rewind_rounds target depth (Suc n) c = (case do_step depth (do_back target c) of
     None \<Rightarrow> None
   | Some (Thrown e, _, x) \<Rightarrow> Some (Inl (mismatch_what e, x))
   | Some (Returned r, c) \<Rightarrow> rewind_rounds target depth n c)"

section \<open>--bench-back\<close>

definition backn_report :: "stopwatch \<Rightarrow> nat \<Rightarrow> nat \<Rightarrow> u64 \<Rightarrow> string \<times> int" where
  "backn_report sw n_iters depth cycles_per_run = (
     let total_us = micros sw 0;
         us_per_back_op = total_us / double_of n_iters;
         us_per_cycle_rewind = us_per_back_op / double_of depth;
         text = ''retrovm: benchmark back-N'' @ nl @
           ''  synthetic workload   : '' @ fmt_u (length bench_program) @ '' instructions, '' @
             fmt_u64 cycles_per_run @ '' cycles/run'' @ nl @
           ''  ring configuration   : snap_interval=1, capacity='' @ fmt_u kBenchRingCap @
             '' (cmd_debug hardcoded setting)'' @ nl @
           ''  depth (snapshots/op) : '' @ fmt_u depth @ nl @
           ''  timed iters          : '' @ fmt_u n_iters @ nl @
           ''  total back ops       : '' @ fmt_u n_iters @ nl @
           ''  total elapsed        : '' @ fmt_f sw 3 (total_us / Finite 1000) @ '' ms'' @ nl @
           ''  us / back op         : '' @ fmt_f sw 3 us_per_back_op @ '' us'' @ nl @
           ''  us / cycle rewind    : '' @ fmt_f sw 3 us_per_cycle_rewind @ '' us'' @ nl @
           ''  history_index        : 255 (ring cap saturated by eviction)'' @ nl
     in if us_per_back_op < Finite 1000
        then (text @ ''  result               : PASS (sub-millisecond claim substantiated)'' @ nl, 0)
        else (text @ ''  result               : FAIL (sub-millisecond claim refuted: '' @
                fmt_f sw 3 us_per_back_op @ '' us >= 1000 us)'' @ nl, 1))"

definition cmd_benchmark_backn :: "stopwatch \<Rightarrow> u32 \<Rightarrow> nat \<Rightarrow> nat \<Rightarrow> world \<Rightarrow> (outcome \<times> world) option" where
  "cmd_benchmark_backn sw entropy n_iters depth w =
     (if depth \<ge> kBenchRingCap then
        Some (Exit 1, print_err (''retrovm --bench-back: invalid depth '' @ sq @ fmt_u depth @ sq @
          '' (must be < '' @ fmt_u kBenchRingCap @
          ''; otherwise target_idx underflows when ring is saturated)'' @ nl) w)
      else
      case rewind_vm 1 of
        (False, _) \<Rightarrow> Some (Exit 1, print_err (''retrovm: benchmark program too large'' @ nl) w)
      | (True, vm) \<Rightarrow>
         (case vm_run (vm, (w, mt_init entropy), [], 0, UINT64_MAX) of
            None \<Rightarrow> None
          | Some (Thrown e, _, (w, _), _) \<Rightarrow> Some (Uncaught (mismatch_what e), w)
          | Some (Returned sanity, vm, (w, g), r) \<Rightarrow>
              if sanity \<noteq> HALT_NORMAL then
                Some (Exit 1, print_err (''retrovm: benchmark sanity failed (halt='' @ fmt_u32 sanity @
                  '')'' @ nl) w)
              else
                let cycles_per_run = cycle_count (vm_state vm) in
                if cycles_per_run \<noteq> bench_expected then
                  Some (Exit 1, print_err (''retrovm: benchmark cycle count drift (got '' @
                    fmt_u64 cycles_per_run @ '', want '' @ fmt_u64 bench_expected @ '')'' @ nl) w)
                else
                  (case rewind_rounds (backn_target depth) depth 1 (vm, (w, g), r) of
                     None \<Rightarrow> None
                   | Some (Inl (what, (w, _), _)) \<Rightarrow> Some (Uncaught what, w)
                   | Some (Inr c) \<Rightarrow>
                      (case rewind_rounds (backn_target depth) depth n_iters c of
                         None \<Rightarrow> None
                       | Some (Inl (what, (w, _), _)) \<Rightarrow> Some (Uncaught what, w)
                       | Some (Inr (_, (w, _), _)) \<Rightarrow>
                          (case backn_report sw n_iters depth cycles_per_run of
                             (text, rc) \<Rightarrow> Some (Exit rc, print_out text w))))))"

section \<open>--bench-back-sweep\<close>

definition kSweepItersDefault :: nat where "kSweepItersDefault = 200"

definition snap_intervals :: "nat list" where "snap_intervals = [1, 10, 100]"
definition sweep_depths :: "nat list" where "sweep_depths = [1, 50, 257, 512, 1024]"

text \<open>One cell of the table; \<open>k\<close> numbers the measurement.\<close>

definition sweep_cell :: "stopwatch \<Rightarrow> nat \<Rightarrow> nat \<Rightarrow> nat \<Rightarrow> nat \<Rightarrow> host \<Rightarrow>
    (string \<times> host + string \<times> host) option" where
  "sweep_cell sw k n_iters si depth h =
     (case rewind_vm (of_nat si) of
        (False, _) \<Rightarrow> Some (Inr (''    ERR!'', h))
      | (True, vm) \<Rightarrow>
         (case vm_run (vm, h, [], 0, UINT64_MAX) of
            None \<Rightarrow> None
          | Some (Thrown e, _, h, _) \<Rightarrow> Some (Inl (mismatch_what e, h))
          | Some (Returned sanity, vm, h, r) \<Rightarrow>
              if sanity \<noteq> HALT_NORMAL then Some (Inr (''    ERR!'', h))
              else if cycle_count (vm_state vm) \<noteq> 2 + 9 * 1024 + 1 then Some (Inr (''    ERR!'', h))
              else
                (case rewind_rounds (sweep_target depth) depth 1 (vm, h, r) of
                   None \<Rightarrow> None
                 | Some (Inl (what, h, _)) \<Rightarrow> Some (Inl (what, h))
                 | Some (Inr c) \<Rightarrow>
                    (case rewind_rounds (sweep_target depth) depth n_iters c of
                       None \<Rightarrow> None
                     | Some (Inl (what, h, _)) \<Rightarrow> Some (Inl (what, h))
                     | Some (Inr (_, h, _)) \<Rightarrow>
                         Some (Inr (pad_left 10 (CHR '' '') (fmt_f sw 3 (micros sw k / double_of n_iters)), h))))))"

text \<open>The cells of the table in order, printed as they are measured.\<close>

fun sweep_cells :: "stopwatch \<Rightarrow> nat \<Rightarrow> (nat \<times> nat \<times> nat) list \<Rightarrow> host \<Rightarrow> (string \<times> host + host) option" where
  "sweep_cells sw n_iters [] h = Some (Inr h)"
| "sweep_cells sw n_iters ((k, si, depth) # cs) (w, g) = (
     let col = k mod length sweep_depths;
         w = (if col = 0 then print_out (''    '' @ pad_left 13 (CHR '' '') (fmt_u si) @ '' |'') w else w)
     in case sweep_cell sw k n_iters si depth (w, g) of
          None \<Rightarrow> None
        | Some (Inl e) \<Rightarrow> Some (Inl e)
        | Some (Inr (text, w, g)) \<Rightarrow>
            sweep_cells sw n_iters cs
              (print_out (text @ (if col + 1 = length sweep_depths then nl else [])) w, g))"

definition sweep_grid :: "(nat \<times> nat \<times> nat) list" where
  "sweep_grid = concat (map (\<lambda>i. map (\<lambda>j. (i * length sweep_depths + j, snap_intervals ! i, sweep_depths ! j))
     [0..<length sweep_depths]) [0..<length snap_intervals])"

definition sweep_heading :: "nat \<Rightarrow> string" where
  "sweep_heading n_iters =
     ''retrovm: benchmark back-N sweep'' @ nl @
     ''  synthetic workload   : '' @ fmt_u (length bench_program) @ '' instructions, '' @
       fmt_u64 (2 + 9 * 1024 + 1) @ '' cycles/run'' @ nl @
     ''  timed iters / cell   : '' @ fmt_u n_iters @ nl @
     ''  snap_intervals (rows): {1, 10, 100}'' @ nl @
     ''  depths (cols)        : {1, 50, 257, 512, 1024}'' @ nl @ nl @
     ''  us / back op (lower = faster):'' @ nl @
     ''    snap_int '' @ [CHR 0x5C] @ '' depth |'' @ concat (map (\<lambda>d. pad_left 10 (CHR '' '') (fmt_u d)) sweep_depths) @ nl @
     ''    -----------------+'' @ concat (replicate 5 ''----------'') @ nl"

definition cmd_benchmark_back_sweep :: "stopwatch \<Rightarrow> u32 \<Rightarrow> nat \<Rightarrow> world \<Rightarrow> (outcome \<times> world) option" where
  "cmd_benchmark_back_sweep sw entropy n_iters w =
     (case sweep_cells sw n_iters sweep_grid (print_out (sweep_heading n_iters) w, mt_init entropy) of
        None \<Rightarrow> None
      | Some (Inl (what, w, _)) \<Rightarrow> Some (Uncaught what, w)
      | Some (Inr (w, _)) \<Rightarrow> Some (Exit 0, w))"

section \<open>The verdict of --bench-back\<close>

text \<open>
  The three roundings on the way to the time of one round do not move it across the limit: a total
  below the limit is at least a nanosecond below it, and is still below it, by less each time, as a
  number of 53 bits.
\<close>

lemma below_limit:
  assumes "0 < n" "n \<le> 100000000" and below: "t < 10 ^ 6 * n"
  shows "double_of t / Finite 1000 / double_of n < Finite 1000"
proof -
  have n: "double_of n = Finite (of_nat n)" using assms by (intro double_of_exact) simp
  have t: "double_of t = Finite (of_nat t)" using below assms by (intro double_of_exact) simp
  define c where "c = (of_int (1024000 * int n - 1) * 2 powi (- 10) :: rat)"
  define d where "d = (of_int (1000 * 2 ^ 37 - 1) * 2 powi (- 37) :: rat)"
  have exact: "nearest c = c" "nearest d = d"
    unfolding c_def d_def using assms by (intro nearest_exact; simp)+
  have c: "c = 1000 * of_nat n - 1 / 1024" by (simp add: c_def power_int_minus field_simps)
  have d: "d = 1000 - 1 / 2 ^ 37" by (simp add: d_def power_int_minus field_simps)
  have "(of_nat n :: rat) \<le> of_nat 100000000" using assms(2) by (simp only: of_nat_le_iff)
  then have bound: "(of_nat n :: rat) \<le> 100000000" by (simp only: of_nat_numeral)
  have pos: "0 < (of_nat n :: rat)" using assms(1) by simp
  have big: "(100000000000 :: rat) < 2 ^ 1024"
  proof -
    have "(100000000000 :: rat) < 2 ^ 40" by simp
    also have "\<dots> \<le> 2 ^ 1024" by (rule power_increasing) simp_all
    finally show ?thesis .
  qed
  have "t + 1 \<le> 10 ^ 6 * n" using below by simp
  then have "(of_nat (t + 1) :: rat) \<le> of_nat (10 ^ 6 * n)" by (simp only: of_nat_le_iff)
  then have "of_nat t / 1000 \<le> c" by (simp add: c)
  moreover have "c < 2 ^ 1024" by (rule le_less_trans [OF _ big]) (use bound in \<open>simp add: c\<close>)
  ultimately obtain y where y: "double_of t / Finite 1000 = Finite y" "0 \<le> y" "y \<le> c"
    using rounded_le [of "of_nat t / 1000" c] exact(1) by (auto simp: t)
  have "y \<le> d * of_nat n"
  proof -
    have "of_nat n / 2 ^ 37 \<le> (1 / 1024 :: rat)" using bound by simp
    then show ?thesis using y(3) by (simp add: c d algebra_simps)
  qed
  then have "y / of_nat n \<le> d" using pos by (simp add: divide_le_eq)
  moreover have "d < 2 ^ 1024" by (rule less_trans [OF _ big]) (simp add: d)
  moreover have "0 \<le> y / of_nat n" using y(2) pos by simp
  ultimately obtain z where "Finite y / double_of n = Finite z" "z \<le> d"
    using rounded_le [of "y / of_nat n" d] exact(2) pos by (auto simp: n)
  then show ?thesis using y(1) by (simp add: d)
qed

lemma above_limit:
  assumes "0 < n" "n \<le> 100000000" and above: "10 ^ 6 * n \<le> t"
  shows "\<not> double_of t / Finite 1000 / double_of n < Finite 1000"
proof -
  have n: "double_of n = Finite (of_nat n)" using assms by (intro double_of_exact) simp
  have pos: "0 < (of_nat n :: rat)" using assms(1) by simp
  have exact: "nearest (of_nat (10 ^ 6 * n)) = of_nat (10 ^ 6 * n)"
    "nearest (of_nat (1000 * n)) = of_nat (1000 * n)" "nearest 1000 = 1000"
    using nearest_int [of "int (10 ^ 6 * n)"] nearest_int [of "int (1000 * n)"] nearest_int [of 1000] assms
    by simp_all
  have "(of_nat (10 ^ 6 * n) :: rat) \<le> of_nat t" using above by (simp only: of_nat_le_iff not_less)
  with exact(1) have t: "Finite (of_nat (10 ^ 6 * n)) \<le> double_of t"
    unfolding double_of_def by (intro rounded_ge) simp_all
  have y: "Finite (of_nat (1000 * n)) \<le> double_of t / Finite 1000"
  proof (cases "double_of t")
    case (Finite x)
    then have "of_nat (1000 * n) \<le> x / 1000" using t by simp
    then show ?thesis using exact(2) by (simp add: Finite rounded_ge)
  qed (use t in simp_all)
  have "Finite 1000 \<le> double_of t / Finite 1000 / double_of n"
  proof (cases "double_of t / Finite 1000")
    case (Finite x)
    then have "1000 * of_nat n \<le> x" using y by simp
    then have "1000 \<le> x / of_nat n" using pos by (simp add: le_divide_eq)
    then show ?thesis using exact(3) pos by (simp add: Finite n rounded_ge)
  qed (use y in \<open>simp_all add: n\<close>)
  then show ?thesis by (cases "double_of t / Finite 1000 / double_of n") simp_all
qed

lemma backn_verdict:
  assumes "0 < n" "n \<le> 100000000"
  shows "snd (backn_report sw n depth c) = (if elapsed sw 0 < 10 ^ 6 * n then 0 else 1)"
  using below_limit [OF assms] above_limit [OF assms]
  by (simp add: backn_report_def Let_def micros_def not_less)

end
