(* ===== verification/RewindSteps.thy ===== *)
theory RewindSteps
  imports Rewind Session
begin

text \<open>
  The machine of the rewind benchmarks (\<open>src/main.cpp\<close>): what the sink does to the ring, and what one
  instruction of the workload does to the machine.
\<close>

section \<open>The program in memory\<close>

definition code_mem :: "mem \<Rightarrow> bool" where
  "code_mem m \<longleftrightarrow> (\<forall>i < 12. mem_load_u32 m (of_nat (4 * i)) = bench_program ! i)"

lemma all_12: "(\<forall>i < 12. P i) \<longleftrightarrow> P 0 \<and> P (Suc 0) \<and> P 2 \<and> P 3 \<and> P 4 \<and> P 5 \<and> P 6 \<and> P 7 \<and> P 8 \<and> P 9
    \<and> P 10 \<and> P (11 :: nat)"
proof
  assume h: "P 0 \<and> P (Suc 0) \<and> P 2 \<and> P 3 \<and> P 4 \<and> P 5 \<and> P 6 \<and> P 7 \<and> P 8 \<and> P 9 \<and> P 10 \<and> P 11"
  show "\<forall>i < 12. P i"
  proof safe
    fix i :: nat assume "i < 12"
    then have "i \<in> {0, Suc 0, 2, 3, 4, 5, 6, 7, 8, 9, 10, 11}" by (simp only: insert_iff empty_iff) arith
    with h show "P i" by blast
  qed
qed auto

text \<open>The workload stores to one cell only, behind its code.\<close>

lemma mem_load_below:
  assumes "unat a + 3 < 0x100"
  shows "mem_load_u32 (mem_store_u32 m 0x100 v) a = mem_load_u32 m a"
proof -
  have "mem_store_u32 m 0x100 v ((a + word_of_nat j) AND MEM_MASK) = m ((a + word_of_nat j) AND MEM_MASK)"
    if "j \<le> 3" for j
  proof -
    have "unat ((a + word_of_nat j) AND MEM_MASK) < 0x100"
      using assms that unfolding unat_masked_add by simp
    then show ?thesis by (intro mem_store_other) (auto simp: MEM_MASK_def)
  qed
  note this [of 0] this [of 1] this [of 2] this [of 3]
  then show ?thesis by (simp add: mem_load_u32_def Let_def masked_add)
qed

lemma code_mem_store: "code_mem (mem_store_u32 m 0x100 v) = code_mem m"
  unfolding code_mem_def all_12 by (simp add: mem_load_below)

lemma code_mem_loaded: "code_mem (\<lambda>a. if unat a < length (program_bytes bench_program)
    then program_bytes bench_program ! unat a else m a)" (is "code_mem ?m")
proof -
  have "unat (mem_load_u32 ?m (of_nat (4 * i))) = unat (bench_program ! i)" if "i < 12" for i
  proof -
    let ?bs = "program_bytes bench_program"
    have len: "length ?bs = 48" by (simp add: bench_bytes)
    have "unat (word_of_nat (4 * i) :: u32) = 4 * i"
      using that by (subst unsigned_of_nat) (simp add: take_bit_nat_eq_self)
    moreover have "a_load32 (abs_mem ?m) (4 * i) = unat (?bs ! (4 * i)) + unat (?bs ! (4 * i + 1)) * 256
        + unat (?bs ! (4 * i + 2)) * 65536 + unat (?bs ! (4 * i + 3)) * 16777216"
      using that by (intro abs_loaded) (simp_all add: len MEM_SIZE_def)
    moreover have "i \<in> {0, Suc 0, 2, 3, 4, 5, 6, 7, 8, 9, 10, 11}"
      using that by (simp only: insert_iff empty_iff) arith
    then have "unat (?bs ! (4 * i)) + unat (?bs ! (4 * i + 1)) * 256
        + unat (?bs ! (4 * i + 2)) * 65536 + unat (?bs ! (4 * i + 3)) * 16777216 = unat (bench_program ! i)"
      unfolding bench_bytes
      by (elim insertE emptyE) (simp_all add: bench_program_def encode_def const_defs kBenchmarkLoopCount_def)
    ultimately show ?thesis by (simp only: abs_load)
  qed
  then show ?thesis by (simp add: code_mem_def word_unat_eq_iff)
qed

definition harmless :: "MemDelta list \<Rightarrow> bool" where
  "harmless ds \<longleftrightarrow> (\<forall>d \<in> set ds. delta_addr d = 0x100)"

lemma harmless_simps [simp]: "harmless []" "harmless (ds @ ds') \<longleftrightarrow> harmless ds \<and> harmless ds'"
  by (auto simp: harmless_def)

lemma code_mem_undo: "harmless ds \<Longrightarrow> code_mem (undo_deltas ds m) = code_mem m"
proof (induction ds arbitrary: m rule: rev_induct)
  case (snoc d ds)
  then show ?case
    by (simp add: undo_deltas_snoc apply_old_value_store) (simp add: harmless_def code_mem_store)
qed simp

lemma code_mem_undo_range:
  "(\<And>k. lo < k \<Longrightarrow> k \<le> hi \<Longrightarrow> harmless (f k)) \<Longrightarrow> code_mem (undo_range f lo hi m) = code_mem m"
proof (induction "hi - lo" arbitrary: hi m)
  case 0
  then show ?case by (simp add: undo_range_def)
next
  case (Suc n)
  then have "lo < hi" by simp
  then show ?case using Suc by (simp add: undo_range_top code_mem_undo)
qed

lemma harmless_log: "harmless ds \<Longrightarrow> harmless (log_store m 0x100 ds)"
proof -
  assume h: "harmless ds"
  have "delta_addr \<lparr>run_count = rc, page = ucast (drop_bit 12 (0x100 :: u32) AND 0xFF),
     offset = ucast ((0x100 :: u32) AND 0xFFF), old_value = v\<rparr> = 0x100" for rc v
    using delta_addr_of_imm [of rc "0x100" v] by (simp add: MEM_MASK_def)
  moreover have "delta_addr (d\<lparr>run_count := rc\<rparr>) = delta_addr d" for d rc
    by (simp add: delta_addr_def)
  moreover have "set (butlast ds) \<subseteq> set ds" by (auto dest: in_set_butlastD)
  ultimately show "harmless (log_store m 0x100 ds)"
    using h by (auto simp: log_store_def harmless_def Let_def)
qed

section \<open>One instruction of the workload\<close>

text \<open>What the dispatch after the fetch at each address does.\<close>

lemma bench_jump:
  "jump_to (bench_program ! 0) (v, x) = Inl (set_reg 0 1024 v, x)"
  "jump_to (bench_program ! Suc 0) (v, x) = Inl (set_reg 1 1 v, x)"
  "jump_to (bench_program ! 2) (v, x) = do_ADD (2, 1, 0) (v, x)"
  "jump_to (bench_program ! 3) (v, x) = do_ADD (3, 1, 0) (v, x)"
  "jump_to (bench_program ! 4) (v, x) = do_SUB (4, 0, 0) (v, x)"
  "jump_to (bench_program ! 5) (v, x) = do_MUL (5, 1, 0) (v, x)"
  "jump_to (bench_program ! 6) (v, x) = do_DIV (6, 1, 0) (v, x)"
  "jump_to (bench_program ! 7) (v, x) = do_STORE (2, 0, 0x100) (v, x)"
  "jump_to (bench_program ! 8) (v, x) = do_LOAD (7, 0, 0x100) (v, x)"
  "jump_to (bench_program ! 9) (v, x) = do_SUB (0, 1, 0) (v, x)"
  "jump_to (bench_program ! 10) (v, x) = do_JNZ (0, 0, 8) (v, x)"
  "jump_to (bench_program ! 11) (v, x) = do_HALT (v, x)"
  by (simp_all add: jump_to_def bench_program_def encode_def decode_op_def decode_dst_def decode_src_def
      decode_imm_def const_defs kBenchmarkLoopCount_def dispatch_table_def do_LI_def word_le_nat_alt)

text \<open>The parts of the machine that a run of the benchmark never changes, and what it keeps.\<close>

definition bench_core :: "u32 \<Rightarrow> rewinder VM \<Rightarrow> bool" where
  "bench_core n vm \<longleftrightarrow> vm_sink vm = Some bench_sink \<and> vm_mode vm = ComputedGoto
     \<and> snap_interval (vm_state vm) = n \<and> n \<noteq> 0 \<and> snap_timer (vm_state vm) \<noteq> 0 \<and> snap_timer (vm_state vm) \<le> n
     \<and> length (regs (vm_state vm)) = 8 \<and> code_mem (vm_mem vm) \<and> harmless (vm_deltas vm)"

text \<open>The dispatch of the instruction in place \<open>i\<close>, up to the registers that control the loop.\<close>

definition executed :: "nat \<Rightarrow> rewinder VM \<Rightarrow> rewinder VM \<Rightarrow> bool" where
  "executed i v v' \<longleftrightarrow> (let r = regs (vm_state v); r' = regs (vm_state v') in
     r' ! 0 = (if i = 0 then 1024 else if i = 9 then r ! 0 - r ! 1 else r ! 0)
     \<and> r' ! 1 = (if i = 1 then 1 else r ! 1)
     \<and> pc (vm_state v') = (if i = 10 \<and> r ! 0 \<noteq> 0 then 8 else pc (vm_state v))
     \<and> cycle_count (vm_state v') = cycle_count (vm_state v)
     \<and> halted (vm_state v') = halted (vm_state v)
     \<and> snap_timer (vm_state v') = snap_timer (vm_state v))"

lemma bench_handler:
  assumes i: "i < 12" and core: "bench_core n v"
  shows "i = 11 \<Longrightarrow> jump_to (bench_program ! i) (v, x) = Inr (Returned HALT_NORMAL, set_halted HALT_NORMAL v, x)"
    and "i = 6 \<Longrightarrow> regs (vm_state v) ! 1 = 0 \<Longrightarrow> \<exists>v'. jump_to (bench_program ! i) (v, x) = Inr (Returned HALT_DIV_ZERO, v', x)
      \<and> bench_core n v' \<and> cycle_count (vm_state v') = cycle_count (vm_state v)"
    and "i \<noteq> 11 \<Longrightarrow> i \<noteq> 6 \<or> regs (vm_state v) ! 1 \<noteq> 0 \<Longrightarrow> \<exists>v'. jump_to (bench_program ! i) (v, x) = Inl (v', x)
      \<and> bench_core n v' \<and> executed i v v'"
proof -
  show "i = 11 \<Longrightarrow> jump_to (bench_program ! i) (v, x) = Inr (Returned HALT_NORMAL, set_halted HALT_NORMAL v, x)"
    by (simp add: bench_jump do_HALT_def)
  show "i = 6 \<Longrightarrow> regs (vm_state v) ! 1 = 0 \<Longrightarrow> \<exists>v'. jump_to (bench_program ! i) (v, x) = Inr (Returned HALT_DIV_ZERO, v', x)
      \<and> bench_core n v' \<and> cycle_count (vm_state v') = cycle_count (vm_state v)"
    using core by (simp add: bench_jump do_DIV_def access_defs bench_core_def)
  assume "i \<noteq> 11" and trap: "i \<noteq> 6 \<or> regs (vm_state v) ! 1 \<noteq> 0"
  with i have "i \<in> {0, Suc 0, 2, 3, 4, 5, 6, 7, 8, 9, 10}" by (simp only: insert_iff empty_iff) arith
  then show "\<exists>v'. jump_to (bench_program ! i) (v, x) = Inl (v', x) \<and> bench_core n v' \<and> executed i v v'"
    using core trap
    by (elim insertE emptyE; simp only: bench_jump)
      (simp_all add: handler_defs access_defs Let_def bench_core_def executed_def code_mem_store harmless_log)
qed

section \<open>The sink\<close>

lemma bench_tick:
  fixes u :: "rewinder VM"
  defines "st \<equiv> vm_state (advance u)"
  assumes core: "bench_core n u" and run: "halted (vm_state u) = HALT_RUNNING"
  shows "snap_tick (advance u, h, ring, hi, t) =
    (if snap_timer (vm_state u) = 1 then
       (let stop = t \<noteq> UINT64_MAX \<and> cycle_count st \<ge> t;
            (ring', hi') = ring_push 256 Snapshot_init (snapshot_of st (vm_deltas u)) (ring, hi)
        in (stop, (advance u)\<lparr>vm_state := st\<lparr>halted := if stop then HALT_STEP else HALT_RUNNING, snap_timer := n\<rparr>,
             vm_deltas := []\<rparr>, h, ring', hi', if stop then UINT64_MAX else t))
     else (False, upd_state (\<lambda>s. s\<lparr>snap_timer := snap_timer s - 1\<rparr>) (advance u), h, ring, hi, t))"
proof (cases "snap_timer (vm_state u) = 1")
  case True
  with core have "vm_sink (advance u) = Some bench_sink" "snap_interval (vm_state (advance u)) \<noteq> 0"
    "snap_timer (vm_state (advance u)) = 1"
    by (simp_all add: bench_core_def)
  from snap_tick_fire [OF this, of "(h, ring, hi, t)"] True core run show ?thesis
    by (auto simp: st_def bench_sink_def snapshot_of_def kBenchRingCap_def bench_core_def Let_def
        HALT_STEP_def HALT_RUNNING_def split: prod.splits)
next
  case False
  with core have "snap_interval (vm_state (advance u)) \<noteq> 0" "snap_timer (vm_state (advance u)) \<noteq> 1"
    by (simp_all add: bench_core_def)
  from snap_tick_wait [OF this] False show ?thesis by simp
qed

lemma bench_tick_core:
  assumes core: "bench_core n u" and run: "halted (vm_state u) = HALT_RUNNING"
    and tick: "snap_tick (advance u, x) = (b, v, x')"
  shows "bench_core n v" "regs (vm_state v) = regs (vm_state u)" "pc (vm_state v) = pc (vm_state u) + 4"
    "cycle_count (vm_state v) = cycle_count (vm_state u) + 1"
    "b \<longleftrightarrow> halted (vm_state v) = HALT_STEP" "\<not> b \<Longrightarrow> halted (vm_state v) = HALT_RUNNING"
    "snap_timer (vm_state v) = (if snap_timer (vm_state u) = 1 then n else snap_timer (vm_state u) - 1)"
proof -
  obtain h ring hi t where x: "x = (h, ring, hi, t)" by (metis prod_cases4)
  note t = bench_tick [OF core run, of h ring hi t, folded x, unfolded tick]
  have dec: "y \<noteq> 0 \<Longrightarrow> y \<le> n \<Longrightarrow> y \<noteq> 1 \<Longrightarrow> y - 1 \<noteq> 0 \<and> y - 1 \<le> n" for y
    by (simp add: word_le_nat_alt unat_minus_one)
  show "bench_core n v" "regs (vm_state v) = regs (vm_state u)" "pc (vm_state v) = pc (vm_state u) + 4"
    "cycle_count (vm_state v) = cycle_count (vm_state u) + 1"
    "b \<longleftrightarrow> halted (vm_state v) = HALT_STEP" "\<not> b \<Longrightarrow> halted (vm_state v) = HALT_RUNNING"
    "snap_timer (vm_state v) = (if snap_timer (vm_state u) = 1 then n else snap_timer (vm_state u) - 1)"
    using t core run dec [of "snap_timer (vm_state u)"]
    by (auto simp: bench_core_def Let_def upd_state_def HALT_STEP_def HALT_RUNNING_def
        split: if_splits prod.splits)
qed

text \<open>A step of the loop, at the instruction in place \<open>i\<close>.\<close>

lemma bench_step:
  assumes core: "bench_core n u" and run: "halted (vm_state u) = HALT_RUNNING"
    and i: "pc (vm_state u) = of_nat (4 * i)" "i < 12"
    and tick: "snap_tick (advance u, x) = (b, v, x')"
  obtains (stop) "b" "goto_step (u, x) = Inr (Returned HALT_STEP, v, x')"
  | (halt) "\<not> b" "i = 11" "goto_step (u, x) = Inr (Returned HALT_NORMAL, set_halted HALT_NORMAL v, x')"
  | (trap) v' where "\<not> b" "i = 6" "regs (vm_state u) ! 1 = 0"
      "goto_step (u, x) = Inr (Returned HALT_DIV_ZERO, v', x')" "bench_core n v'"
      "cycle_count (vm_state v') = cycle_count (vm_state v)"
  | (go) v' where "\<not> b" "i < 11" "goto_step (u, x) = Inl (v', x')" "bench_core n v'" "executed i v v'"
proof -
  note f = bench_tick_core [OF core run tick]
  have fetch: "fetch u = bench_program ! i"
    using core i by (simp add: fetch_def bench_core_def code_mem_def)
  note g = goto_step_eq [of u x, unfolded tick fetch, simplified]
  note h = bench_handler [OF i(2) f(1), of x']
  show thesis
  proof (cases b)
    case True
    with f(5) g have "goto_step (u, x) = Inr (Returned HALT_STEP, v, x')" by simp
    with True show thesis by (rule stop)
  next
    case False
    then have g: "goto_step (u, x) = jump_to (bench_program ! i) (v, x')" using g by simp
    consider "i = 11" | "i = 6" "regs (vm_state v) ! 1 = 0" | "i < 11" "i \<noteq> 6 \<or> regs (vm_state v) ! 1 \<noteq> 0"
      using i(2) by fastforce
    then show thesis
    proof cases
      case 1
      then show thesis using halt False g h(1) by simp
    next
      case 2
      then show thesis using trap False g h(2) f(2) by auto
    next
      case 3
      then show thesis using go False g h(3) by auto
    qed
  qed
qed

section \<open>The way to the halt\<close>

text \<open>
  The machine is about to fetch the instruction in place \<open>i\<close> with \<open>k\<close> rounds of the loop left;
  \<open>to_halt i k\<close> fetches lead to the halt.
\<close>

definition ctl :: "nat \<Rightarrow> nat \<Rightarrow> rewinder VM \<Rightarrow> bool" where
  "ctl i k vm \<longleftrightarrow> i < 12 \<and> pc (vm_state vm) = of_nat (4 * i) \<and> k < 2 ^ 32 \<and> (i < 2 \<longrightarrow> k = 1024)
     \<and> (i < 10 \<longrightarrow> 0 < k) \<and> (1 \<le> i \<longrightarrow> regs (vm_state vm) ! 0 = of_nat k)
     \<and> (2 \<le> i \<longrightarrow> regs (vm_state vm) ! 1 = 1)"

definition to_halt :: "nat \<Rightarrow> nat \<Rightarrow> nat" where
  "to_halt i k = (if i = 11 then 1 else if i = 10 then 9 * k + 2 else 9 * k + 3 - i)"

lemma ctl_next:
  assumes c: "ctl i k u" and i: "i < 11" and e: "executed i v v'"
    and v: "regs (vm_state v) = regs (vm_state u)" "pc (vm_state v) = pc (vm_state u) + 4"
  shows "\<exists>i' k'. ctl i' k' v' \<and> to_halt i k = Suc (to_halt i' k')"
proof -
  note d = ctl_def executed_def v Let_def to_halt_def
  have k: "of_nat k = (0 :: u32) \<longleftrightarrow> k = 0" if "k < 2 ^ 32"
    using that by (auto simp: word_of_nat_eq_0_iff dest: nat_dvd_not_less)
  consider "i = 10" | "i = 9" | "i < 9" using i by linarith
  then show ?thesis
  proof cases
    case 1
    then have "ctl (if k = 0 then 11 else 2) k v'" using c e k by (auto simp: d)
    moreover have "to_halt i k = Suc (to_halt (if k = 0 then 11 else 2) k)" using 1 by (simp add: to_halt_def)
    ultimately show ?thesis by blast
  next
    case 2
    then obtain l where l: "k = Suc l" using c by (cases k) (auto simp: ctl_def)
    have "ctl 10 l v'" using c e 2 by (simp add: d l)
    moreover have "to_halt i k = Suc (to_halt 10 l)" using 2 l by (simp add: to_halt_def)
    ultimately show ?thesis by blast
  next
    case 3
    then have "ctl (Suc i) k v'" using c e by (auto simp: d)
    moreover have "to_halt i k = Suc (to_halt (Suc i) k)" using 3 c by (auto simp: to_halt_def ctl_def)
    ultimately show ?thesis by blast
  qed
qed

section \<open>The ring\<close>

lemma ring_push_entries:
  fixes s :: 'a
  assumes ok: "ring_ok (ring, hi)" and push: "ring_push 256 z s (ring, hi) = (ring', hi')"
  shows "ring_ok (ring', hi')" "set ring' \<subseteq> insert s (set ring)" "ring' ! hi' = s" "0 < hi'"
    "i < hi' \<Longrightarrow> \<exists>j \<le> hi. ring' ! i = ring ! j"
proof -
  note p = ring_push_eq [OF ok, of z s, unfolded kRingCap_def push] and b = ring_bounds [OF ok]
  show "ring_ok (ring', hi')" "ring' ! hi' = s"
    using ring_push_ok [OF ok, of z s] ring_push_top [OF ok, of z s] push by (simp_all add: kRingCap_def)
  show "0 < hi'" using p by (auto split: if_splits)
  have tl: "set (tl xs) \<subseteq> set xs" for xs :: "'a list" by (cases xs) auto
  have "ring' = take (hi + 1) ring @ [s] \<or> ring' = tl (take (hi + 1) ring @ [s])"
    using p by (metis prod.inject)
  then have "set ring' \<subseteq> set (take (hi + 1) ring @ [s])"
    by (elim disjE) (simp_all only: order_refl tl)
  then show "set ring' \<subseteq> insert s (set ring)"
    using set_take_subset [of "hi + 1" ring] by auto
  assume i: "i < hi'"
  show "\<exists>j \<le> hi. ring' ! i = ring ! j"
  proof (cases "hi = 255")
    case True
    then have "ring' ! i = ring ! Suc i" "Suc i \<le> hi"
      using p b i by (auto simp: nth_append nth_tl)
    then show ?thesis by blast
  next
    case False
    then have "ring' ! i = ring ! i" "i \<le> hi"
      using p b i by (auto simp: nth_append)
    then show ?thesis by blast
  qed
qed

section \<open>The loaded machine\<close>

lemma rewind_boot:
  assumes "n \<noteq> 0"
  obtains vm where "rewind_vm n = (True, vm)" "bench_core n vm" "ctl 0 1024 vm"
    "halted (vm_state vm) = HALT_RUNNING" "cycle_count (vm_state vm) = 0" "snap_timer (vm_state vm) = n"
    "vm_io vm = \<lparr>on_nondeterministic = None, io_in = Some rewinder_in, io_rand = Some rewinder_rand\<rparr>"
    "vm_deltas vm = []"
proof -
  have "length (program_bytes bench_program) \<le> MEM_SIZE" by (simp add: bench_bytes MEM_SIZE_def)
  then have "\<exists>vm. rewind_vm n = (True, vm) \<and> bench_core n vm \<and> ctl 0 1024 vm
      \<and> halted (vm_state vm) = HALT_RUNNING \<and> cycle_count (vm_state vm) = 0 \<and> snap_timer (vm_state vm) = n
      \<and> vm_io vm = \<lparr>on_nondeterministic = None, io_in = Some rewinder_in, io_rand = Some rewinder_rand\<rparr>
      \<and> vm_deltas vm = []"
    using assms
    by (simp add: rewind_vm_def load_program_def VM_new_def reset_state_def VMState_init_def ctl_def
        set_snapshot_sink_def set_snapshot_interval_def bench_core_def code_mem_loaded)
  then show thesis using that by blast
qed

section \<open>Back and forward\<close>

text \<open>Going back to an entry of the ring and resuming there, as \<open>do_back\<close> and the start of \<open>do_step\<close> do.\<close>

definition sent_back :: "nat \<Rightarrow> nat \<Rightarrow> rewinder cfg \<Rightarrow> rewinder cfg" where
  "sent_back depth idx c = (case c of (vm, h, ring, hi, t) \<Rightarrow>
     (vm\<lparr>vm_mem := undo_range (\<lambda>k. s_deltas (ring ! k)) idx hi (vm_mem vm),
        vm_state := (restore_snapshot (ring ! idx) (vm_state vm))\<lparr>halted := HALT_RUNNING\<rparr>\<rparr>,
      h, ring, idx, s_cycle_count (ring ! idx) + of_nat depth))"

lemma do_step_sent_back: "do_step depth (do_back target c) = vm_run (sent_back depth (target (fst (snd (snd (snd c))))) c)"
  by (cases c) (simp add: do_step_def do_back_def sent_back_def Let_def set_state_def restore_snapshot_def)

lemma sent_back_core:
  assumes core: "bench_core n vm" and ring: "ring_ok (ring, hi)" "\<forall>s \<in> set ring. harmless (s_deltas s)"
  shows "bench_core n (fst (sent_back depth idx (vm, h, ring, hi, t)))"
proof -
  have "harmless (s_deltas (ring ! k))" if "k \<le> hi" for k
    using that ring_bounds [OF ring(1)] ring(2) by (simp add: nth_mem)
  then have "code_mem (undo_range (\<lambda>k. s_deltas (ring ! k)) idx hi (vm_mem vm))"
    using core by (simp add: code_mem_undo_range bench_core_def)
  with core show ?thesis
    by (simp add: sent_back_def bench_core_def restore_snapshot_def)
qed

end
