(* ===== verification/BackN.thy ===== *)
theory BackN
  imports RewindSteps
begin

text \<open>
  The rewind benchmark \<open>--bench-back\<close> (\<open>cmd_benchmark_backn\<close> in \<open>src/main.cpp\<close>): for most depths every
  round leaves the ring as it was; for the depths 10, 19, ..., 253 each round loses history until the
  index wraps around.
\<close>

section \<open>Snapshots on the way to the halt\<close>

text \<open>The snapshot of a fetch that is followed, in an undisturbed run, by \<open>m - 1\<close> more.\<close>

definition snap_at :: "nat \<Rightarrow> Snapshot \<Rightarrow> bool" where
  "snap_at m s \<longleftrightarrow> (\<exists>i k (u :: rewinder VM). ctl i k u \<and> to_halt i k = m
     \<and> s_pc s = pc (vm_state u) + 4 \<and> s_regs s = regs (vm_state u))"

text \<open>A sequence of pushes.\<close>

definition pushes :: "Snapshot list \<Rightarrow> Snapshot list \<times> nat \<Rightarrow> Snapshot list \<times> nat" where
  "pushes ss r = fold (ring_push 256 Snapshot_init) ss r"

lemma pushes_Nil [simp]: "pushes [] r = r"
  and pushes_Cons [simp]: "pushes (s # ss) r = pushes ss (ring_push 256 Snapshot_init s r)"
  by (simp_all add: pushes_def)

lemma pushes_ok:
  "ring_ok r \<Longrightarrow> ring_ok (pushes ss r) \<and> set (fst (pushes ss r)) \<subseteq> set ss \<union> set (fst r)"
proof (induction ss arbitrary: r)
  case (Cons s ss)
  obtain ring hi where r: "r = (ring, hi)" by (cases r)
  obtain ring' hi' where p: "ring_push 256 Snapshot_init s (ring, hi) = (ring', hi')" by fastforce
  note e = ring_push_entries [OF Cons.prems(1) [unfolded r] p]
  from e(1,2) Cons.IH [of "(ring', hi')"] show ?case by (auto simp: r p)
qed simp

text \<open>While the ring has room, a push appends; a full ring forgets from the front.\<close>

lemma pushes_room:
  "ring_ok (ring, hi) \<Longrightarrow> ss \<noteq> [] \<Longrightarrow> hi + length ss \<le> 255 \<Longrightarrow>
     pushes ss (ring, hi) = (take (hi + 1) ring @ ss, hi + length ss)"
proof (induction ss arbitrary: ring hi)
  case (Cons s ss)
  note b = ring_bounds [OF Cons.prems(1)]
  have p: "ring_push 256 Snapshot_init s (ring, hi) = (take (hi + 1) ring @ [s], hi + 1)"
    using ring_push_eq [OF Cons.prems(1), of Snapshot_init s] Cons.prems(3) by (simp add: kRingCap_def)
  have "ring_ok (take (hi + 1) ring @ [s], hi + 1)"
    using b Cons.prems(3) by (intro ring_okI) simp_all
  with Cons.IH [OF this] Cons.prems(3) b show ?case by (cases "ss = []") (simp_all add: p)
qed simp

lemma pushes_full:
  assumes "length ring = 256"
  shows "pushes ss (ring, 255) = (drop (length ss) (ring @ ss), 255)"
  using assms
proof (induction ss arbitrary: ring)
  case (Cons s ss)
  obtain a rest where ring: "ring = a # rest" using Cons.prems by (cases ring) simp_all
  have ok: "ring_ok (ring, 255)" using Cons.prems by (intro ring_okI) simp_all
  have p: "ring_push 256 Snapshot_init s (a # rest, 255) = (rest @ [s], 255)"
    using ring_push_eq [OF ok, of Snapshot_init s] Cons.prems by (simp add: kRingCap_def ring)
  show ?case
    using Cons.IH [of "rest @ [s]"] Cons.prems by (simp add: ring p)
qed simp

lemma pushes_append: "pushes (ss @ ss') r = pushes ss' (pushes ss r)"
  by (simp add: pushes_def)

text \<open>A long run leaves its last 256 snapshots.\<close>

lemma pushes_long:
  assumes "256 \<le> length ss"
  shows "pushes ss ([], 0) = (drop (length ss - 256) ss, 255)"
proof -
  let ?a = "take 255 ss" and ?b = "drop 255 ss"
  have ne: "?a \<noteq> []" using assms by (cases ss) auto
  have "pushes ?a ([], 0) = pushes ?a ([Snapshot_init], 0)"
    using ne by (cases ?a) (simp_all add: ring_push_def resize_def)
  also have "\<dots> = (Snapshot_init # ?a, 255)"
    using pushes_room [of "[Snapshot_init]" 0 ?a] ne assms ring_okI [of 0 "[Snapshot_init]"] by simp
  finally have a: "pushes ?a ([], 0) = (Snapshot_init # ?a, 255)" .
  have "pushes ss ([], 0) = pushes ?b (pushes ?a ([], 0))"
    by (simp only: pushes_append [symmetric] append_take_drop_id)
  also have "\<dots> = (drop (length ?b) (Snapshot_init # ?a @ ?b), 255)"
    using assms unfolding a by (subst pushes_full) simp_all
  also have "length ?b = Suc (length ss - 256)" using assms by simp
  also have "drop (Suc (length ss - 256)) (Snapshot_init # ?a @ ?b) = drop (length ss - 256) ss"
    by (simp only: drop_Suc_Cons append_take_drop_id)
  finally show ?thesis .
qed

lemma to_halt_one:
  assumes "ctl i k u" "to_halt i k = 1"
  shows "i = 11"
proof (rule ccontr)
  assume i: "i \<noteq> 11"
  have "i < 12" "i < 10 \<Longrightarrow> 0 < k" using assms(1) by (simp_all add: ctl_def)
  with i assms(2) show False by (cases "i = 10") (simp_all add: to_halt_def)
qed

section \<open>A run with a snapshot at every fetch\<close>

definition fires :: "u64 \<Rightarrow> u64 \<Rightarrow> bool" where
  "fires t c \<longleftrightarrow> t \<noteq> UINT64_MAX \<and> t \<le> c"

text \<open>
  The run takes \<open>n\<close> snapshots: up to the first cycle at which the target is reached, or up to the halt.
\<close>

lemma snapshot_run:
  assumes "bench_core 1 vm" "halted (vm_state vm) = HALT_RUNNING" "ctl i k vm"
    and "0 < n" "n \<le> to_halt i k"
    and "\<And>j. 0 < j \<Longrightarrow> j < n \<Longrightarrow> \<not> fires t (cycle_count (vm_state vm) + of_nat j)"
    and "fires t (cycle_count (vm_state vm) + of_nat n) \<or> n = to_halt i k"
  shows "\<exists>v ss t'. run_goto (vm, h, ring, hi, t) =
      Some (Returned (if fires t (cycle_count (vm_state vm) + of_nat n) then HALT_STEP else HALT_NORMAL),
        v, h, fst (pushes ss (ring, hi)), snd (pushes ss (ring, hi)), t')
    \<and> bench_core 1 v \<and> cycle_count (vm_state v) = cycle_count (vm_state vm) + of_nat n \<and> length ss = n
    \<and> (\<forall>j < n. snap_at (to_halt i k - j) (ss ! j) \<and> harmless (s_deltas (ss ! j))
        \<and> s_cycle_count (ss ! j) = cycle_count (vm_state vm) + of_nat (Suc j))"
  using assms
proof (induction n arbitrary: vm i k ring hi)
  case (Suc n)
  note core = Suc.prems(1) and run = Suc.prems(2) and ctl = Suc.prems(3)
  let ?c = "cycle_count (vm_state vm)"
  define s where "s = snapshot_of (vm_state (advance vm)) (vm_deltas vm)"
  have i: "pc (vm_state vm) = of_nat (4 * i)" "i < 12" using ctl by (simp_all add: ctl_def)
  obtain b v x where tick: "snap_tick (advance vm, h, ring, hi, t) = (b, v, x)" by (metis prod_cases3)
  note f = bench_tick_core [OF core run tick]
  obtain ring' hi' where push: "ring_push 256 Snapshot_init s (ring, hi) = (ring', hi')" by fastforce
  have one: "y = 1" if "y \<noteq> 0" "y \<le> 1" for y :: u32
    using that by (simp add: word_le_nat_alt word_unat_eq_iff)
  have "snap_timer (vm_state vm) = 1" using core by (intro one) (simp_all add: bench_core_def)
  with bench_tick [OF core run, of h ring hi t, unfolded tick, folded s_def] push
  have b: "b \<longleftrightarrow> fires t (?c + 1)" and "\<exists>t'. x = (h, ring', hi', t') \<and> (\<not> b \<longrightarrow> t' = t)"
    by (auto simp: fires_def Let_def)
  then obtain t1 where x: "x = (h, ring', hi', t1)" and t1: "\<not> b \<Longrightarrow> t1 = t" by blast
  have s: "snap_at (to_halt i k) s" "harmless (s_deltas s)" "s_cycle_count s = ?c + 1"
    using ctl core by (auto simp: s_def snap_at_def snapshot_of_def bench_core_def)
  show ?case
  proof (cases "n = 0")
    case True
    have "\<exists>w t'. goto_step (vm, h, ring, hi, t) = Inr (Returned (if b then HALT_STEP else HALT_NORMAL), w, h, ring', hi', t')
      \<and> bench_core 1 w \<and> cycle_count (vm_state w) = ?c + 1"
    proof (cases b)
      case True
      then have "goto_step (vm, h, ring, hi, t) = Inr (Returned HALT_STEP, v, x)"
        by - (rule bench_step [OF core run i tick], simp_all)
      with True x f(1,4) show ?thesis by simp
    next
      case False
      with b True have "\<not> fires t (?c + of_nat (Suc n))" by simp
      with Suc.prems(7) have "to_halt i k = Suc n" by metis
      with True have "to_halt i k = 1" by simp
      with ctl have "i = 11" by (rule to_halt_one)
      moreover have "bench_core 1 (set_halted HALT_NORMAL v)" using f(1) by (simp add: bench_core_def access_defs)
      moreover from \<open>i = 11\<close> False have "goto_step (vm, h, ring, hi, t) = Inr (Returned HALT_NORMAL, set_halted HALT_NORMAL v, x)"
        by - (rule bench_step [OF core run i tick], simp_all)
      moreover have "cycle_count (vm_state (set_halted HALT_NORMAL v)) = ?c + 1"
        using f(4) by (simp add: access_defs)
      ultimately show ?thesis using False x by simp
    qed
    then obtain w t' where "goto_step (vm, h, ring, hi, t) = Inr (Returned (if b then HALT_STEP else HALT_NORMAL), w, h, ring', hi', t')"
      "bench_core 1 w" "cycle_count (vm_state w) = ?c + 1" by blast
    then show ?thesis
      using True s b push by (intro exI [of _ w] exI [of _ "[s]"] exI [of _ t']) (simp add: run_goto_def run_loop_stop)
  next
    case False
    have "\<not> b" using b Suc.prems(6) [of 1] False by simp
    moreover have "i \<noteq> 11" using Suc.prems(5) False by (auto simp: to_halt_def)
    moreover have "\<not> (i = 6 \<and> regs (vm_state vm) ! 1 = 0)" using ctl by (auto simp: ctl_def)
    ultimately obtain w where w: "goto_step (vm, h, ring, hi, t) = Inl (w, x)" "bench_core 1 w" "executed i v w" "i < 11"
      by - (rule bench_step [OF core run i tick], auto)
    note x = x [unfolded t1 [OF \<open>\<not> b\<close>]]
    from ctl_next [OF ctl w(4,3) f(2,3)] obtain i' k' where ctl': "ctl i' k' w" "to_halt i k = Suc (to_halt i' k')"
      by blast
    have "halted (vm_state w) = HALT_RUNNING" and cyc: "cycle_count (vm_state w) = ?c + 1"
      using w(3) f(4,6) \<open>\<not> b\<close> by (simp_all add: executed_def Let_def)
    have plus: "cycle_count (vm_state w) + of_nat j = ?c + of_nat (Suc j)" for j
      by (simp add: cyc)
    have "\<not> fires t (cycle_count (vm_state w) + of_nat j)" if "0 < j" "j < n" for j
      unfolding plus using Suc.prems(6) [of "Suc j"] that by simp
    moreover have "fires t (cycle_count (vm_state w) + of_nat n) \<or> n = to_halt i' k'"
      unfolding plus using Suc.prems(7) ctl'(2) by simp
    ultimately obtain v' ss t' where r: "run_goto (w, h, ring', hi', t) =
        Some (Returned (if fires t (cycle_count (vm_state w) + of_nat n) then HALT_STEP else HALT_NORMAL),
          v', h, fst (pushes ss (ring', hi')), snd (pushes ss (ring', hi')), t')"
      and v': "bench_core 1 v'" "cycle_count (vm_state v') = cycle_count (vm_state w) + of_nat n" "length ss = n"
      and ss: "\<forall>j < n. snap_at (to_halt i' k' - j) (ss ! j) \<and> harmless (s_deltas (ss ! j))
        \<and> s_cycle_count (ss ! j) = cycle_count (vm_state w) + of_nat (Suc j)"
      using Suc.IH [OF w(2) _ ctl'(1), of ring' hi'] Suc.prems(5) ctl'(2) False \<open>halted (vm_state w) = HALT_RUNNING\<close>
      by auto
    have "snap_at (to_halt i k - j) ((s # ss) ! j) \<and> harmless (s_deltas ((s # ss) ! j))
        \<and> s_cycle_count ((s # ss) ! j) = ?c + of_nat (Suc j)" if "j < Suc n" for j
      using s ss that ctl'(2) plus by (cases j) simp_all
    moreover have "run_goto (vm, h, ring, hi, t) = run_goto (w, h, ring', hi', t)"
      using w(1) x by (simp add: run_goto_def run_loop_next)
    ultimately show ?thesis
      using r v' by (intro exI [of _ v'] exI [of _ "s # ss"] exI [of _ t']) (simp add: push plus)
  qed
qed simp

section \<open>The ring between the rounds\<close>

text \<open>
  After the first run the newest entry is the fetch of the halt, at cycle 9219; \<open>m\<close> entries below the
  index are as that run left them.
\<close>

definition as_left :: "nat \<Rightarrow> Snapshot list \<Rightarrow> bool" where
  "as_left j ring \<longleftrightarrow> snap_at (256 - j) (ring ! j) \<and> s_cycle_count (ring ! j) = of_nat (8964 + j)"

definition between :: "host \<Rightarrow> nat \<Rightarrow> rewinder cfg \<Rightarrow> bool" where
  "between h hi c \<longleftrightarrow> (case c of (vm, h', ring, hi', t) \<Rightarrow>
     h' = h \<and> hi' = hi \<and> bench_core 1 vm \<and> ring_ok (ring, hi) \<and> (\<forall>s \<in> set ring. harmless (s_deltas s)))"

definition ring_in :: "rewinder cfg \<Rightarrow> Snapshot list" where
  "ring_in c = fst (snd (snd c))"

lemma first_run_ring:
  obtains vm c where "rewind_vm 1 = (True, vm)"
    "vm_run (vm, h, [], 0, UINT64_MAX) = Some (Returned HALT_NORMAL, c)"
    "cycle_count (vm_state (fst c)) = 9219" "between h 255 c" "\<forall>j < 256. as_left j (ring_in c)"
proof -
  obtain vm where vm: "rewind_vm 1 = (True, vm)" "bench_core 1 vm" "ctl 0 1024 vm"
    "halted (vm_state vm) = HALT_RUNNING" "cycle_count (vm_state vm) = 0"
    using rewind_boot [of 1] by auto
  have far: "to_halt 0 1024 = 9219" by (simp add: to_halt_def)
  have never: "\<not> fires UINT64_MAX k" for k by (simp add: fires_def)
  from snapshot_run [OF vm(2,4,3), of 9219 UINT64_MAX h "[]" 0, unfolded far vm(5)] never
  obtain v ss t' where r: "run_goto (vm, h, [], 0, UINT64_MAX) =
      Some (Returned HALT_NORMAL, v, h, fst (pushes ss ([], 0)), snd (pushes ss ([], 0)), t')"
    and v: "bench_core 1 v" "cycle_count (vm_state v) = 9219" and len: "length ss = 9219"
    and ss: "\<forall>j < 9219. snap_at (9219 - j) (ss ! j) \<and> harmless (s_deltas (ss ! j))
        \<and> s_cycle_count (ss ! j) = of_nat (Suc j)"
    by auto
  let ?ring = "drop 8963 ss"
  have p: "pushes ss ([], 0) = (?ring, 255)" using pushes_long [of ss] len by simp
  have entry: "?ring ! j = ss ! (8963 + j)" "8963 + j < 9219" if "j < 256" for j
    using that len by simp_all
  have "\<forall>s \<in> set ?ring. harmless (s_deltas s)"
    using ss len by (auto simp: in_set_conv_nth)
  then have "between h 255 (v, h, ?ring, 255, t')"
    using v(1) len by (auto simp: between_def intro!: ring_okI)
  moreover have "as_left j ?ring" if "j < 256" for j
    using ss [rule_format, OF entry(2) [OF that]] entry(1) [OF that] that by (simp add: as_left_def)
  moreover have "vm_run (vm, h, [], 0, UINT64_MAX) = Some (Returned HALT_NORMAL, v, h, ?ring, 255, t')"
    using r vm(2) p by (simp add: vm_run_def bench_core_def)
  ultimately show thesis using that [OF vm(1)] v(2) by (auto simp: ring_in_def)
qed

section \<open>A round\<close>

text \<open>
  Where the machine goes on after a rewind to the entry \<open>e\<close> below the halt: the instruction of that
  entry is skipped. If it closes the loop, the halt is next; otherwise there are enough fetches.
\<close>

lemma sent_back_ctl:
  assumes s: "snap_at (Suc e) (ring ! idx)" and e: "0 < e" "e < 256"
  shows "\<exists>i k. ctl i k (fst (sent_back d idx (vm, h, ring, hi, t)))
    \<and> (if e mod 9 = 1 then to_halt i k = 1 else e \<le> to_halt i k)"
proof -
  obtain i k and u :: "rewinder VM" where ctl: "ctl i k u" and far: "to_halt i k = Suc e"
    and pc: "s_pc (ring ! idx) = pc (vm_state u) + 4" and regs: "s_regs (ring ! idx) = regs (vm_state u)"
    using s by (auto simp: snap_at_def)
  have i: "i < 12" "i < 10 \<Longrightarrow> 0 < k" "i < 2 \<Longrightarrow> k = 1024" using ctl by (simp_all add: ctl_def)
  have "i \<noteq> 11" using far e by (auto simp: to_halt_def)
  moreover have "2 \<le> i"
  proof (rule ccontr)
    assume "\<not> 2 \<le> i"
    with i(3) far e(2) show False by (simp add: to_halt_def)
  qed
  ultimately have i': "2 \<le> i" "i \<le> 10" using i(1) by simp_all
  have "ctl (Suc i) k (fst (sent_back d idx (vm, h, ring, hi, t)))"
    using ctl i' pc regs by (auto simp: ctl_def sent_back_def restore_snapshot_def)
  moreover have "if e mod 9 = 1 then to_halt (Suc i) k = 1 else e \<le> to_halt (Suc i) k"
  proof -
    consider "i = 10" | "i = 9" | "i < 9" using i'(2) by linarith
    then show ?thesis
    proof cases
      case 1
      then have "e = 1 + 9 * k" using far by (simp add: to_halt_def)
      then have "e mod 9 = 1" by simp
      with 1 show ?thesis by (simp add: to_halt_def)
    next
      case 2
      with i(2) obtain l where "k = Suc l" by (cases k) auto
      then have "e = 2 + 9 * l" using far 2 by (simp add: to_halt_def)
      then have "e mod 9 = 2" by presburger
      with 2 \<open>e = 2 + 9 * l\<close> \<open>k = Suc l\<close> show ?thesis by (simp add: to_halt_def)
    next
      case 3
      then have "e + i = 9 * k + 2" "0 < k" using far i(2) by (simp_all add: to_halt_def)
      moreover from this i'(1) 3 have "e mod 9 \<noteq> 1" by presburger
      ultimately show ?thesis using 3 by (simp add: to_halt_def)
    qed
  qed
  ultimately show ?thesis by blast
qed

lemma fires_iff:
  "a + d < 2 ^ 64 - 1 \<Longrightarrow> a + j < 2 ^ 64 \<Longrightarrow> fires (of_nat a + of_nat d) (of_nat a + of_nat j) \<longleftrightarrow> d \<le> j"
proof -
  assume a: "a + d < 2 ^ 64 - 1" "a + j < 2 ^ 64"
  have u: "unat (of_nat (a + k) :: u64) = a + k" if "a + k < 2 ^ 64" for k
    using that by (subst unsigned_of_nat) (simp add: take_bit_nat_eq_self)
  have "of_nat (a + d) \<noteq> UINT64_MAX"
  proof
    assume "of_nat (a + d) = UINT64_MAX"
    with u [of d] a(1) show False
      by (simp add: UINT64_MAX_def unsigned_minus_1_eq_mask mask_eq_exp_minus_1)
  qed
  moreover have "of_nat (a + d) \<le> (of_nat (a + j) :: u64) \<longleftrightarrow> d \<le> j"
    using a by (simp only: word_le_nat_alt u)  simp
  ultimately show ?thesis by (simp only: fires_def of_nat_add) simp
qed

lemma backn_target_in: "depth \<le> hi \<Longrightarrow> hi < 2 ^ 64 \<Longrightarrow> backn_target depth hi = hi - depth"
  unfolding backn_target_def
  by (subst of_nat_diff [symmetric], assumption) (subst unsigned_of_nat, simp add: take_bit_nat_eq_self)

text \<open>The round itself: \<open>n\<close> snapshots are taken, the others stay.\<close>

lemma rewind_round:
  assumes b: "between h hi c" and depth: "0 < depth" "depth \<le> hi" and entry: "as_left (hi - depth) (ring_in c)"
    and n: "n = (if (255 + depth - hi) mod 9 = 1 then 1 else depth)"
  shows "\<exists>r c'. do_step depth (do_back (backn_target depth) c) = Some (Returned r, c')
    \<and> between h (hi - depth + n) c' \<and> (\<forall>j \<le> hi - depth. ring_in c' ! j = ring_in c ! j) \<and> hi - depth + n < length (ring_in c')"
proof -
  obtain vm ring t where c: "c = (vm, h, ring, hi, t)" and core: "bench_core 1 vm" and ok: "ring_ok (ring, hi)"
    and harm: "\<forall>s \<in> set ring. harmless (s_deltas s)"
    using b by (cases c) (auto simp: between_def)
  let ?i = "hi - depth" and ?e = "255 + depth - hi"
  let ?cyc = "of_nat (8964 + ?i) :: u64"
  note bnd = ring_bounds [OF ok]
  obtain v where v: "sent_back depth ?i c = (v, h, ring, ?i, ?cyc + of_nat depth)" "cycle_count (vm_state v) = ?cyc"
      "halted (vm_state v) = HALT_RUNNING" "bench_core 1 v"
    using sent_back_core [OF core ok harm, of depth ?i h t] entry
    by (auto simp: c sent_back_def restore_snapshot_def as_left_def ring_in_def)
  have "256 - ?i = Suc ?e" using depth bnd by linarith
  then have e: "snap_at (Suc ?e) (ring ! ?i)" "0 < ?e" "?e < 256"
    using entry depth bnd by (simp_all add: as_left_def c ring_in_def)
  from sent_back_ctl [OF e, of depth vm h hi t, folded c, unfolded v(1) fst_conv] obtain i k
    where ctl: "ctl i k v" and far: "if ?e mod 9 = 1 then to_halt i k = 1 else ?e \<le> to_halt i k"
    by blast
  have bound: "?i + n \<le> 255" "0 < n" "n \<le> to_halt i k" using n far depth bnd by (auto split: if_splits)
  have fires: "fires (?cyc + of_nat depth) (?cyc + of_nat j) \<longleftrightarrow> depth \<le> j" if "j < 256" for j
  proof (rule fires_iff)
    have "?i \<le> 256" using bnd by linarith
    then show "8964 + ?i + depth < 2 ^ 64 - 1" "8964 + ?i + j < 2 ^ 64" using that depth bnd by simp_all
  qed
  have "\<not> fires (?cyc + of_nat depth) (cycle_count (vm_state v) + of_nat j)" if "0 < j" "j < n" for j
    using that n fires [of j] v(2) bound depth bnd by (auto split: if_splits)
  moreover have "fires (?cyc + of_nat depth) (cycle_count (vm_state v) + of_nat n) \<or> n = to_halt i k"
    using n far fires [of depth] v(2) depth bnd by (auto split: if_splits)
  ultimately obtain r w ss t' where run: "run_goto (v, h, ring, ?i, ?cyc + of_nat depth) =
      Some (Returned r, w, h, fst (pushes ss (ring, ?i)), snd (pushes ss (ring, ?i)), t')"
    and w: "bench_core 1 w" and len: "length ss = n" and ss: "\<forall>j < n. harmless (s_deltas (ss ! j))"
    using snapshot_run [OF v(4,3) ctl bound(2,3), of "?cyc + of_nat depth" h ring ?i] by blast
  have ok': "ring_ok (ring, ?i)" using bnd by (intro ring_okI) linarith+
  have p: "pushes ss (ring, ?i) = (take (?i + 1) ring @ ss, ?i + n)"
    using pushes_room [OF ok', of ss] len bound by auto
  have "\<forall>s \<in> set (take (?i + 1) ring @ ss). harmless (s_deltas s)"
    using ss len harm by (auto simp: in_set_conv_nth dest: in_set_takeD)
  then have "between h (?i + n) (w, h, take (?i + 1) ring @ ss, ?i + n, t')"
    using pushes_ok [OF ok', of ss] w p by (simp add: between_def)
  moreover have "do_step depth (do_back (backn_target depth) c) =
      Some (Returned r, w, h, take (?i + 1) ring @ ss, ?i + n, t')"
    using run v(1,4) p backn_target_in [OF depth(2)] bnd
    by (simp add: do_step_sent_back c vm_run_def bench_core_def)
  ultimately show ?thesis
    using bnd len by (auto simp: ring_in_def c nth_append)
qed

section \<open>Many rounds\<close>

text \<open>For most depths the entry that every round goes back to stays in place.\<close>

lemma steady_rounds:
  assumes "between h 255 c" "as_left (255 - depth) (ring_in c)" "0 < depth" "depth < 256" "depth = 1 \<or> depth mod 9 \<noteq> 1"
  shows "\<exists>c'. rewind_rounds (backn_target depth) depth k c = Some (Inr c')
    \<and> between h 255 c' \<and> as_left (255 - depth) (ring_in c')"
  using assms(1,2)
proof (induction k arbitrary: c)
  case (Suc k)
  have "depth = (if (255 + depth - 255) mod 9 = 1 then 1 else depth)" using assms(5) by auto
  from rewind_round [OF Suc.prems(1) assms(3) _ Suc.prems(2) this] assms(4) obtain r d
    where d: "do_step depth (do_back (backn_target depth) c) = Some (Returned r, d)"
      "between h 255 d" "ring_in d ! (255 - depth) = ring_in c ! (255 - depth)"
    by auto
  have "as_left (255 - depth) (ring_in d)" using Suc.prems(2) d(3) by (simp add: as_left_def)
  with Suc.IH [OF d(2)] d(1) show ?case by simp
qed simp

text \<open>For the depth \<open>e + 1\<close> with \<open>e\<close> a multiple of 9, a round ends after one fetch and \<open>e\<close> entries are lost.\<close>

lemma losing_round:
  assumes "between h hi c" "\<forall>j < hi. as_left j (ring_in c)" "9 dvd e" "9 \<le> e" "9 dvd 255 - hi" "e < hi" "hi \<le> 255"
  shows "\<exists>r d. do_step (Suc e) (do_back (backn_target (Suc e)) c) = Some (Returned r, d)
    \<and> between h (hi - e) d \<and> (\<forall>j < hi - e. as_left j (ring_in d))"
proof -
  have "(255 + Suc e - hi) mod 9 = 1"
  proof -
    have "9 dvd 255 - hi + e" using assms(3,5) by simp
    then obtain m where "255 - hi + e = 9 * m" by blast
    then have "255 + Suc e - hi = 1 + 9 * m" using assms(7) by simp
    then show ?thesis by simp
  qed
  then have "1 = (if (255 + Suc e - hi) mod 9 = 1 then 1 else Suc e)" by simp
  moreover have "Suc e \<le> hi" "as_left (hi - Suc e) (ring_in c)" using assms(2,6) by simp_all
  ultimately obtain r d where d: "do_step (Suc e) (do_back (backn_target (Suc e)) c) = Some (Returned r, d)"
      "between h (hi - Suc e + 1) d" "\<forall>j \<le> hi - Suc e. ring_in d ! j = ring_in c ! j"
    using rewind_round [OF assms(1), of "Suc e" 1] by auto
  have hi: "hi - Suc e + 1 = hi - e" using assms(6) by simp
  have "as_left j (ring_in d)" if "j < hi - e" for j
  proof -
    have "j \<le> hi - Suc e" "j < hi" using that by simp_all
    then show ?thesis using d(3) assms(2) by (simp add: as_left_def)
  qed
  with d(1) d(2) [unfolded hi] show ?thesis by blast
qed

lemma losing_rounds:
  assumes "between h hi c" "\<forall>j < hi. as_left j (ring_in c)" "9 dvd e" "9 \<le> e" "9 dvd 255 - hi" "k * e < hi" "hi \<le> 255"
  shows "\<exists>c'. rewind_rounds (backn_target (Suc e)) (Suc e) k c = Some (Inr c') \<and> between h (hi - k * e) c'"
  using assms(1,2,5-7)
proof (induction k arbitrary: c hi)
  case (Suc k)
  have e: "e < hi" "k * e < hi - e" "hi - e \<le> 255" using Suc.prems(4,5) by simp_all
  from losing_round [OF Suc.prems(1,2) assms(3,4) Suc.prems(3) e(1) Suc.prems(5)] obtain r d
    where d: "do_step (Suc e) (do_back (backn_target (Suc e)) c) = Some (Returned r, d)"
      "between h (hi - e) d" "\<forall>j < hi - e. as_left j (ring_in d)" by blast
  have "255 - (hi - e) = 255 - hi + e" using e(1) Suc.prems(5) by simp
  then have "9 dvd 255 - (hi - e)" using Suc.prems(3) assms(3) by simp
  from Suc.IH [OF d(2,3) this e(2,3)] d(1) show ?case by (auto simp: diff_diff_left)
qed simp

lemma between_ring: "between h 255 (v, h', ring, hi, t) \<Longrightarrow> h' = h \<and> hi = 255 \<and> length ring = 256"
  using ring_bounds [of ring 255] by (auto simp: between_def)

section \<open>The command\<close>

text \<open>The two phases of rounds for a depth that stays in place, and the report that follows.\<close>

lemma backn_reports:
  assumes "0 < depth" "depth < 256" "depth = 1 \<or> depth mod 9 \<noteq> 1"
  shows "cmd_benchmark_backn sw entropy n depth w =
    (case backn_report sw n depth 9219 of (text, rc) \<Rightarrow> Some (Exit rc, print_out text w))"
proof -
  let ?h = "(w, mt_init entropy)"
  obtain vm c where boot: "rewind_vm 1 = (True, vm)"
    "vm_run (vm, ?h, [], 0, UINT64_MAX) = Some (Returned HALT_NORMAL, c)"
    "cycle_count (vm_state (fst c)) = 9219" and c: "between ?h 255 c" "\<forall>j < 256. as_left j (ring_in c)"
    by (rule first_run_ring)
  have left: "as_left (255 - depth) (ring_in c)" using c(2) by simp
  note rounds = steady_rounds [OF _ _ assms]
  from rounds [OF c(1) left, of 1] obtain d where d: "rewind_rounds (backn_target depth) depth 1 c = Some (Inr d)"
    "between ?h 255 d" "as_left (255 - depth) (ring_in d)" by blast
  from rounds [OF d(2,3), of n] obtain e where e: "rewind_rounds (backn_target depth) depth n d = Some (Inr e)"
    "between ?h 255 e" by blast
  obtain vc hc rc where cc: "c = (vc, hc, rc)" by (cases c)
  obtain ve re where ee: "e = (ve, ?h, re)" using e(2) by (cases e) (auto simp: between_def)
  have hc: "hc = ?h" using c(1) by (cases rc) (auto simp: cc between_def)
  show ?thesis
    using boot d(1) e(1) assms(2) unfolding cc ee hc
    by (simp add: cmd_benchmark_backn_def kBenchRingCap_def bench_expected_def kBenchmarkLoopCount_def
        del: rewind_rounds.simps split: prod.splits)
qed

text \<open>
  C17: the rewind benchmark measures what it says, for most depths. If the depth is 1, or below the
  capacity of the ring and not of the form \<open>9 m + 1\<close>, then \<open>--bench-back\<close> completes, whatever the
  clock shows and however many rounds are asked for: it prints the report for the 9219 cycles of the
  workload and ends with the code of its own verdict. Throughout, the index is the 255 that the
  report claims and the ring is full, so no round reads outside it.
\<close>

theorem bench_back_completes:
  assumes "0 < depth" "depth < 256" "depth = 1 \<or> depth mod 9 \<noteq> 1"
  shows "cmd_benchmark_backn sw entropy n depth w =
      (case backn_report sw n depth 9219 of (text, rc) \<Rightarrow> Some (Exit rc, print_out text w))
    \<and> (\<exists>vm c. rewind_vm 1 = (True, vm)
         \<and> vm_run (vm, (w, mt_init entropy), [], 0, UINT64_MAX) = Some (Returned HALT_NORMAL, c)
         \<and> (\<forall>k. \<exists>v h ring t. rewind_rounds (backn_target depth) depth k c = Some (Inr (v, h, ring, 255, t))
              \<and> length ring = 256))"
proof -
  let ?h = "(w, mt_init entropy)"
  obtain vm c where boot: "rewind_vm 1 = (True, vm)"
    "vm_run (vm, ?h, [], 0, UINT64_MAX) = Some (Returned HALT_NORMAL, c)"
    "cycle_count (vm_state (fst c)) = 9219" and c: "between ?h 255 c" "\<forall>j < 256. as_left j (ring_in c)"
    by (rule first_run_ring)
  have left: "as_left (255 - depth) (ring_in c)" using c(2) by simp
  note rounds = steady_rounds [OF _ _ assms]
  have "\<exists>v h ring t. rewind_rounds (backn_target depth) depth k c = Some (Inr (v, h, ring, 255, t)) \<and> length ring = 256" for k
  proof -
    from rounds [OF c(1) left, of k] obtain f where f: "rewind_rounds (backn_target depth) depth k c = Some (Inr f)"
      "between ?h 255 f" by blast
    obtain v h ring hi t where ff: "f = (v, h, ring, hi, t)" by (cases f)
    from between_ring [OF f(2) [unfolded ff]] f(1) show ?thesis by (auto simp: ff)
  qed
  then have "\<forall>k. \<exists>v h ring t. rewind_rounds (backn_target depth) depth k c = Some (Inr (v, h, ring, 255, t))
    \<and> length ring = 256" by (rule allI)
  with boot(1,2) have "\<exists>vm c. rewind_vm 1 = (True, vm)
     \<and> vm_run (vm, ?h, [], 0, UINT64_MAX) = Some (Returned HALT_NORMAL, c)
     \<and> (\<forall>k. \<exists>v h ring t. rewind_rounds (backn_target depth) depth k c = Some (Inr (v, h, ring, 255, t))
          \<and> length ring = 256)" by (intro exI conjI)
  with backn_reports [OF assms] show ?thesis by (rule conjI)
qed

theorem bench_back_completes_witness:
  "\<forall>sw. cmd_benchmark_backn sw 7 1000 200 (sample_world in_bin) =
     (case backn_report sw 1000 200 9219 of (text, rc) \<Rightarrow> Some (Exit rc, print_out text (sample_world in_bin)))"
proof
  fix sw
  have "0 < (200 :: nat)" "200 < (256 :: nat)" "(200 :: nat) = 1 \<or> (200 :: nat) mod 9 \<noteq> 1" by simp_all
  from bench_back_completes [OF this]
  show "cmd_benchmark_backn sw 7 1000 200 (sample_world in_bin) =
     (case backn_report sw 1000 200 9219 of (text, rc) \<Rightarrow> Some (Exit rc, print_out text (sample_world in_bin)))"
    by blast
qed

text \<open>
  C18: the verdict of the rewind benchmark is exact. For these depths and up to 10^8 rounds,
  \<open>--bench-back\<close> ends with 0 if and only if the rounds took less than a millisecond each, that is
  the clock shows less than 10^6 nanoseconds times their number, and with 1 otherwise: the roundings
  of the conversion, of the division by 1000 and of the division by the number of rounds never turn
  the answer.
\<close>

theorem bench_back_verdict:
  assumes "0 < depth" "depth < 256" "depth = 1 \<or> depth mod 9 \<noteq> 1" "0 < n" "n \<le> 100000000"
  shows "\<exists>text. cmd_benchmark_backn sw entropy n depth w =
    Some (Exit (if elapsed sw 0 < 10 ^ 6 * n then 0 else 1), print_out text w)"
  using backn_reports [OF assms(1-3), of sw entropy n w] backn_verdict [OF assms(4,5), of sw depth 9219]
  by (cases "backn_report sw n depth 9219") auto

theorem bench_back_verdict_witness:
  "\<exists>text. cmd_benchmark_backn \<lparr>elapsed = (\<lambda>_. 999999999), nan_text = ''nan''\<rparr> 7 1000 200 (sample_world in_bin) =
    Some (Exit 0, print_out text (sample_world in_bin))"
proof -
  have "0 < (200 :: nat)" "200 < (256 :: nat)" "(200 :: nat) = 1 \<or> (200 :: nat) mod 9 \<noteq> 1"
    "0 < (1000 :: nat)" "1000 \<le> (100000000 :: nat)" by simp_all
  from bench_back_verdict [OF this, of "\<lparr>elapsed = (\<lambda>_. 999999999), nan_text = ''nan''\<rparr>"] show ?thesis by simp
qed

text \<open>
  C38: for the other depths it reads outside the ring. The check of the depth is there to exclude an
  underflow of the index, and does not: for the depths 10, 19, ..., 253 each round ends after one
  fetch, because the resumed run skips the jump that closes the loop and meets the halt, and after
  at most 28 rounds the index is smaller than the depth. The next round computes an index far beyond
  the ring.
\<close>

theorem bench_back_underflows:
  assumes "10 \<le> depth" "depth < 256" "depth mod 9 = 1"
  shows "\<exists>vm c k v ring hi t. rewind_vm 1 = (True, vm)
    \<and> vm_run (vm, (w, mt_init entropy), [], 0, UINT64_MAX) = Some (Returned HALT_NORMAL, c)
    \<and> k \<le> 28 \<and> rewind_rounds (backn_target depth) depth k c = Some (Inr (v, (w, mt_init entropy), ring, hi, t))
    \<and> hi < depth \<and> length ring \<le> 256 \<and> 256 \<le> backn_target depth hi"
proof -
  let ?h = "(w, mt_init entropy)"
  obtain e where e: "depth = Suc e" using assms(1) by (cases depth) simp_all
  have dvd: "9 dvd e" "9 \<le> e" using assms(1,3) by (simp_all add: e) presburger
  obtain vm c where boot: "rewind_vm 1 = (True, vm)"
    "vm_run (vm, ?h, [], 0, UINT64_MAX) = Some (Returned HALT_NORMAL, c)"
    and c: "between ?h 255 c" "\<forall>j < 256. as_left j (ring_in c)"
    by (rule first_run_ring)
  let ?k = "254 div e"
  have "?k * e \<le> 254" by (rule div_times_less_eq_dividend)
  then have k: "?k * e < 255" by linarith
  have "254 < e + ?k * e" using dvd(2) dividend_less_times_div [of e 254] by (simp add: mult.commute)
  then have small: "255 - ?k * e < depth" by (simp add: e)
  have "?k \<le> 254 div 9" using dvd(2) by (intro div_le_mono2) simp_all
  then have k28: "?k \<le> 28" by simp
  have "\<forall>j < 255. as_left j (ring_in c)" using c(2) by simp
  from losing_rounds [OF c(1) this dvd _ k] obtain d
    where d: "rewind_rounds (backn_target depth) depth ?k c = Some (Inr d)" "between ?h (255 - ?k * e) d"
    by (auto simp: e)
  then obtain v ring t where dd: "d = (v, ?h, ring, 255 - ?k * e, t)" and ok: "ring_ok (ring, 255 - ?k * e)"
    by (cases d) (auto simp: between_def)
  have far: "256 \<le> backn_target depth hi" if "hi < depth" "depth < 256" for hi
  proof -
    have u: "unat (of_nat n :: u64) = n" if "n < 256" for n
      using that by (simp add: unsigned_of_nat take_bit_nat_eq_self)
    then show ?thesis
      using that by (simp add: backn_target_def unat_sub_if' word_size u)
  qed
  from far [OF small assms(2)] small d(1) boot k28 ring_bounds [OF ok] show ?thesis
    unfolding dd by blast
qed

theorem bench_back_underflows_witness:
  "\<exists>vm c k v ring hi t. rewind_vm 1 = (True, vm)
    \<and> vm_run (vm, (sample_world in_bin, mt_init 7), [], 0, UINT64_MAX) = Some (Returned HALT_NORMAL, c)
    \<and> k \<le> 28 \<and> rewind_rounds (backn_target 10) 10 k c = Some (Inr (v, (sample_world in_bin, mt_init 7), ring, hi, t))
    \<and> hi < 10 \<and> length ring \<le> 256 \<and> 256 \<le> backn_target 10 hi"
proof -
  have "10 \<le> (10 :: nat)" "(10 :: nat) < 256" "(10 :: nat) mod 9 = 1" by simp_all
  from bench_back_underflows [OF this] show ?thesis .
qed

end
