(* ===== verification/Sweep.thy ===== *)
theory Sweep
  imports RewindSteps
begin

text \<open>
  The sweep of the rewind benchmarks (\<open>cmd_benchmark_back_sweep\<close> in \<open>src/main.cpp\<close>): every round
  returns, for every interval and depth of the table, and the index stays in the ring.
\<close>

section \<open>Between the rounds\<close>

definition codepc :: "u32 \<Rightarrow> bool" where
  "codepc p \<longleftrightarrow> (\<exists>i < 12. p = of_nat (4 * i))"

text \<open>
  No snapshot is later than the cycle \<open>B\<close>. Every entry that a rewind can reach resumes inside the
  code; only the newest one, taken at the halt, does not.
\<close>

definition history_ok :: "nat \<Rightarrow> nat \<Rightarrow> Snapshot list \<times> nat \<Rightarrow> bool" where
  "history_ok B m r \<longleftrightarrow> ring_ok r \<and> (\<forall>s \<in> set (fst r). harmless (s_deltas s) \<and> unat (s_cycle_count s) \<le> B)
     \<and> (\<forall>i < m. codepc (s_pc (fst r ! i)))"

definition resting :: "u32 \<Rightarrow> nat \<Rightarrow> host \<Rightarrow> rewinder cfg \<Rightarrow> bool" where
  "resting n B h c \<longleftrightarrow> (case c of (vm, h', ring, hi, t) \<Rightarrow>
     h' = h \<and> bench_core n vm \<and> history_ok B (max 1 hi) (ring, hi))"

text \<open>While a round runs: the cycle count plus the time to the next snapshot is bounded.\<close>

definition underway :: "u32 \<Rightarrow> nat \<Rightarrow> host \<Rightarrow> rewinder cfg \<Rightarrow> bool" where
  "underway n B h c \<longleftrightarrow> (case c of (vm, h', ring, hi, t) \<Rightarrow>
     h' = h \<and> bench_core n vm \<and> halted (vm_state vm) = HALT_RUNNING \<and> codepc (pc (vm_state vm))
     \<and> history_ok B (Suc hi) (ring, hi) \<and> t \<noteq> UINT64_MAX
     \<and> unat (cycle_count (vm_state vm)) + unat (snap_timer (vm_state vm)) \<le> unat t + unat n
     \<and> unat t + unat n \<le> B \<and> B < 2 ^ 64)"

lemma history_push:
  assumes ok: "history_ok B (Suc hi) (ring, hi)" and push: "ring_push 256 z s (ring, hi) = (ring', hi')"
    and s: "harmless (s_deltas s)" "unat (s_cycle_count s) \<le> B"
  shows "history_ok B (max 1 hi') (ring', hi')"
    and "codepc (s_pc s) \<Longrightarrow> history_ok B (Suc hi') (ring', hi')"
proof -
  have ring: "ring_ok (ring, hi)" using ok by (simp add: history_ok_def)
  note p = ring_push_entries [OF ring push]
  have set: "\<forall>s \<in> set ring'. harmless (s_deltas s) \<and> unat (s_cycle_count s) \<le> B"
    using p(2) ok s by (auto simp: history_ok_def)
  have low: "codepc (s_pc (ring' ! i))" if "i < hi'" for i
    using p(5) [OF that] ok by (auto simp: history_ok_def less_Suc_eq_le)
  show "history_ok B (max 1 hi') (ring', hi')"
    using p(1,4) set low by (auto simp: history_ok_def max_def)
  show "history_ok B (Suc hi') (ring', hi')" if "codepc (s_pc s)"
    using p(1,3) set low that by (auto simp: history_ok_def less_Suc_eq)
qed

lemma codepc_next: "i < 11 \<Longrightarrow> codepc (of_nat (4 * i) + 4)"
  unfolding codepc_def by (intro exI [of _ "Suc i"]) simp

lemma executed_codepc:
  assumes "executed i v v'" "i < 11" "pc (vm_state v) = of_nat (4 * i) + 4"
  shows "codepc (pc (vm_state v'))"
proof -
  have "codepc 8" unfolding codepc_def by (intro exI [of _ 2]) simp
  then show ?thesis using assms codepc_next [of i] by (auto simp: executed_def Let_def)
qed

lemma history_weaken:
  "history_ok B m r \<Longrightarrow> B \<le> B' \<Longrightarrow> m' \<le> m \<Longrightarrow> history_ok B' m' r"
  by (fastforce simp: history_ok_def)

section \<open>A round returns\<close>

lemma history_tick:
  assumes core: "bench_core n u" and run: "halted (vm_state u) = HALT_RUNNING"
    and i: "pc (vm_state u) = of_nat (4 * i)" "i < 12"
    and tick: "snap_tick (advance u, h, ring, hi, t) = (b, v, x')"
    and hist: "history_ok B (Suc hi) (ring, hi) \<or> ring = [] \<and> hi = 0"
    and B: "unat (cycle_count (vm_state u) + 1) \<le> B"
  obtains (wait) "snap_timer (vm_state u) \<noteq> 1" "\<not> b" "x' = (h, ring, hi, t)"
  | (fire) ring' hi' where "snap_timer (vm_state u) = 1" "x' = (h, ring', hi', if b then UINT64_MAX else t)"
      "b \<longleftrightarrow> t \<noteq> UINT64_MAX \<and> t \<le> cycle_count (vm_state u) + 1" "history_ok B (max 1 hi') (ring', hi')"
      "i < 11 \<Longrightarrow> history_ok B (Suc hi') (ring', hi')"
proof (cases "snap_timer (vm_state u) = 1")
  case False
  then show thesis using wait bench_tick [OF core run, of h ring hi t, unfolded tick] by simp
next
  case True
  let ?st = "vm_state (advance u)"
  let ?s = "snapshot_of ?st (vm_deltas u)"
  obtain ring' hi' where push: "ring_push 256 Snapshot_init ?s (ring, hi) = (ring', hi')" by fastforce
  have s: "harmless (s_deltas ?s)" "unat (s_cycle_count ?s) \<le> B" "s_pc ?s = of_nat (4 * i) + 4"
    using core B i by (simp_all add: snapshot_of_def bench_core_def)
  have "history_ok B (Suc 0) ([Snapshot_init], 0)"
    unfolding history_ok_def ring_ok_def codepc_def
    by (auto simp: Snapshot_init_def kRingCap_def intro: exI [of _ 0])
  moreover have "ring_push 256 Snapshot_init ?s ([], 0) = ring_push 256 Snapshot_init ?s ([Snapshot_init], 0)"
    by (simp add: ring_push_def resize_def)
  ultimately obtain r k where hist': "history_ok B (Suc k) (r, k)" and push': "ring_push 256 Snapshot_init ?s (r, k) = (ring', hi')"
    using hist push by metis
  note p = history_push [OF hist' push' s(1,2)]
  show thesis
    using fire [OF True, of ring' hi'] bench_tick [OF core run, of h ring hi t, unfolded tick] True push p s(3) codepc_next [of i]
    by (auto simp: Let_def split: if_splits)
qed

lemma underway_tick:
  assumes c: "underway n B h (u, x)" and i: "pc (vm_state u) = of_nat (4 * i)" "i < 12"
    and tick: "snap_tick (advance u, x) = (b, v, x')"
  obtains ring' hi' t' where "x' = (h, ring', hi', t')" "history_ok B (max 1 hi') (ring', hi')"
    "i < 11 \<Longrightarrow> history_ok B (Suc hi') (ring', hi')"
    "unat (cycle_count (vm_state v)) = Suc (unat (cycle_count (vm_state u)))"
    "\<not> b \<Longrightarrow> t' = snd (snd (snd x)) \<and> unat (cycle_count (vm_state v)) + unat (snap_timer (vm_state v)) \<le> unat t' + unat n"
proof -
  obtain ring hi t where x: "x = (h, ring, hi, t)" and core: "bench_core n u"
    and run: "halted (vm_state u) = HALT_RUNNING" and hist: "history_ok B (Suc hi) (ring, hi)"
    and t: "t \<noteq> UINT64_MAX"
    and time: "unat (cycle_count (vm_state u)) + unat (snap_timer (vm_state u)) \<le> unat t + unat n"
      "unat t + unat n \<le> B" "B < 2 ^ 64"
    using c by (cases x) (auto simp: underway_def)
  have timer: "snap_timer (vm_state u) \<noteq> 0" using core by (simp add: bench_core_def)
  then have pos: "0 < unat (snap_timer (vm_state u))" by (simp add: unat_gt_0)
  have cyc: "unat (cycle_count (vm_state u) + 1) = Suc (unat (cycle_count (vm_state u)))"
    using time pos by (simp add: unat_word_ariths)
  note f = bench_tick_core [OF core run tick]
  have B: "unat (cycle_count (vm_state u) + 1) \<le> B" using cyc time pos by simp
  show thesis
  proof (cases rule: history_tick [OF core run i tick [unfolded x] disjI1 [OF hist] B, case_names wait fire])
    case wait
    have "unat (snap_timer (vm_state v)) = unat (snap_timer (vm_state u)) - 1"
      using f(7) wait(1) timer by (simp add: unat_minus_one)
    then have "unat (cycle_count (vm_state v)) + unat (snap_timer (vm_state v)) \<le> unat t + unat n"
      using time(1) pos by (simp add: f(4) cyc)
    then show thesis
      by (intro that [OF wait(3)]) (simp_all add: f(4) cyc x hist history_weaken [OF hist])
  next
    case (fire ring' hi')
    have "unat (cycle_count (vm_state v)) + unat (snap_timer (vm_state v)) \<le> unat t + unat n" if "\<not> b"
    proof -
      have "\<not> t \<le> cycle_count (vm_state u) + 1" using fire(3) t that by simp
      then have "unat (cycle_count (vm_state v)) < unat t" by (simp add: f(4) not_le word_less_nat_alt)
      then show ?thesis using f(7) fire(1) by simp
    qed
    then show thesis
      by (intro that [OF fire(2,4,5)]) (simp_all add: f(4) cyc x)
  qed
qed

text \<open>A step goes on, with less time to the deadline, or the round is over.\<close>

lemma underway_step:
  assumes c: "underway n B h (u, x)"
  shows "(\<exists>v y. goto_step (u, x) = Inl (v, y) \<and> underway n B h (v, y)
      \<and> unat (cycle_count (vm_state v)) = Suc (unat (cycle_count (vm_state u))))
    \<or> (\<exists>r c'. goto_step (u, x) = Inr (Returned r, c') \<and> resting n B h c')"
proof -
  from c obtain i where i: "pc (vm_state u) = of_nat (4 * i)" "i < 12" and core: "bench_core n u"
    and run: "halted (vm_state u) = HALT_RUNNING"
    by (auto simp: underway_def codepc_def split: prod.splits)
  obtain b v x' where tick: "snap_tick (advance u, x) = (b, v, x')" by (metis prod_cases3)
  note f = bench_tick_core [OF core run tick]
  from underway_tick [OF c i tick] obtain ring' hi' t' where t: "x' = (h, ring', hi', t')"
    "history_ok B (max 1 hi') (ring', hi')" "i < 11 \<Longrightarrow> history_ok B (Suc hi') (ring', hi')"
    "unat (cycle_count (vm_state v)) = Suc (unat (cycle_count (vm_state u)))"
    "\<not> b \<Longrightarrow> t' = snd (snd (snd x)) \<and> unat (cycle_count (vm_state v)) + unat (snap_timer (vm_state v)) \<le> unat t' + unat n"
    by blast
  show ?thesis
  proof (cases rule: bench_step [OF core run i tick, case_names stop halt trap go])
    case stop
    then show ?thesis using f(1) t(1,2) by (auto simp: resting_def)
  next
    case halt
    have "bench_core n (set_halted HALT_NORMAL v)" using f(1) by (simp add: bench_core_def access_defs)
    with halt t(1,2) show ?thesis by (auto simp: resting_def)
  next
    case (trap v')
    then show ?thesis using t(1,2) by (auto simp: resting_def)
  next
    case (go v')
    have "codepc (pc (vm_state v'))" using executed_codepc [OF go(5,2)] f(3) i(1) by simp
    moreover have "cycle_count (vm_state v') = cycle_count (vm_state v)" "halted (vm_state v') = HALT_RUNNING"
      "snap_timer (vm_state v') = snap_timer (vm_state v)"
      using go(1,5) f(6) by (simp_all add: executed_def Let_def)
    ultimately have "underway n B h (v', x')" using c go(1,2,4) t by (auto simp: underway_def)
    with go(3) t(4) \<open>cycle_count (vm_state v') = _\<close> show ?thesis by auto
  qed
qed

lemma round_returns:
  assumes "underway n B h c"
  shows "\<exists>r c'. vm_run c = Some (Returned r, c') \<and> resting n B h c'"
proof -
  let ?m = "\<lambda>c. B - unat (cycle_count (vm_state (fst c)))"
  have "\<exists>q. run_loop goto_step c = Some q \<and> (\<exists>r c'. q = (Returned r, c') \<and> resting n B h c')"
  proof (rule run_loop_measure [where I = "underway n B h" and m = ?m, OF assms])
    fix c assume c: "underway n B h c"
    obtain u x where ux: "c = (u, x)" by (cases c)
    have "snap_timer (vm_state u) \<noteq> 0"
      using c by (auto simp: ux underway_def bench_core_def split: prod.splits)
    then have "0 < unat (snap_timer (vm_state u))" by (simp add: unat_gt_0)
    then have "unat (cycle_count (vm_state u)) < B"
      using c by (auto simp: ux underway_def split: prod.splits)
    with underway_step [OF c [unfolded ux]]
    show "(\<exists>c'. goto_step c = Inl c' \<and> underway n B h c' \<and> ?m c' < ?m c)
      \<or> (\<exists>q. goto_step c = Inr q \<and> (\<exists>r c'. q = (Returned r, c') \<and> resting n B h c'))"
      unfolding ux by fastforce
  qed
  then show ?thesis
    using assms by (auto simp: vm_run_def run_goto_def underway_def bench_core_def split: prod.splits)
qed

section \<open>Back and forward\<close>

lemma resting_sent_back:
  assumes c: "resting n B h c" and depth: "0 < depth" "B + depth + unat n < 2 ^ 64 - 1"
  shows "underway n (B + depth + unat n) h (sent_back depth (sweep_target depth (fst (snd (snd (snd c))))) c)"
proof -
  obtain vm ring hi t where c': "c = (vm, h, ring, hi, t)" and core: "bench_core n vm"
    and hist: "history_ok B (max 1 hi) (ring, hi)"
    using c by (cases c) (auto simp: resting_def)
  let ?i = "sweep_target depth hi" and ?B = "B + depth + unat n"
  have b: "hi < length ring" "length ring \<le> 256" and ok: "ring_ok (ring, hi)"
    and harm: "\<forall>s \<in> set ring. harmless (s_deltas s)"
    using hist ring_bounds by (auto simp: history_ok_def)
  have i: "?i < max 1 hi" "?i \<le> hi" using depth(1) by (auto simp: sweep_target_def)
  then have "?i < length ring" using b by simp
  then have cyc: "unat (s_cycle_count (ring ! ?i)) \<le> B" using hist by (simp add: history_ok_def)
  then have t: "unat (s_cycle_count (ring ! ?i) + of_nat depth) = unat (s_cycle_count (ring ! ?i)) + depth"
    using depth(2) by (simp add: unat_word_ariths unsigned_of_nat take_bit_nat_eq_self)
  have "s_cycle_count (ring ! ?i) + of_nat depth \<noteq> UINT64_MAX"
  proof
    assume "s_cycle_count (ring ! ?i) + of_nat depth = UINT64_MAX"
    with t have "unat UINT64_MAX \<le> B + depth" using cyc by simp
    then show False
      using depth(2) by (simp add: UINT64_MAX_def unsigned_minus_1_eq_mask mask_eq_exp_minus_1)
  qed
  moreover have "history_ok ?B (Suc ?i) (ring, ?i)"
  proof -
    have "ring_ok (ring, ?i)" using b i by (intro ring_okI) simp_all
    then show ?thesis using hist i by (fastforce simp: history_ok_def)
  qed
  moreover have "codepc (s_pc (ring ! ?i))" using hist i by (simp add: history_ok_def)
  moreover have "unat (snap_timer (vm_state vm)) \<le> unat n"
    using core by (simp add: bench_core_def word_le_nat_alt)
  ultimately show ?thesis
    using sent_back_core [OF core ok harm, of depth ?i h t] t cyc depth(2)
    by (simp add: c' underway_def sent_back_def restore_snapshot_def)
qed

lemma sweep_rounds:
  assumes "resting n B h c" "0 < depth" "B + k * (depth + unat n) < 2 ^ 64 - 1"
  shows "\<exists>c'. rewind_rounds (sweep_target depth) depth k c = Some (Inr c')
    \<and> resting n (B + k * (depth + unat n)) h c'"
  using assms
proof (induction k arbitrary: c B)
  case (Suc k)
  have "B + depth + unat n < 2 ^ 64 - 1" using Suc.prems(3) by simp
  from round_returns [OF resting_sent_back [OF Suc.prems(1,2) this]] obtain r d
    where d: "do_step depth (do_back (sweep_target depth) c) = Some (Returned r, d)"
      "resting n (B + depth + unat n) h d"
    unfolding do_step_sent_back by blast
  with Suc.IH [OF d(2) Suc.prems(2)] Suc.prems(3) show ?case by (simp add: algebra_simps)
qed simp

section \<open>The first run\<close>

definition first_run :: "u32 \<Rightarrow> host \<Rightarrow> rewinder cfg \<Rightarrow> bool" where
  "first_run n h c \<longleftrightarrow> (case c of (vm, h', ring, hi, t) \<Rightarrow>
     h' = h \<and> t = UINT64_MAX \<and> bench_core n vm \<and> halted (vm_state vm) = HALT_RUNNING
     \<and> (\<exists>i k. ctl i k vm \<and> unat (cycle_count (vm_state vm)) + to_halt i k = 9219)
     \<and> (history_ok 9219 (Suc hi) (ring, hi) \<or>
        ring = [] \<and> hi = 0 \<and> unat (cycle_count (vm_state vm)) + unat (snap_timer (vm_state vm)) = unat n))"

lemma first_run_step:
  assumes c: "first_run n h (u, x)" and n: "unat n \<le> 9218"
  shows "(\<exists>v y. goto_step (u, x) = Inl (v, y) \<and> first_run n h (v, y)
      \<and> unat (cycle_count (vm_state u)) < unat (cycle_count (vm_state v)) \<and> unat (cycle_count (vm_state v)) \<le> 9219)
    \<or> (\<exists>v y. goto_step (u, x) = Inr (Returned HALT_NORMAL, v, y) \<and> resting n 9219 h (v, y)
      \<and> cycle_count (vm_state v) = 9219)"
proof -
  obtain ring hi i k where x: "x = (h, ring, hi, UINT64_MAX)" and core: "bench_core n u"
    and run: "halted (vm_state u) = HALT_RUNNING" and ctl: "ctl i k u"
    and cyc: "unat (cycle_count (vm_state u)) + to_halt i k = 9219"
    and hist: "history_ok 9219 (Suc hi) (ring, hi) \<or>
        ring = [] \<and> hi = 0 \<and> unat (cycle_count (vm_state u)) + unat (snap_timer (vm_state u)) = unat n"
    using c by (cases x) (auto simp: first_run_def)
  have i: "pc (vm_state u) = of_nat (4 * i)" "i < 12" using ctl by (simp_all add: ctl_def)
  obtain b v x' where tick: "snap_tick (advance u, x) = (b, v, x')" by (metis prod_cases3)
  note f = bench_tick_core [OF core run tick]
  have "0 < to_halt i k" using ctl by (auto simp: to_halt_def ctl_def)
  then have suc: "unat (cycle_count (vm_state u) + 1) = Suc (unat (cycle_count (vm_state u)))" "unat (cycle_count (vm_state u) + 1) \<le> 9219"
    using cyc by (simp_all add: unat_word_ariths)
  have timer: "snap_timer (vm_state u) \<noteq> 0" using core by (simp add: bench_core_def)
  have h: "history_ok 9219 (Suc hi) (ring, hi) \<or> ring = [] \<and> hi = 0" using hist by blast
  have "\<exists>ring' hi'. \<not> b \<and> x' = (h, ring', hi', UINT64_MAX)
    \<and> (history_ok 9219 (max 1 hi') (ring', hi') \<and> (i < 11 \<longrightarrow> history_ok 9219 (Suc hi') (ring', hi'))
       \<or> ring' = [] \<and> hi' = 0 \<and> unat (cycle_count (vm_state v)) + unat (snap_timer (vm_state v)) = unat n)"
  proof (cases rule: history_tick [OF core run i tick [unfolded x] h suc(2), case_names wait fire])
    case wait
    have "0 < unat (snap_timer (vm_state u))" using timer by (simp add: unat_gt_0)
    moreover have "unat (snap_timer (vm_state v)) = unat (snap_timer (vm_state u)) - 1"
      using f(7) wait timer by (simp add: unat_minus_one)
    moreover have "history_ok 9219 (max 1 hi) (ring, hi)" if "history_ok 9219 (Suc hi) (ring, hi)"
      using history_weaken [OF that, of 9219 "max 1 hi"] by (simp add: max_def)
    ultimately show ?thesis using wait hist suc f(4) by auto
  next
    case (fire ring' hi')
    then show ?thesis by auto
  qed
  then obtain ring' hi' where b: "\<not> b" and x': "x' = (h, ring', hi', UINT64_MAX)"
    and ring': "history_ok 9219 (max 1 hi') (ring', hi') \<and> (i < 11 \<longrightarrow> history_ok 9219 (Suc hi') (ring', hi'))
       \<or> ring' = [] \<and> hi' = 0 \<and> unat (cycle_count (vm_state v)) + unat (snap_timer (vm_state v)) = unat n"
    by blast
  show ?thesis
  proof (cases rule: bench_step [OF core run i tick, case_names stop halt trap go])
    case halt
    have c9: "unat (cycle_count (vm_state v)) = 9219" using cyc suc f(4) halt(2) by (simp add: to_halt_def)
    then have "cycle_count (vm_state v) = 9219" by (simp add: word_unat_eq_iff)
    moreover have "bench_core n (set_halted HALT_NORMAL v)" using f(1) by (simp add: bench_core_def access_defs)
    ultimately show ?thesis using halt ring' c9 n x' by (auto simp: resting_def access_defs)
  next
    case (go v')
    from ctl_next [OF ctl go(2,5) f(2,3)] obtain i' k' where "ctl i' k' v'" "to_halt i k = Suc (to_halt i' k')"
      by blast
    moreover have "cycle_count (vm_state v') = cycle_count (vm_state v)" "halted (vm_state v') = HALT_RUNNING"
      "snap_timer (vm_state v') = snap_timer (vm_state v)"
      using go(1,5) f(6) by (simp_all add: executed_def Let_def)
    ultimately show ?thesis
      using go ring' x' cyc suc f(4) by (fastforce simp: first_run_def)
  qed (use b ctl in \<open>auto simp: ctl_def\<close>)
qed

lemma first_run_halts:
  assumes "unat n \<le> 9218" "n \<noteq> 0"
  obtains vm v y where "rewind_vm n = (True, vm)"
    "vm_run (vm, h, [], 0, UINT64_MAX) = Some (Returned HALT_NORMAL, v, y)"
    "cycle_count (vm_state v) = 9219" "resting n 9219 h (v, y)"
proof -
  obtain vm where vm: "rewind_vm n = (True, vm)" "bench_core n vm" "ctl 0 1024 vm"
    "halted (vm_state vm) = HALT_RUNNING" "cycle_count (vm_state vm) = 0" "snap_timer (vm_state vm) = n"
    using assms(2) by (rule rewind_boot)
  have "to_halt 0 1024 = 9219" by (simp add: to_halt_def)
  with vm have start: "first_run n h (vm, h, [], 0, UINT64_MAX)"
    by (fastforce simp: first_run_def)
  let ?m = "\<lambda>c. 9219 - unat (cycle_count (vm_state (fst c)))"
  have "\<exists>q. run_loop goto_step (vm, h, [], 0, UINT64_MAX) = Some q
    \<and> (\<exists>v y. q = (Returned HALT_NORMAL, v, y) \<and> resting n 9219 h (v, y) \<and> cycle_count (vm_state v) = 9219)"
  proof (rule run_loop_measure [where I = "first_run n h" and m = ?m, OF start])
    fix c assume "first_run n h c"
    then show "(\<exists>c'. goto_step c = Inl c' \<and> first_run n h c' \<and> ?m c' < ?m c)
      \<or> (\<exists>q. goto_step c = Inr q \<and> (\<exists>v y. q = (Returned HALT_NORMAL, v, y) \<and> resting n 9219 h (v, y)
        \<and> cycle_count (vm_state v) = 9219))"
      using first_run_step [of n h "fst c" "snd c"] assms(1) by (cases c) fastforce
  qed
  moreover have "vm_run (vm, h, [], 0, UINT64_MAX) = run_loop goto_step (vm, h, [], 0, UINT64_MAX)"
    using vm(2) by (simp add: vm_run_def run_goto_def bench_core_def)
  ultimately show thesis using that vm(1) by auto
qed

section \<open>The table\<close>

definition sweep_time :: "stopwatch \<Rightarrow> nat \<Rightarrow> nat \<Rightarrow> string" where
  "sweep_time sw n k = pad_left 10 (CHR '' '') (fmt_f sw 3 (micros sw k / double_of n))"

text \<open>The whole table: for each measurement the row heading, the time and the end of the row.\<close>

definition sweep_table :: "stopwatch \<Rightarrow> nat \<Rightarrow> (nat \<times> nat \<times> nat) list \<Rightarrow> string" where
  "sweep_table sw n cells = concat (map (\<lambda>(k, si, depth).
     (if k mod length sweep_depths = 0 then ''    '' @ pad_left 13 (CHR '' '') (fmt_u si) @ '' |'' else [])
     @ sweep_time sw n k @ (if k mod length sweep_depths + 1 = length sweep_depths then nl else [])) cells)"

lemma sweep_cell_measures:
  assumes si: "0 < si" "si \<le> 100" and depth: "0 < depth" "depth \<le> 1024" and n: "n \<le> 100000000"
  shows "sweep_cell sw k n si depth h = Some (Inr (sweep_time sw n k, h))"
proof -
  have u: "unat (of_nat si :: u32) = si" using si by (simp add: unsigned_of_nat take_bit_nat_eq_self)
  have si': "unat (of_nat si :: u32) \<le> 9218" "(of_nat si :: u32) \<noteq> 0" using si u by auto
  obtain vm v y where boot: "rewind_vm (of_nat si) = (True, vm)"
    "vm_run (vm, h, [], 0, UINT64_MAX) = Some (Returned HALT_NORMAL, v, y)"
    "cycle_count (vm_state v) = 9219" and rest: "resting (of_nat si) 9219 h (v, y)"
    using first_run_halts [OF si', of h] by metis
  have "n * (depth + si) \<le> 100000000 * 1124" using si depth n by (intro mult_le_mono) simp_all
  then have total: "9219 + 1 * (depth + si) + n * (depth + si) < 2 ^ 64 - 1" using si depth by simp
  have "9219 + 1 * (depth + unat (of_nat si :: u32)) < 2 ^ 64 - 1" using si depth u by simp
  from sweep_rounds [OF rest depth(1) this] obtain c
    where c: "rewind_rounds (sweep_target depth) depth 1 (v, y) = Some (Inr c)"
      "resting (of_nat si) (9219 + 1 * (depth + unat (of_nat si :: u32))) h c" by blast
  have "9219 + 1 * (depth + unat (of_nat si :: u32)) + n * (depth + unat (of_nat si :: u32)) < 2 ^ 64 - 1"
    unfolding u by (rule total)
  from sweep_rounds [OF c(2) depth(1) this] obtain d
    where d: "rewind_rounds (sweep_target depth) depth n c = Some (Inr d)" "fst (snd d) = h"
    by (auto simp: resting_def)
  obtain y' ring hi t where y: "y = (h, ring, hi, t)" using rest by (cases y) (auto simp: resting_def)
  obtain vd rd where dd: "d = (vd, h, rd)" using d(2) by (cases d) auto
  show ?thesis
    using boot c(1) d(1) unfolding y dd
    by (simp add: sweep_cell_def sweep_time_def del: rewind_rounds.simps)
qed

lemma sweep_cells_print:
  assumes "\<forall>(k, si, depth) \<in> set cells. 0 < si \<and> si \<le> 100 \<and> 0 < depth \<and> depth \<le> 1024"
    and n: "n \<le> 100000000"
  shows "sweep_cells sw n cells (w, g) = Some (Inr (print_out (sweep_table sw n cells) w, g))"
  using assms(1)
proof (induction cells arbitrary: w)
  case (Cons x cells)
  obtain k si depth where x: "x = (k, si, depth)" by (cases x)
  with Cons.prems have "sweep_cell sw k n si depth h = Some (Inr (sweep_time sw n k, h))" for h
    using n by (intro sweep_cell_measures) auto
  with Cons x show ?case by (simp add: sweep_table_def print_out_def Let_def)
qed (simp add: sweep_table_def print_out_def)

text \<open>
  C19: the sweep fills its whole table. Whatever the clock shows, and for every number of rounds that the
  command line admits, \<open>--bench-back-sweep\<close> ends with 0 and has printed the heading and a time in
  each of the fifteen cells, never \<open>ERR!\<close>: the first run of each cell halts normally after 9219
  cycles at every interval, all the rounds of going back and forward return, for the depths beyond
  the capacity of the ring as well, and neither a file nor the error stream is touched. The cells of
  those depths are clamped at the oldest snapshot and look like the others: the mark \<open>>\<close> that the README
  announces for them is not printed.
\<close>

theorem sweep_completes:
  assumes "n \<le> 100000000"
  shows "cmd_benchmark_back_sweep sw entropy n w =
    Some (Exit 0, print_out (sweep_heading n @ sweep_table sw n sweep_grid) w)"
proof -
  have "\<forall>(k, si, depth) \<in> set sweep_grid. 0 < si \<and> si \<le> 100 \<and> 0 < depth \<and> depth \<le> 1024"
    by (simp add: sweep_grid_def snap_intervals_def sweep_depths_def upt_rec)
  from sweep_cells_print [OF this assms, of sw] show ?thesis
    by (simp add: cmd_benchmark_back_sweep_def print_out_def)
qed

theorem sweep_completes_witness:
  "\<forall>sw. cmd_benchmark_back_sweep sw 7 200 (sample_world in_bin) =
     Some (Exit 0, print_out (sweep_heading 200 @ sweep_table sw 200 sweep_grid) (sample_world in_bin))"
proof
  fix sw
  have "(200 :: nat) \<le> 100000000" by simp
  from sweep_completes [OF this] show "cmd_benchmark_back_sweep sw 7 200 (sample_world in_bin) =
     Some (Exit 0, print_out (sweep_heading 200 @ sweep_table sw 200 sweep_grid) (sample_world in_bin))" .
qed

end
