(* ===== verification/Disassembly.thy ===== *)
theory Disassembly
  imports AsmText Debugger
begin

text \<open>
  The disassembler that the debugger's \<open>where\<close> uses, against the assembler: which of its output can be
  assembled again.
\<close>

section \<open>Decoding the words of instructions\<close>

lemma and_mask_small:
  assumes "n < 2 ^ k" "k < 32"
  shows "of_nat n AND mask k = (of_nat n :: u32)" "unat (of_nat n :: u32) = n"
proof -
  have "n < 2 ^ 32" using assms by (meson less_le_trans power_increasing_iff one_less_numeral_iff
        less_imp_le_nat semiring_norm(76))
  then have "take_bit 32 n = n" by (rule take_bit_nat_eq_self)
  then show u: "unat (of_nat n :: u32) = n" by (simp add: unsigned_of_nat)
  have "unat (of_nat n AND mask k :: u32) = unat (of_nat n :: u32)"
    unfolding unat_and_mask u using assms(1) by simp
  then show "of_nat n AND mask k = (of_nat n :: u32)" by (simp only: word_unat_eq_iff)
qed

lemma reg_field:
  "d \<le> 7 \<Longrightarrow> of_nat d AND 7 = (of_nat d :: u32)" "d \<le> 7 \<Longrightarrow> fmt_u32 (of_nat d) = fmt_u d"
  using and_mask_small [of d 3] by (simp_all add: mask_literals fmt_u32_def)

lemma imm_field:
  "i < 2 ^ 20 \<Longrightarrow> of_nat i AND 0xFFFFF = (of_nat i :: u32)" "i < 2 ^ 20 \<Longrightarrow> unat (of_nat i :: u32) = i"
  using and_mask_small [of i 20] by (simp_all add: mask_literals)

lemma op_field: "op < 12 \<Longrightarrow> op AND 63 = (op :: u32)"
  using op_fits by simp

lemma disassemble_word:
  assumes "mem_load_u32 (vm_mem vm) a = i"
  shows "disassemble_one vm a = (
     let op = decode_op i; dst = fmt_u32 (decode_dst i); src = fmt_u32 (decode_src i);
         imm = fmt_x (unat (decode_imm i))
     in if op = 0 then ''HALT''
        else if op = 1 then ''LOAD  R'' @ dst @ '', [0x'' @ imm @ '']''
        else if op = 2 then ''STORE R'' @ dst @ '', [0x'' @ imm @ '']''
        else if op = 3 then ''ADD   R'' @ dst @ '', R'' @ src
        else if op = 4 then ''SUB   R'' @ dst @ '', R'' @ src
        else if op = 5 then ''MUL   R'' @ dst @ '', R'' @ src
        else if op = 6 then ''DIV   R'' @ dst @ '', R'' @ src
        else if op = 7 then ''JUMP  0x'' @ imm
        else if op = 8 then ''JNZ   R'' @ dst @ '', 0x'' @ imm
        else if op = 9 then ''IN    R'' @ dst
        else if op = 10 then ''RAND  R'' @ dst
        else if op = 11 then ''LI    R'' @ dst @ '', 0x'' @ imm
        else ''???  opcode 0x'' @ pad_left 2 (CHR ''0'') (fmt_x (unat op)) @ '' (unrecognized)'')"
proof -
  have "mem_load_u32 (vm_mem vm) (a AND MEM_MASK) = i"
    using assms by (simp add: mem_load_u32_def)
  then show ?thesis
    unfolding disassemble_one_def mem_load_u32_def Let_def mask_idem by (simp add: const_defs)
qed

lemma plain_hex: "plain (''0x'' @ fmt_x n)"
proof -
  have "plain ''0x''" by (simp add: plain_def isspace_def)
  then show ?thesis by (rule plain_app) (rule plain_fmt_x)
qed

text \<open>The lines the disassembler prints, in the shapes the assembler's lemmas know.\<close>

fun disassembly :: "instr \<Rightarrow> string" where
  "disassembly I_HALT = ''HALT''"
| "disassembly (I_LOAD d n) = ''LOAD'' @ blanks 1 @ (CHR ''R'' # fmt_u d) @ '', '' @ ''[0x'' @ fmt_x n @ '']''"
| "disassembly (I_STORE d n) = ''STORE'' @ blanks 0 @ (CHR ''R'' # fmt_u d) @ '', '' @ ''[0x'' @ fmt_x n @ '']''"
| "disassembly (I_ADD d s) = ''ADD'' @ blanks 2 @ (CHR ''R'' # fmt_u d) @ '', '' @ (CHR ''R'' # fmt_u s)"
| "disassembly (I_SUB d s) = ''SUB'' @ blanks 2 @ (CHR ''R'' # fmt_u d) @ '', '' @ (CHR ''R'' # fmt_u s)"
| "disassembly (I_MUL d s) = ''MUL'' @ blanks 2 @ (CHR ''R'' # fmt_u d) @ '', '' @ (CHR ''R'' # fmt_u s)"
| "disassembly (I_DIV d s) = ''DIV'' @ blanks 2 @ (CHR ''R'' # fmt_u d) @ '', '' @ (CHR ''R'' # fmt_u s)"
| "disassembly (I_JUMP n) = ''JUMP'' @ blanks 1 @ ''0x'' @ fmt_x n"
| "disassembly (I_JNZ d n) = ''JNZ'' @ blanks 2 @ (CHR ''R'' # fmt_u d) @ '', '' @ ''0x'' @ fmt_x n"
| "disassembly (I_IN d) = ''IN'' @ blanks 3 @ CHR ''R'' # fmt_u d"
| "disassembly (I_RAND d) = ''RAND'' @ blanks 1 @ CHR ''R'' # fmt_u d"
| "disassembly (I_LI d n) = ''LI'' @ blanks 3 @ (CHR ''R'' # fmt_u d) @ '', '' @ ''0x'' @ fmt_x n"

lemma ops_as_words:
  "ucast OP_HALT = (0 :: u32)" "ucast OP_LOAD = (1 :: u32)" "ucast OP_STORE = (2 :: u32)" "ucast OP_ADD = (3 :: u32)"
  "ucast OP_SUB = (4 :: u32)" "ucast OP_MUL = (5 :: u32)" "ucast OP_DIV = (6 :: u32)" "ucast OP_JUMP = (7 :: u32)"
  "ucast OP_JNZ = (8 :: u32)" "ucast OP_IN = (9 :: u32)" "ucast OP_RAND = (10 :: u32)" "ucast OP_LI = (11 :: u32)"
  by (simp_all add: const_defs)

lemma blanks_shown: "blanks (Suc 0) = ''  ''" "blanks 1 = ''  ''" "blanks 2 = ''   ''" "blanks 3 = ''    ''"
  by (simp_all add: blanks_def numeral_2_eq_2 numeral_3_eq_3)

lemma disassembled:
  assumes "mem_load_u32 (vm_mem vm) a = instr_word i" "valid_instr i"
  shows "disassemble_one vm a = disassembly i"
proof -
  note d = disassemble_word [OF assms(1)]
  show ?thesis
    using assms(2)
    by (cases i; simp only: d instr_word.simps ops_as_words decode_encode)
      (simp_all add: reg_field imm_field blanks_0 blanks_shown Let_def)
qed

lemma assembles_disassembly:
  assumes "valid_instr i" "\<forall>d n. i \<noteq> I_LOAD d n \<and> i \<noteq> I_STORE d n"
  shows "assembles (disassembly i) (instr_word i)"
proof (cases i)
  case (I_JUMP n)
  then show ?thesis
    using assms assembles_jump [OF plain_hex parse_imm_print(2), of n 1] by (simp add: ops_as_words)
next
  case (I_IN d)
  then show ?thesis
    using assms assembles_one_reg [OF _ plain_mnemonics(10) opcode_of(10), of d 3] by (simp add: ops_as_words)
next
  case (I_RAND d)
  then show ?thesis
    using assms assembles_one_reg [OF _ plain_mnemonics(11) opcode_of(11), of d 1] by (simp add: ops_as_words)
qed (use assms assembles_halt in \<open>auto simp: ops_as_words opcode_of plain_mnemonics parse_imm_print plain_hex
       simp del: append_Cons append.simps blanks_shown intro!: assembles_two_regs assembles_reg_imm\<close>)

lemma plain_bracketed: "plain (''[0x'' @ fmt_x n @ '']'')"
proof -
  have "plain ''[''" "plain '']''" by (simp_all add: plain_def isspace_def)
  from plain_app [OF this(1) plain_app [OF plain_hex [of n] this(2)]] show ?thesis by simp
qed

lemma parse_imm_bracketed:
  "parse_imm src l (''[0x'' @ fmt_x n @ '']'') =
     Inl (at_line src l (''bad immediate '' @ sq @ ''[0x'' @ fmt_x n @ '']'' @ sq))"
proof -
  let ?t = "''[0x'' @ fmt_x n @ '']''"
  have "strtoul 0 (CHR ''['' # s) = (0, CHR ''['' # s)" for s
  proof -
    have "\<not> has_hex_prefix (CHR ''['' # s)" by (simp add: has_hex_prefix_def split: list.split)
    then show ?thesis
      by (simp add: strtoul_def isspace_def is_digit_def digit_val_def Let_def)
  qed
  then have "strtoul 0 ?t = (0, ?t)" by simp
  then show ?thesis
    using c_str_plain [OF plain_bracketed, of n] by (simp add: parse_imm_def)
qed

section \<open>Properties\<close>

text \<open>
  C30: what the debugger's \<open>where\<close> prints can be assembled again: for every instruction but \<open>LOAD\<close> and
  \<open>STORE\<close>, if the memory at an address holds its word, the line \<open>disassemble_one\<close> prints for that
  address is accepted by the assembler and gives exactly that word.
\<close>

theorem disassembly_reassembles:
  assumes "mem_load_u32 (vm_mem vm) a = instr_word i" and "valid_instr i"
    and "\<forall>d n. i \<noteq> I_LOAD d n \<and> i \<noteq> I_STORE d n"
  shows "asm_line src l (disassemble_one vm a) = Inr (Some (instr_word i))"
  using assembles_disassembly [OF assms(2,3)] asm_line_clean(1) [of "disassembly i" src l]
  by (simp add: disassembled [OF assms(1,2)] assembles_def)

text \<open>A machine whose memory holds one word at address 0.\<close>

definition word_vm :: "u32 \<Rightarrow> unit VM" where
  "word_vm v = (sample_vm [])\<lparr>vm_mem := mem_store_u32 (\<lambda>_. 0) 0 v\<rparr>"

lemma word_vm_load: "mem_load_u32 (vm_mem (word_vm v)) 0 = v"
  by (simp add: word_vm_def mem_load_store_same)

theorem disassembly_reassembles_witness:
  "asm_line ''p.asm'' 1 (disassemble_one (word_vm (instr_word (I_JNZ 3 0x24))) 0)
     = Inr (Some (encode 8 3 0 0x24))"
proof -
  have i: "valid_instr (I_JNZ 3 0x24)" "\<forall>d n. I_JNZ 3 0x24 \<noteq> I_LOAD d n \<and> I_JNZ 3 0x24 \<noteq> I_STORE d n"
    by simp_all
  from disassembly_reassembles [OF word_vm_load i, of "''p.asm''" 1] show ?thesis
    by (simp add: const_defs)
qed

text \<open>
  Memory instructions are the exception: the disassembler prints \<open>LOAD\<close> and \<open>STORE\<close> with a bracketed
  address, which the assembler refuses as a bad immediate, although the comment above
  \<open>disassemble_one\<close> says that it mirrors the syntax of \<open>retrovm asm\<close>.
\<close>

theorem memory_disassembly_rejected:
  assumes "mem_load_u32 (vm_mem vm) a = instr_word i" and "valid_instr i"
    and "i = I_LOAD d n \<or> i = I_STORE d n"
  shows "asm_line src l (disassemble_one vm a) =
    Inl (at_line src l (''bad immediate '' @ sq @ ''[0x'' @ fmt_x n @ '']'' @ sq))"
proof -
  let ?b = "''[0x'' @ fmt_x n @ '']''"
  have mem: "asm_line src l (m @ blanks k @ (CHR ''R'' # fmt_u d) @ '', '' @ ?b) =
      Inl (at_line src l (''bad immediate '' @ sq @ ?b @ sq))"
    if m: "plain m" "map_of kOpcodes (upcase m) = Some op" "op \<in> {1, 2}" for m k op
  proof -
    note w = three_words [OF m(1) plain_reg plain_bracketed, of k d n]
    have "strip_comma (CHR ''R'' # fmt_u d @ '','') = CHR ''R'' # fmt_u d" "strip_comma ?b = ?b"
      using strip_comma_plain(2) [OF plain_reg, of d] strip_comma_plain(1) [OF plain_bracketed, of n]
      by simp_all
    moreover have "d \<le> 7" using assms(2,3) by auto
    moreover have "op \<in> {1, 2, 8, 11}" using m(3) by blast
    ultimately have "asm_words src l [m, (CHR ''R'' # fmt_u d) @ '','', ?b] =
        Inl (at_line src l (''bad immediate '' @ sq @ ?b @ sq))"
      using m(2) parse_imm_bracketed [of src l n]
      by (simp add: asm_words_def word_at_simps operands_of(6) reg_operand_print)
    then show ?thesis
      unfolding asm_line_clean(1) [OF w(2)] w(1) by simp
  qed
  show ?thesis
    unfolding disassembled [OF assms(1,2)]
    using assms(3) mem [OF plain_mnemonics(2) opcode_of(2), of 1] mem [OF plain_mnemonics(3) opcode_of(3), of 0]
    by (auto simp del: append.simps)
qed

theorem memory_disassembly_rejected_witness:
  "asm_line ''p.asm'' 1 (disassemble_one (word_vm (instr_word (I_LOAD 3 0x100))) 0)
     = Inl (at_line ''p.asm'' 1 (''bad immediate '' @ sq @ ''[0x'' @ fmt_x 0x100 @ '']'' @ sq))"
proof -
  have i: "valid_instr (I_LOAD 3 0x100)" "I_LOAD 3 0x100 = I_LOAD 3 0x100 \<or> I_LOAD 3 0x100 = I_STORE 3 0x100"
    by simp_all
  from memory_disassembly_rejected [OF word_vm_load i] show ?thesis .
qed

end
