(* ===== verification/Inspect.thy ===== *)
theory Inspect
  imports RecordReplay Checkpoint
begin

text \<open>
  The offline readers of \<open>src/main.cpp\<close>: \<open>inspect\<close> prints a checkpoint, \<open>inspect --diff\<close> the fields
  in which two checkpoints differ, \<open>trace\<close> the contents of a trace file. None of them runs a
  machine.
\<close>

section \<open>inspect\<close>

definition zcs :: "u32 \<Rightarrow> string" where
  "zcs f = [flag_char f 1 (CHR ''Z''), flag_char f 2 (CHR ''C''), flag_char f 4 (CHR ''S'')]"

definition inspect_text :: "string \<Rightarrow> CheckpointState \<Rightarrow> string" where
  "inspect_text state_path c =
     ''=== RetroVM checkpoint inspect ==='' @ nl @
     ''file        : '' @ state_path @ nl @
     ''frame_index : '' @ fmt_u32 (ck_frame_index c) @ nl @
     ''halt reason: '' @ fmt_u32 (ck_halted c) @ nl @
     ''halt_legend: (1=normal 2=div0 3=unk 4=trace_eof 5=diverge 6=checkpoint)'' @ nl @
     ''pc / sp     : 0x'' @ fmt_08x (ck_pc c) @ '' / 0x'' @ fmt_08x (ck_sp c) @ nl @
     ''flags (ZCS): '' @ zcs (ck_flags c) @ nl @
     ''regs        : R0='' @ fmt_u32 (ck_regs c ! 0) @ '' R1='' @ fmt_u32 (ck_regs c ! 1) @
     '' R2='' @ fmt_u32 (ck_regs c ! 2) @ '' R3='' @ fmt_u32 (ck_regs c ! 3) @
     '' R4='' @ fmt_u32 (ck_regs c ! 4) @ '' R5='' @ fmt_u32 (ck_regs c ! 5) @
     '' R6='' @ fmt_u32 (ck_regs c ! 6) @ '' R7='' @ fmt_u32 (ck_regs c ! 7) @ nl"

definition cmd_inspect :: "string \<Rightarrow> world \<Rightarrow> outcome \<times> world" where
  "cmd_inspect state_path w = (case checkpoint_load state_path w of
     (None, w) \<Rightarrow> (Exit 1, w)
   | (Some c, w) \<Rightarrow> (Exit 0, print_out (inspect_text state_path c) w))"

section \<open>inspect --diff\<close>

text \<open>
  One comparison: the row is printed, and counted in \<open>n_diffs\<close>, when the two fields differ. The
  state is the printed text and the counter.
\<close>

definition diff_row :: "bool \<Rightarrow> string \<Rightarrow> string \<times> nat \<Rightarrow> string \<times> nat" where
  "diff_row differ row t = (case t of (out, n_diffs) \<Rightarrow>
     if differ then (out @ row @ nl, n_diffs + 1) else (out, n_diffs))"

definition diff_reg :: "CheckpointState \<Rightarrow> CheckpointState \<Rightarrow> nat \<Rightarrow> string \<times> nat \<Rightarrow> string \<times> nat" where
  "diff_reg a b i = diff_row (ck_regs a ! i \<noteq> ck_regs b ! i)
     (''R'' @ fmt_u i @ ''         : a='' @ fmt_u32 (ck_regs a ! i) @ '' b='' @
        fmt_u32 (ck_regs b ! i))"

definition diff_rows :: "CheckpointState \<Rightarrow> CheckpointState \<Rightarrow> string \<times> nat" where
  "diff_rows a b = (
     let t = ([], 0);
         t = diff_row (ck_frame_index a \<noteq> ck_frame_index b)
               (''frame_index : a='' @ fmt_u32 (ck_frame_index a) @ '' b='' @
                  fmt_u32 (ck_frame_index b)) t;
         t = diff_row (ck_halted a \<noteq> ck_halted b)
               (''halt reason: a='' @ fmt_u32 (ck_halted a) @ '' b='' @ fmt_u32 (ck_halted b)) t;
         t = diff_row (ck_pc a \<noteq> ck_pc b)
               (''pc          : a=0x'' @ fmt_08x (ck_pc a) @ '' b=0x'' @ fmt_08x (ck_pc b)) t;
         t = diff_row (ck_sp a \<noteq> ck_sp b)
               (''sp          : a=0x'' @ fmt_08x (ck_sp a) @ '' b=0x'' @ fmt_08x (ck_sp b)) t;
         t = diff_row (ck_flags a \<noteq> ck_flags b)
               (''flags (ZCS) : a='' @ zcs (ck_flags a) @ '' b='' @ zcs (ck_flags b)) t
     in fold (diff_reg a b) [0..<8] t)"

definition diff_banner :: "string \<Rightarrow> string \<Rightarrow> string" where
  "diff_banner a_path b_path = ''=== RetroVM checkpoint diff ==='' @ nl @
     ''state a   : '' @ a_path @ nl @ ''state b   : '' @ b_path @ nl"

definition no_diffs :: string where
  "no_diffs = ''(no differing fields)'' @ nl"

definition cmd_inspect_diff :: "string \<Rightarrow> string \<Rightarrow> world \<Rightarrow> outcome \<times> world" where
  "cmd_inspect_diff a_path b_path w = (case checkpoint_load a_path w of
     (None, w) \<Rightarrow> (Exit 1, w)
   | (Some a, w) \<Rightarrow> (case checkpoint_load b_path w of
        (None, w) \<Rightarrow> (Exit 1, w)
      | (Some b, w) \<Rightarrow>
          let w = print_out (diff_banner a_path b_path) w in
          (case diff_rows a b of (rows, n_diffs) \<Rightarrow>
             let w = print_out rows w in
             (Exit 0, if n_diffs = 0 then print_out no_diffs w else w))))"

section \<open>trace\<close>

text \<open>
  The aggregates of one pass over the frames: first and last cycle and the three opcode counters.
  The pass indexes the reader, and stops where it has no frame.
\<close>

record TraceStats =
  first_cycle :: u64
  last_cycle :: u64
  op_in_count :: nat
  op_rand_count :: nat
  op_other_count :: nat

definition count_frame :: "nat \<Rightarrow> TraceFrame \<Rightarrow> TraceStats \<Rightarrow> TraceStats" where
  "count_frame i f t = (
     let t = (if i = 0 then t\<lparr>first_cycle := f_cycle f\<rparr> else t);
         t = t\<lparr>last_cycle := f_cycle f\<rparr>
     in if f_opcode f = OP_IN then t\<lparr>op_in_count := op_in_count t + 1\<rparr>
        else if f_opcode f = OP_RAND then t\<lparr>op_rand_count := op_rand_count t + 1\<rparr>
        else t\<lparr>op_other_count := op_other_count t + 1\<rparr>)"

fun scan_frames :: "TraceReader \<Rightarrow> nat list \<Rightarrow> TraceStats \<Rightarrow> TraceStats" where
  "scan_frames reader [] t = t"
| "scan_frames reader (i # is) t = (case frame_at reader i of
     None \<Rightarrow> t
   | Some f \<Rightarrow> scan_frames reader is (count_frame i f t))"

definition trace_stats :: "TraceReader \<Rightarrow> TraceStats" where
  "trace_stats reader = scan_frames reader [0..<rd_frame_count reader]
     \<lparr>first_cycle = 0, last_cycle = 0, op_in_count = 0, op_rand_count = 0, op_other_count = 0\<rparr>"

definition magic_text :: "TraceReader \<Rightarrow> string" where
  "magic_text reader = map (\<lambda>b. char_of (unat b)) (takeWhile (\<lambda>b. b \<noteq> 0) (take 8 (rd_magic reader)))"

definition trace_heading :: "string \<Rightarrow> string" where
  "trace_heading trace_path =
     ''=== RetroVM trace inspect ==='' @ nl @ ''file        : '' @ trace_path @ nl"

definition op_name :: "u8 \<Rightarrow> string" where
  "op_name p = (if p = OP_IN then ''OP_IN'' else if p = OP_RAND then ''OP_RAND'' else ''unknown'')"

definition frame_text :: "nat \<Rightarrow> TraceFrame \<Rightarrow> string" where
  "frame_text i f =
     ''frame_index : '' @ fmt_u i @ nl @
     ''cycle       : '' @ fmt_u64 (f_cycle f) @ nl @
     ''opcode      : 0x'' @ fmt_02X (f_opcode f) @ '' ('' @ op_name (f_opcode f) @ '')'' @ nl @
     ''value       : '' @ fmt_u32 (f_value f) @ nl"

definition cycles_text :: "nat \<Rightarrow> TraceStats \<Rightarrow> string" where
  "cycles_text n_frames t = (if n_frames > 0
     then ''cycle_first : '' @ fmt_u64 (first_cycle t) @ nl @
          ''cycle_last  : '' @ fmt_u64 (last_cycle t) @ nl @
          ''cycle_delta : '' @ fmt_u64 (last_cycle t - first_cycle t) @ nl
     else ''cycle_first : (none)'' @ nl @ ''cycle_last  : (none)'' @ nl @ ''cycle_delta : 0'' @ nl)"

definition stats_text :: "nat \<Rightarrow> TraceStats \<Rightarrow> string" where
  "stats_text n_frames t =
     ''frame_count : '' @ fmt_u n_frames @ nl @ cycles_text n_frames t @
     ''op_IN       : '' @ fmt_u (op_in_count t) @ nl @
     ''op_RAND     : '' @ fmt_u (op_rand_count t) @ nl @
     (if op_other_count t > 0 then ''op_other    : '' @ fmt_u (op_other_count t) @ nl else [])"

text \<open>
  The branch for a reader that opened but is not \<open>valid\<close> is absent: \<open>valid\<close> tests that the file is
  mapped, and a constructor that returns has mapped it.
\<close>

definition cmd_inspect_trace :: "string \<Rightarrow> bool \<Rightarrow> nat \<Rightarrow> world \<Rightarrow> outcome \<times> world" where
  "cmd_inspect_trace trace_path has_frame idx w = (case TraceReader_open trace_path w of
     Inl what \<Rightarrow> (Exit 1, print_err (''retrovm trace: cannot open '' @ sq @ trace_path @ sq @ '': '' @
        what @ nl) w)
   | Inr reader \<Rightarrow>
       if has_frame then
         (case frame_at reader idx of
            None \<Rightarrow> (Exit 1, print_err (''retrovm trace: --frame='' @ fmt_u idx @
               '' out of range (trace has '' @ fmt_u (rd_frame_count reader) @ '' frames in '' @ sq @
               trace_path @ sq @ '')'' @ nl) w)
          | Some f \<Rightarrow> (Exit 0, print_out (trace_heading trace_path @ frame_text idx f) w))
       else
         (Exit 0, print_out (trace_heading trace_path @
            ''size_bytes  : '' @ fmt_u (rd_size reader) @ nl @
            ''magic       : \"'' @ magic_text reader @ ''\"'' @ nl @
            ''version     : '' @ fmt_u32 (rd_version reader) @ nl @
            stats_text (rd_frame_count reader) (trace_stats reader)) w))"

section \<open>What the comparison shows\<close>

lemma diff_row_count: "snd (diff_row d row t) = snd t + of_bool d"
  by (cases t) (simp add: diff_row_def)

lemma fold_diff_reg_count:
  "snd (fold (diff_reg a b) is t) = snd t + length (filter (\<lambda>i. ck_regs a ! i \<noteq> ck_regs b ! i) is)"
  by (induction "is" arbitrary: t) (simp_all add: diff_reg_def diff_row_count)

text \<open>What each comparison keeps: text iff counted, and the first row does not start with a parenthesis.\<close>

definition diff_ok :: "string \<times> nat \<Rightarrow> bool" where
  "diff_ok t \<longleftrightarrow> (fst t = [] \<longleftrightarrow> snd t = 0) \<and> (\<forall>r. fst t \<noteq> CHR ''('' # r)"

lemma diff_ok_row: "diff_ok t \<Longrightarrow> row \<noteq> [] \<Longrightarrow> hd row \<noteq> CHR ''('' \<Longrightarrow> diff_ok (diff_row d row t)"
  by (cases t; cases row; cases "fst t") (auto simp: diff_ok_def diff_row_def)

lemma diff_ok_reg: "diff_ok t \<Longrightarrow> diff_ok (diff_reg a b i t)"
  unfolding diff_reg_def by (rule diff_ok_row) simp_all

lemma diff_ok_regs: "diff_ok t \<Longrightarrow> diff_ok (fold (diff_reg a b) is t)"
  by (induction "is" arbitrary: t) (simp_all add: diff_ok_reg)

lemma diff_ok_rows: "diff_ok (diff_rows a b)"
  unfolding diff_rows_def Let_def
  by (intro diff_ok_regs diff_ok_row) (simp_all add: diff_ok_def)

lemma diff_rows_equal:
  assumes "length (ck_regs a) = 8" "length (ck_regs b) = 8"
  shows "snd (diff_rows a b) = 0 \<longleftrightarrow> a = b"
proof -
  have "snd (diff_rows a b) = 0 \<longleftrightarrow> ck_frame_index a = ck_frame_index b \<and> ck_halted a = ck_halted b
      \<and> ck_pc a = ck_pc b \<and> ck_sp a = ck_sp b \<and> ck_flags a = ck_flags b
      \<and> (\<forall>i < 8. ck_regs a ! i = ck_regs b ! i)"
    by (auto simp: diff_rows_def Let_def fold_diff_reg_count diff_row_count filter_empty_conv)
  also have "\<dots> \<longleftrightarrow> a = b"
    using assms by (cases a; cases b) (auto intro!: nth_equalityI)
  finally show ?thesis .
qed

text \<open>A checkpoint that loads is the one whose bytes the file starts with.\<close>

lemma concat_words:
  "concat (map (\<lambda>i. take 4 (drop (k + i * 4) bs)) [0..<n]) = take (n * 4) (drop k bs)"
proof (induction n)
  case (Suc n)
  have "take (Suc n * 4) (drop k bs) = take (n * 4) (drop k bs) @ take 4 (drop (n * 4) (drop k bs))"
    using take_add [of "n * 4" 4 "drop k bs"] by (simp add: add.commute)
  with Suc show ?case by (simp add: add.commute)
qed simp

lemma loaded_bytes:
  assumes "checkpoint_load p w = (Some a, w')"
  obtains bs where "files w p = Some bs" "take 64 bs = state_bytes a" "length (ck_regs a) = 8" "w' = w"
proof -
  from assms obtain bs where f: "files w p = Some bs" and len: "64 \<le> length bs"
    and magic: "take 8 bs = str_bytes ''RVMSTATE''"
    and version: "of_le_bytes (take 4 (drop 8 bs)) = (1 :: u32)" and w': "w' = w"
    and a: "a = \<lparr>ck_frame_index = of_le_bytes (take 4 (drop 12 bs)),
      ck_halted = of_le_bytes (take 4 (drop 16 bs)), ck_flags = of_le_bytes (take 4 (drop 20 bs)),
      ck_regs = map (\<lambda>i. of_le_bytes (take 4 (drop (24 + i * 4) bs))) [0..<8],
      ck_pc = of_le_bytes (take 4 (drop 56 bs)), ck_sp = of_le_bytes (take 4 (drop 60 bs))\<rparr>"
    by (auto simp: checkpoint_load_def ck_header_of_def ck_body_of_def sizeof_checkpoint_defs Let_def
        add.commute split: option.splits if_splits)
  have word: "le_bytes 4 (of_le_bytes (take 4 (drop k bs)) :: u32) = take 4 (drop k bs)"
    if "k + 4 \<le> length bs" for k
    using that by (intro le_bytes_of_le_bytes) simp
  have fields: "le_bytes 4 (ck_frame_index a) = take 4 (drop 12 bs)"
    "le_bytes 4 (ck_halted a) = take 4 (drop 16 bs)" "le_bytes 4 (ck_flags a) = take 4 (drop 20 bs)"
    "le_bytes 4 (ck_pc a) = take 4 (drop 56 bs)" "le_bytes 4 (ck_sp a) = take 4 (drop 60 bs)"
    using len by (simp_all add: a word)
  have one: "le_bytes 4 (1 :: u32) = take 4 (drop 8 bs)"
    using word [of 8] len version by simp
  have "map (\<lambda>i. le_bytes 4 (b_regs (make_body a) ! i)) [0..<8]
      = map (\<lambda>i. take 4 (drop (24 + i * 4) bs)) [0..<8]"
    using len by (auto simp: a word make_body_def)
  then have regs: "concat (map (\<lambda>i. le_bytes 4 (b_regs (make_body a) ! i)) [0..<8]) = take 32 (drop 24 bs)"
    by (simp only: concat_words) simp
  have "state_bytes a = take 8 bs @ take 4 (drop 8 bs) @ take 4 (drop 12 bs) @ take 4 (drop 16 bs)
      @ take 4 (drop 20 bs) @ take 32 (drop 24 bs) @ take 4 (drop 56 bs) @ take 4 (drop 60 bs)"
    unfolding state_bytes_def ck_header_bytes_def ck_body_bytes_def regs
    by (simp add: make_header_def make_body_def fields one magic)
  also have "\<dots> = take (8 + (4 + (4 + (4 + (4 + (32 + (4 + 4))))))) bs"
    unfolding take_add drop_drop by simp
  finally show ?thesis
    using that f w' by (simp add: a)
qed

lemma state_bytes_inject:
  assumes "state_bytes a = state_bytes b" "length (ck_regs a) = 8" "length (ck_regs b) = 8"
  shows "a = b"
proof -
  let ?w = "write_file ''s'' (state_bytes a) no_files"
  have "checkpoint_load ''s'' ?w = (Some a, ?w)" "checkpoint_load ''s'' ?w = (Some b, ?w)"
    by (rule checkpoint_load_state_bytes; simp add: assms)+
  then show ?thesis by (metis Pair_inject option.inject)
qed

text \<open>
  C22: \<open>inspect --diff\<close> misses no difference. For two checkpoints that load, the command exits with
  0, changes no file, and prints the banner and then either rows of differing fields or
  \<open>(no differing fields)\<close>; it prints the latter exactly when the 64 bytes that make up the two
  checkpoints are the same.
\<close>

theorem diff_complete:
  assumes "checkpoint_load p w = (Some a, w1)" and "checkpoint_load q w = (Some b, w2)"
  shows "\<exists>w' rows. cmd_inspect_diff p q w = (Exit 0, w') \<and> files w' = files w \<and> stderr w' = stderr w
    \<and> stdout w' = stdout w @ diff_banner p q @ rows \<and> rows \<noteq> []
    \<and> (rows = no_diffs \<longleftrightarrow> take 64 (the (files w p)) = take 64 (the (files w q)))"
proof -
  from loaded_bytes [OF assms(1)] obtain s
    where s: "files w p = Some s" "take 64 s = state_bytes a" "length (ck_regs a) = 8" "w1 = w" .
  from loaded_bytes [OF assms(2)] obtain t
    where t: "files w q = Some t" "take 64 t = state_bytes b" "length (ck_regs b) = 8" "w2 = w" .
  have eq: "take 64 s = take 64 t \<longleftrightarrow> snd (diff_rows a b) = 0"
    using s(2,3) t(2,3) state_bytes_inject diff_rows_equal by metis
  obtain rows n where r: "diff_rows a b = (rows, n)" by fastforce
  with diff_ok_rows [of a b] have "rows = [] \<longleftrightarrow> n = 0" "rows \<noteq> no_diffs"
    by (auto simp: diff_ok_def no_diffs_def)
  then show ?thesis
    using assms s t eq r by (cases "n = 0") (simp_all add: cmd_inspect_diff_def no_diffs_def nl_def Let_def)
qed

theorem diff_complete_witness:
  "\<exists>w' rows. cmd_inspect_diff ''a'' ''b''
       (write_file ''b'' (state_bytes (sample_state\<lparr>ck_sp := 7\<rparr>)) (write_file ''a'' (state_bytes sample_state) no_files))
     = (Exit 0, w') \<and> stdout w' = diff_banner ''a'' ''b'' @ rows \<and> rows \<noteq> no_diffs"
proof -
  let ?w = "write_file ''b'' (state_bytes (sample_state\<lparr>ck_sp := 7\<rparr>))
    (write_file ''a'' (state_bytes sample_state) no_files)"
  have l: "length (ck_regs sample_state) = 8" "length (ck_regs (sample_state\<lparr>ck_sp := 7\<rparr>)) = 8"
    by (simp_all add: sample_state_def)
  have "sample_state \<noteq> sample_state\<lparr>ck_sp := 7\<rparr>" by (simp add: sample_state_def)
  with l have ne: "state_bytes sample_state \<noteq> state_bytes (sample_state\<lparr>ck_sp := 7\<rparr>)"
    using state_bytes_inject by blast
  have "checkpoint_load ''a'' ?w = (Some sample_state, ?w)"
    "checkpoint_load ''b'' ?w = (Some (sample_state\<lparr>ck_sp := 7\<rparr>), ?w)"
    using l by (simp_all add: checkpoint_load_state_bytes)
  from diff_complete [OF this] ne show ?thesis
    by (auto simp: length_state_bytes no_files_def)
qed

section \<open>What the aggregates are\<close>

definition count_op :: "u8 \<Rightarrow> TraceFrame list \<Rightarrow> nat" where
  "count_op p T = length (filter (\<lambda>f. f_opcode f = p) T)"

lemma scan_frames_from:
  "i \<le> length T \<Longrightarrow> scan_frames (reader_of T) [i..<length T] t =
     \<lparr>first_cycle = (if i = 0 \<and> T \<noteq> [] then f_cycle (hd T) else first_cycle t),
      last_cycle = (if i < length T then f_cycle (last T) else last_cycle t),
      op_in_count = op_in_count t + count_op OP_IN (drop i T),
      op_rand_count = op_rand_count t + count_op OP_RAND (drop i T),
      op_other_count = op_other_count t + length (filter (\<lambda>f. f_opcode f \<notin> {OP_IN, OP_RAND}) (drop i T))\<rparr>"
proof (induction "length T - i" arbitrary: i t)
  case 0
  then show ?case by (cases T) (auto simp: count_op_def)
next
  case (Suc n)
  then have i: "i < length T" by simp
  have IH: "scan_frames (reader_of T) [Suc i..<length T] u =
     \<lparr>first_cycle = first_cycle u,
      last_cycle = (if Suc i < length T then f_cycle (last T) else last_cycle u),
      op_in_count = op_in_count u + count_op OP_IN (drop (Suc i) T),
      op_rand_count = op_rand_count u + count_op OP_RAND (drop (Suc i) T),
      op_other_count = op_other_count u
        + length (filter (\<lambda>f. f_opcode f \<notin> {OP_IN, OP_RAND}) (drop (Suc i) T))\<rparr>" for u
    using Suc.hyps(1) [of "Suc i" u] Suc.hyps(2) i by simp
  have last: "\<not> Suc i < length T \<Longrightarrow> last T = T ! i"
    using i by (cases T rule: rev_cases) (auto simp: nth_append less_Suc_eq)
  have hd: "hd T = T ! 0" using i by (cases T) simp_all
  have ops: "OP_IN \<noteq> OP_RAND" by (simp add: OP_IN_def OP_RAND_def)
  show ?case
    using i ops last hd Cons_nth_drop_Suc [OF i, symmetric]
    by (auto simp: upt_conv_Cons frame_at_reader_of IH count_frame_def count_op_def Let_def)
qed

lemma trace_stats_reader_of:
  "trace_stats (reader_of T) =
     \<lparr>first_cycle = (if T = [] then 0 else f_cycle (hd T)),
      last_cycle = (if T = [] then 0 else f_cycle (last T)),
      op_in_count = count_op OP_IN T, op_rand_count = count_op OP_RAND T,
      op_other_count = length (filter (\<lambda>f. f_opcode f \<notin> {OP_IN, OP_RAND}) T)\<rparr>"
  using scan_frames_from [of 0 T] by (simp add: trace_stats_def reader_of_def)

lemma magic_text_reader_of: "magic_text (reader_of T) = ''RVMTRACE''"
proof -
  have "takeWhile (\<lambda>b. b \<noteq> 0) (take 8 (str_bytes ''RVMTRACE'')) = str_bytes ''RVMTRACE''"
    by (simp add: str_bytes_def)
  then show ?thesis
    by (simp only: magic_text_def reader_of_def TraceReader.simps text_of_str_bytes)
qed

text \<open>Every frame of a recording is for one of the two instructions that consult the environment.\<close>

definition io_frames :: "TraceFrame list \<Rightarrow> bool" where
  "io_frames T \<longleftrightarrow> (\<forall>f \<in> set T. f_opcode f \<in> {OP_IN, OP_RAND})"

lemma record_handler_io:
  assumes "exec_label l ops (u, w, g, fs) = Inl (u', w', g', fs')" "recording gen u" "io_frames fs"
  shows "io_frames fs'"
proof (cases "is_io l")
  case True
  with assms show ?thesis
    by (auto simp: is_io_def do_IN_def do_RAND_def recording_def record_hooks_def record_in_def
        record_rand_def record_observer_def observe_def trace_append_def access_defs io_frames_def
        Let_def split: prod.splits) blast+
next
  case False
  from exec_label_pure [OF False same_core_refl [of u], of "(w, g, fs)" "(w, g, fs)" ops] assms
  show ?thesis by (auto simp: pure_rel_def)
qed

lemma recording_io_step:
  assumes "goto_step (u, x) = Inl (u', x')" "recording gen u" "io_frames (frames_of (u, x))"
  shows "recording gen u' \<and> io_frames (frames_of (u', x'))"
proof -
  from assms(1) obtain u1 x1 l ops where t: "snap_tick (advance u, x) = (False, u1, x1)"
    and e: "exec_label l ops (u1, x1) = Inl (u', x')"
    by (rule goto_step_InlE) blast
  obtain w1 g1 fs1 where x1: "x1 = (w1, g1, fs1)" by (cases x1)
  obtain w' g' fs' where x': "x' = (w', g', fs')" by (cases x')
  note k = record_tick [OF assms(2) t]
  have "io_frames fs1" using assms(3) k(3) by (simp add: frames_of_def x1 split: prod.splits)
  from record_handler_io [OF e [unfolded x1 x'] k(2) this]
  show ?thesis
    using k(2) exec_label_frame(1,2) [OF e] by (simp add: recording_def frames_of_def x')
qed

lemma recorded_io:
  assumes "run_goto (u, w, g, []) = Some (res, u', w', g', T)" "recording gen u"
  shows "io_frames T"
proof -
  have "io_frames (frames_of (snd (res, u', w', g', T)))"
    using assms(1) unfolding run_goto_def
  proof (rule run_loop_invariant
      [where I = "\<lambda>c. recording gen (fst c) \<and> io_frames (frames_of c)"])
    show "recording gen (fst (u, w, g, [])) \<and> io_frames (frames_of (u, w, g, []))"
      using assms(2) by (simp add: io_frames_def frames_of_def)
  next
    fix c c' :: "'a recorder cfg"
    assume "recording gen (fst c) \<and> io_frames (frames_of c)" "goto_step c = Inl c'"
    then show "recording gen (fst c') \<and> io_frames (frames_of c')"
      using recording_io_step [of "fst c" "snd c" "fst c'" "snd c'" gen] by simp
  next
    fix c :: "'a recorder cfg" and r
    assume I: "recording gen (fst c) \<and> io_frames (frames_of c)" and s: "goto_step c = Inr r"
    have "recording gen (fst (snd r))"
      using I goto_step_stop_fixed [OF s] by (simp add: same_fixed_def recording_def)
    with I s show "io_frames (frames_of (snd r))"
      using recording_stop(2) [of "fst c" "snd c" "fst r" "fst (snd r)" "snd (snd r)" gen] by simp
  qed
  then show ?thesis by (simp add: frames_of_def)
qed

text \<open>
  C21: the trace reader accounts for every recorded input. When a recording has ended with an exit
  code other than 1, \<open>trace\<close> of the file it wrote exits with 0 and prints the file's size (16 bytes
  of header and 16 per frame), its magic and version, the number of frames, the cycles of the first
  and of the last frame, and the numbers of \<open>IN\<close> and of \<open>RAND\<close> frames, which add up to the number
  of frames: no \<open>op_other\<close> row is printed. Nor is the reserved word of the header, which the comment
  above the function lists.
\<close>

theorem recorded_trace_inspects:
  assumes rec: "cmd_record bin seed w = Some (Exit code, w1)" "code \<noteq> 1"
    and trace: "files w2 (bin @ ''.trace'') = files w1 (bin @ ''.trace'')"
      "fault w2 (bin @ ''.trace'') = None"
  shows "\<exists>T w3 i r. files w1 (bin @ ''.trace'') = Some (trace_bytes T) \<and> i + r = length T
    \<and> i = count_op OP_IN T \<and> r = count_op OP_RAND T
    \<and> cmd_inspect_trace (bin @ ''.trace'') False 0 w2 = (Exit 0, w3)
    \<and> stdout w3 = stdout w2 @ trace_heading (bin @ ''.trace'')
        @ ''size_bytes  : '' @ fmt_u (16 + 16 * length T) @ nl
        @ ''magic       : \"RVMTRACE\"'' @ nl @ ''version     : 1'' @ nl
        @ ''frame_count : '' @ fmt_u (length T) @ nl
        @ (if T = [] then ''cycle_first : (none)'' @ nl @ ''cycle_last  : (none)'' @ nl
             @ ''cycle_delta : 0'' @ nl
           else ''cycle_first : '' @ fmt_u64 (f_cycle (hd T)) @ nl
             @ ''cycle_last  : '' @ fmt_u64 (f_cycle (last T)) @ nl
             @ ''cycle_delta : '' @ fmt_u64 (f_cycle (last T) - f_cycle (hd T)) @ nl)
        @ ''op_IN       : '' @ fmt_u i @ nl @ ''op_RAND     : '' @ fmt_u r @ nl"
  using rec
proof (rule cmd_recordE)
  fix bs u r u' w' g' T
  assume u: "record_vm bs = (True, u)"
    and run: "run_goto (u, print_out (''retrovm: record '' @ sq @ bin @ sq @ '' ('' @
       fmt_u (length bs) @ '' bytes) seed=0x'' @ fmt_08x seed @ nl) w, mt_init seed, []) =
       Some (Returned r, u', w', g', T)"
    and tr: "files w1 (bin @ ''.trace'') = Some (trace_bytes T)"
  have io: "io_frames T" by (rule recorded_io [OF run record_vm_fresh(1) [OF u]])
  then have none: "filter (\<lambda>f. f_opcode f \<noteq> OP_IN \<and> f_opcode f \<noteq> OP_RAND) T = []"
    by (auto simp: io_frames_def filter_empty_conv)
  from io have sum: "count_op OP_IN T + count_op OP_RAND T = length T"
    by (induction T) (auto simp: count_op_def io_frames_def OP_IN_def OP_RAND_def)
  have rd: "TraceReader_open (bin @ ''.trace'') w2 = Inr (reader_of T)"
    using tr trace by (intro TraceReader_open_trace_bytes) simp_all
  have one: "fmt_u32 1 = ''1''"
    by (simp add: fmt_u32_def fmt_u_def fmt_base.simps digit_char_def char_of_eq_iff)
  have stats: "stats_text (length T) (trace_stats (reader_of T)) =
      ''frame_count : '' @ fmt_u (length T) @ nl
        @ (if T = [] then ''cycle_first : (none)'' @ nl @ ''cycle_last  : (none)'' @ nl
             @ ''cycle_delta : 0'' @ nl
           else ''cycle_first : '' @ fmt_u64 (f_cycle (hd T)) @ nl
             @ ''cycle_last  : '' @ fmt_u64 (f_cycle (last T)) @ nl
             @ ''cycle_delta : '' @ fmt_u64 (f_cycle (last T) - f_cycle (hd T)) @ nl)
        @ ''op_IN       : '' @ fmt_u (count_op OP_IN T) @ nl
        @ ''op_RAND     : '' @ fmt_u (count_op OP_RAND T) @ nl"
    by (cases "T = []") (simp_all add: stats_text_def cycles_text_def trace_stats_reader_of none)
  have sel: "rd_size (reader_of T) = 16 + 16 * length T" "rd_frame_count (reader_of T) = length T"
    "rd_version (reader_of T) = 1"
    by (simp_all add: reader_of_def length_trace_bytes sizeof_trace_defs)
  have "cmd_inspect_trace (bin @ ''.trace'') False 0 w2 = (Exit 0, print_out
     (trace_heading (bin @ ''.trace'') @ ''size_bytes  : '' @ fmt_u (16 + 16 * length T) @ nl @
      ''magic       : \"RVMTRACE\"'' @ nl @ ''version     : 1'' @ nl @
      stats_text (length T) (trace_stats (reader_of T))) w2)"
    by (simp add: cmd_inspect_trace_def rd sel magic_text_reader_of one)
  then show ?thesis
    using sum tr
    by (intro exI [of _ T] exI conjI) (auto simp: stats simp del: append.simps)
qed

theorem recorded_trace_inspects_witness:
  "\<exists>w1 T w3. cmd_record ''p'' 7 (sample_world in_bin) = Some (Exit 0, w1)
     \<and> files w1 ''p.trace'' = Some (trace_bytes T)
     \<and> cmd_inspect_trace ''p.trace'' False 0 w1 = (Exit 0, w3)"
proof -
  obtain w1 where w1: "cmd_record ''p'' 7 (sample_world in_bin) = Some (Exit 0, w1)"
    "fault w1 = (\<lambda>_. None)"
    using record_sample by blast
  from w1 recorded_trace_inspects [OF w1(1), of w1] show ?thesis by auto
qed

text \<open>\<open>trace --frame=N\<close> shows frame \<open>N\<close> or refuses.\<close>

lemma trace_frame_shown:
  assumes "files w p = Some (trace_bytes T)" and "fault w p = None"
  shows "cmd_inspect_trace p True n w =
    (if n < length T then (Exit 0, print_out (trace_heading p @ frame_text n (T ! n)) w)
     else (Exit 1, print_err (''retrovm trace: --frame='' @ fmt_u n @ '' out of range (trace has '' @
       fmt_u (length T) @ '' frames in '' @ sq @ p @ sq @ '')'' @ nl) w))"
  using TraceReader_open_trace_bytes [OF assms]
  by (simp add: cmd_inspect_trace_def frame_at_reader_of) (simp add: reader_of_def)

end
