(* ===== verification/Demo.thy ===== *)
theory Demo
  imports Bench
begin

text \<open>
  The built-in demo of \<open>src/main.cpp\<close>: a program of seven instructions, run and compared with the
  state it should end in.
\<close>

definition demo_program :: "u32 list" where
  "demo_program =
     [encode (ucast OP_LI) 0 0 5,
      encode (ucast OP_LI) 1 0 7,
      encode (ucast OP_LI) 2 0 5,
      encode (ucast OP_ADD) 2 1 0,
      encode (ucast OP_STORE) 2 0 0x100,
      encode (ucast OP_LOAD) 3 0 0x100,
      encode (ucast OP_HALT) 0 0 0]"

text \<open>One comparison: the line it prints and the count of failures.\<close>

definition demo_check :: "string \<Rightarrow> u64 \<Rightarrow> u64 \<Rightarrow> string \<times> nat \<Rightarrow> string \<times> nat" where
  "demo_check what got want t = (case t of (out, failures) \<Rightarrow>
     let ok = (got = want) in
     (out @ ''  '' @ pad_right 9 (CHR '' '') what @ '' got='' @ pad_right 10 (CHR '' '') (fmt_u64 got) @
        '' want='' @ pad_right 10 (CHR '' '') (fmt_u64 want) @ '' '' @ (if ok then ''OK'' else ''FAIL'') @ nl,
      if ok then failures else failures + 1))"

definition mem100 :: "mem \<Rightarrow> u32" where
  "mem100 m = ucast (m 0x100) OR push_bit 8 (ucast (m 0x101)) OR push_bit 16 (ucast (m 0x102))
     OR push_bit 24 (ucast (m 0x103))"

definition demo_checks :: "HaltReason \<Rightarrow> mem \<Rightarrow> VMState \<Rightarrow> string \<times> nat" where
  "demo_checks r m s = (
     let t = ([], 0);
         t = demo_check ''R0'' (ucast (regs s ! 0)) 5 t;
         t = demo_check ''R1'' (ucast (regs s ! 1)) 7 t;
         t = demo_check ''R2'' (ucast (regs s ! 2)) 12 t;
         t = demo_check ''R3'' (ucast (regs s ! 3)) 12 t;
         t = demo_check ''halt'' (ucast r) 1 t;
         t = demo_check ''cycles'' (cycle_count s) 7 t
     in demo_check ''mem[0x100]'' (ucast (mem100 m)) 12 t)"

text \<open>The result is \<open>Some (Exit 2)\<close> where the function calls \<open>exit\<close>, and \<open>None\<close> where it returns.\<close>

definition run_builtin_demo :: "u32 \<Rightarrow> world \<Rightarrow> (outcome option \<times> world) option" where
  "run_builtin_demo entropy w = (
     let vm = snd (load_program (program_bytes demo_program) (VM_new host_in host_rand));
         w = print_out (''=== RetroVM built-in demo ==='' @ nl) w
     in case vm_run (vm, w, mt_init entropy) of
          None \<Rightarrow> None
        | Some (Thrown e, _, w, _) \<Rightarrow> Some (Some (Uncaught (mismatch_what e)), w)
        | Some (Returned r, vm, w, _) \<Rightarrow>
            let w = print_out (dump_state (vm_state vm) r @ ''assertions:'' @ nl) w in
            (case demo_checks r (vm_mem vm) (vm_state vm) of (out, failures) \<Rightarrow>
               let w = print_out out w in
               if failures \<noteq> 0 then
                 Some (Some (Exit 2), print_err (''DEMO FAILED: '' @ fmt_u failures @ '' assertion(s)'' @ nl) w)
               else Some (None, print_out (''DEMO PASSED'' @ nl) w)))"

section \<open>What it shows\<close>

lemma demo_bytes: "program_bytes demo_program =
  [5, 0, 0, 44, 7, 0, 128, 44, 5, 0, 0, 45, 0, 0, 16, 13, 0, 1, 0, 9, 0, 1, 128, 5, 0, 0, 0, 0]"
  by (simp add: program_bytes_def demo_program_def encode_def const_defs le_bytes_def upt_rec)

lemma demo_run:
  "\<exists>vm. vm_run (snd (load_program (program_bytes demo_program) (VM_new host_in host_rand)), x)
       = Some (Returned HALT_NORMAL, vm, x)
     \<and> regs (vm_state vm) ! 0 = 5 \<and> regs (vm_state vm) ! 1 = 7 \<and> regs (vm_state vm) ! 2 = 12
     \<and> regs (vm_state vm) ! 3 = 12 \<and> cycle_count (vm_state vm) = 7 \<and> mem100 (vm_mem vm) = 12"
  apply (simp add: demo_bytes load_eval vm_run_def run_goto_def)
  apply (simp add: step_eval mem100_def)
  done

end
