(* ===== verification/Cli.thy ===== *)
theory Cli
  imports Resume Repl Assembler SnapshotRun Inspect Rewind Demo
begin

text \<open>
  \<open>main\<close> of \<open>src/main.cpp\<close>: the choice of the command and the parsing of its arguments.
\<close>

section \<open>Numbers on the command line\<close>

text \<open>
  \<open>strtoull(s, &end, 10)\<close> followed by the test \<open>end == s || *end\<close>: the number, if the text is one.
\<close>

definition parse_ull :: "string \<Rightarrow> u64 option" where
  "parse_ull s = (case strtoul 10 s of (parsed, rest) \<Rightarrow>
     if rest = s \<or> rest \<noteq> [] then None else Some parsed)"

text \<open>A count between 1 and 100000000, or the interval of \<open>snapshot\<close> between 1 and 10000000.\<close>

definition parse_count :: "u64 \<Rightarrow> string \<Rightarrow> nat option" where
  "parse_count limit s = (case parse_ull s of
     None \<Rightarrow> None
   | Some parsed \<Rightarrow> if parsed = 0 \<or> parsed > limit then None else Some (unat parsed))"

definition bad :: "string \<Rightarrow> world \<Rightarrow> (outcome \<times> world) option" where
  "bad text w = Some (Exit 1, print_err (text @ nl) w)"

section \<open>Options\<close>

definition seed_prefix :: string where "seed_prefix = ''--seed=''"
definition at_frame_prefix :: string where "at_frame_prefix = ''--at-frame=''"
definition frame_prefix :: string where "frame_prefix = ''--frame=''"

text \<open>The loops over the arguments behind the positional ones; \<open>Inl\<close> is the diagnostic.\<close>

fun record_options :: "string list \<Rightarrow> u32 \<Rightarrow> string + u32" where
  "record_options [] seed = Inr seed"
| "record_options (arg # args) seed = (
     if \<not> prefix seed_prefix arg then
       Inl (''retrovm record: unknown arg '' @ sq @ arg @ sq @ '' (only --seed=N is accepted)'')
     else
       let digits = drop 7 arg in
       if digits = [] then Inl ''retrovm record: --seed= requires a value''
       else (case parse_ull digits of
           None \<Rightarrow> Inl (''retrovm record: invalid --seed '' @ sq @ arg @ sq @ '' (expected 0..4294967295)'')
         | Some parsed \<Rightarrow>
             if parsed > 0xFFFFFFFF then
               Inl (''retrovm record: invalid --seed '' @ sq @ arg @ sq @ '' (expected 0..4294967295)'')
             else record_options args (ucast parsed)))"

fun save_options :: "string list \<Rightarrow> nat \<Rightarrow> string + nat" where
  "save_options [] at_frame = Inr at_frame"
| "save_options (arg # args) at_frame = (
     if \<not> prefix at_frame_prefix arg then
       Inl (''retrovm save: unknown arg '' @ sq @ arg @ sq @ '' (only --at-frame=N is accepted)'')
     else
       let digits = drop 11 arg in
       if digits = [] then Inl ''retrovm save: --at-frame= requires a value''
       else (case parse_ull digits of
           None \<Rightarrow> Inl (''retrovm save: invalid --at-frame '' @ sq @ arg @ sq @ '' (expected 0..)'')
         | Some parsed \<Rightarrow> save_options args (unat parsed)))"

fun trace_options :: "string list \<Rightarrow> bool \<times> nat \<Rightarrow> string + bool \<times> nat" where
  "trace_options [] r = Inr r"
| "trace_options (arg # args) r = (
     if \<not> prefix frame_prefix arg then
       Inl (''retrovm trace: unknown arg '' @ sq @ arg @ sq @ '' (only --frame=N is accepted)'')
     else
       let digits = drop 8 arg in
       if digits = [] then Inl ''retrovm trace: --frame= requires a value''
       else (case parse_ull digits of
           None \<Rightarrow> Inl (''retrovm trace: invalid --frame '' @ sq @ arg @ sq @ '' (expected 0..)'')
         | Some parsed \<Rightarrow> trace_options args (True, unat parsed)))"

text \<open>The two paths of \<open>debug\<close>; an option takes the argument after it.\<close>

fun debug_options :: "string list \<Rightarrow> string \<times> string \<Rightarrow> string + string \<times> string" where
  "debug_options [] r = Inr r"
| "debug_options (arg # args) (trace_arg, batch_arg) =
     (if arg = ''--trace'' then
        (case args of
           [] \<Rightarrow> Inl ''retrovm debug: --trace requires a path''
         | v # args \<Rightarrow> debug_options args (v, batch_arg))
      else if arg = ''--batch'' then
        (case args of
           [] \<Rightarrow> Inl ''retrovm debug: --batch requires a script path''
         | v # args \<Rightarrow> debug_options args (trace_arg, v))
      else Inl (''retrovm debug: unknown arg '' @ sq @ arg @ sq @ '' (only --trace and --batch are accepted)''))"

section \<open>The usage text\<close>

definition usage :: string where
  "usage =
     ''Usage:'' @ nl @
     ''  retrovm                                 run built-in demo'' @ nl @
     ''  retrovm run      <program.bin>          execute a binary'' @ nl @
     ''  retrovm asm      <src.asm> <bin>        assemble text -> binary'' @ nl @
     ''  retrovm record   <bin> [--seed=N]       run + capture .trace (deterministic)'' @ nl @
     ''  retrovm replay   <bin> <log.trace>      replay with divergence check'' @ nl @
     ''  retrovm snapshot <bin> [interval]       dump delta-snapshots to <bin>.snap.NNNN'' @ nl @
     ''  retrovm save     <bin> <trace> <state>  snapshot mid-program regs/pc/sp/flags+frame_index'' @ nl @
     ''           [--at-frame=N]                 (default N=1, halt just before frame N)'' @ nl @
     ''  retrovm restore  <bin> <trace> <state>  resume replay from a saved .state'' @ nl @
     ''  retrovm inspect  <state>               print a saved .state (offline, no VM / trace)'' @ nl @
     ''  retrovm inspect  --diff <a> <b>        side-by-side per-field delta, equal columns suppressed'' @ nl @
     ''  retrovm trace    <trace> [--frame=N]   print a saved .trace (offline, no VM / bin)'' @ nl @
     ''  retrovm debug    <bin> [--trace <t>] [--batch <script>]'' @ nl @
     ''                                       interactive REPL: step/continue/regs/where/breakpoint/save'' @ nl @
     ''  retrovm --benchmark [N]                 measure dispatch throughput (default N=1000)'' @ nl @
     ''  retrovm --bench-back [N [depth]]        measure back-N rewind latency (default N=1000 depth=200, max depth=ring cap)'' @ nl"

section \<open>main\<close>

text \<open>
  What the process finds outside its arguments and files: the word \<open>std::random_device\<close> delivers,
  the contents of the stack slot that \<open>cmd_restore\<close> reads uninitialised, and the clock.
\<close>

record machine_env =
  entropy :: u32
  stack_garbage :: HaltReason
  watch :: stopwatch

definition main_benchmark :: "machine_env \<Rightarrow> string list \<Rightarrow> world \<Rightarrow> (outcome \<times> world) option" where
  "main_benchmark e argv w =
     (if length argv \<ge> 3 then
        (case parse_count 100000000 (argv ! 2) of
           None \<Rightarrow> bad (''retrovm benchmark: invalid N '' @ sq @ argv ! 2 @ sq @ '' (expected 1..100000000)'') w
         | Some n \<Rightarrow> cmd_benchmark (watch e) (entropy e) n w)
      else cmd_benchmark (watch e) (entropy e) 1000 w)"

definition main_bench_back :: "machine_env \<Rightarrow> string list \<Rightarrow> world \<Rightarrow> (outcome \<times> world) option" where
  "main_bench_back e argv w =
     (case if length argv \<ge> 3 then parse_count 100000000 (argv ! 2) else Some 1000 of
        None \<Rightarrow> bad (''retrovm --bench-back: invalid N '' @ sq @ argv ! 2 @ sq @ '' (expected 1..100000000)'') w
      | Some n \<Rightarrow>
         (case if length argv \<ge> 4 then parse_count (of_nat kBenchRingCap - 1) (argv ! 3) else Some 200 of
            None \<Rightarrow> bad (''retrovm --bench-back: invalid depth '' @ sq @ argv ! 3 @ sq @ '' (expected 1..'' @
              fmt_u (kBenchRingCap - 1) @
              ''; must be < ring cap to keep target_idx non-negative when ring is saturated)'') w
          | Some depth \<Rightarrow> cmd_benchmark_backn (watch e) (entropy e) n depth w))"

definition main_bench :: "string \<Rightarrow> (nat \<Rightarrow> world \<Rightarrow> (outcome \<times> world) option) \<Rightarrow> nat \<Rightarrow> string list \<Rightarrow> world \<Rightarrow>
    (outcome \<times> world) option" where
  "main_bench name cmd n argv w =
     (if length argv \<ge> 3 then
        (case parse_count 100000000 (argv ! 2) of
           None \<Rightarrow> bad (''retrovm '' @ name @ '': invalid N '' @ sq @ argv ! 2 @ sq @ '' (expected 1..100000000)'') w
         | Some n \<Rightarrow> cmd n w)
      else cmd n w)"

definition main_snapshot :: "machine_env \<Rightarrow> string list \<Rightarrow> world \<Rightarrow> (outcome \<times> world) option" where
  "main_snapshot e argv w =
     (if length argv < 3 then bad ''retrovm snapshot: missing <bin>'' w
      else if length argv \<ge> 4 then
        (case parse_count 10000000 (argv ! 3) of
           None \<Rightarrow> bad (''retrovm snapshot: invalid interval '' @ sq @ argv ! 3 @ sq @ '' (expected 1..10000000)'') w
         | Some n \<Rightarrow> cmd_snapshot (entropy e) (argv ! 2) (of_nat n) w)
      else cmd_snapshot (entropy e) (argv ! 2) 10 w)"

definition main_inspect :: "string list \<Rightarrow> world \<Rightarrow> (outcome \<times> world) option" where
  "main_inspect argv w =
     (if length argv \<ge> 3 \<and> argv ! 2 = ''--diff'' then
        if length argv < 5 then
          bad (''retrovm inspect --diff: missing two <state> arguments (got '' @ fmt_u (length argv - 3) @ '' of 2)'') w
        else Some (cmd_inspect_diff (argv ! 3) (argv ! 4) w)
      else if length argv < 3 then bad ''retrovm inspect: missing <state>'' w
      else Some (cmd_inspect (argv ! 2) w))"

definition main_record :: "string list \<Rightarrow> world \<Rightarrow> (outcome \<times> world) option" where
  "main_record argv w =
     (if length argv < 3 then bad ''retrovm record: missing <bin>'' w
      else (case record_options (drop 3 argv) kRecordRandSeed of
          Inl text \<Rightarrow> bad text w
        | Inr seed \<Rightarrow> cmd_record (argv ! 2) seed w))"

definition main_save :: "string list \<Rightarrow> world \<Rightarrow> (outcome \<times> world) option" where
  "main_save argv w =
     (if length argv < 5 then bad ''retrovm save: missing <bin> <trace> <state> [--at-frame=N]'' w
      else (case save_options (drop 5 argv) 1 of
          Inl text \<Rightarrow> bad text w
        | Inr at_frame \<Rightarrow> cmd_save (argv ! 2) (argv ! 3) (argv ! 4) at_frame w))"

definition main_restore :: "machine_env \<Rightarrow> string list \<Rightarrow> world \<Rightarrow> (outcome \<times> world) option" where
  "main_restore e argv w =
     (if length argv < 5 then bad ''retrovm restore: missing <bin> <trace> <state>'' w
      else cmd_restore (stack_garbage e) (argv ! 2) (argv ! 3) (argv ! 4) w)"

definition main_debug :: "machine_env \<Rightarrow> string list \<Rightarrow> world \<Rightarrow> (outcome \<times> world) option" where
  "main_debug e argv w =
     (if length argv < 3 then bad ''retrovm debug: missing <bin> [<--trace>] [<--batch>]'' w
      else (case debug_options (drop 3 argv) ([], []) of
          Inl text \<Rightarrow> bad text w
        | Inr (trace_arg, batch_arg) \<Rightarrow> cmd_debug (entropy e) (argv ! 2) trace_arg batch_arg w))"

definition main_trace :: "string list \<Rightarrow> world \<Rightarrow> (outcome \<times> world) option" where
  "main_trace argv w =
     (if length argv < 3 then bad ''retrovm trace: missing <trace>'' w
      else (case trace_options (drop 3 argv) (False, 0) of
          Inl text \<Rightarrow> bad text w
        | Inr (has_frame, idx) \<Rightarrow> Some (cmd_inspect_trace (argv ! 2) has_frame idx w)))"

definition main :: "machine_env \<Rightarrow> string list \<Rightarrow> world \<Rightarrow> (outcome \<times> world) option" where
  "main e argv w =
     (if length argv = 1 then
        (case run_builtin_demo (entropy e) w of
           None \<Rightarrow> None
         | Some (Some oc, w) \<Rightarrow> Some (oc, w)
         | Some (None, w) \<Rightarrow> Some (Exit 0, w))
      else
      let mode = argv ! 1 in
      if mode = ''run'' then
        (if length argv < 3 then bad ''retrovm run: missing <bin>'' w
         else cmd_run (entropy e) (argv ! 2) w)
      else if mode = ''asm'' \<or> mode = ''assemble'' then
        (if length argv < 4 then bad ''retrovm asm: missing <src> <bin>'' w
         else Some (cmd_assemble (argv ! 2) (argv ! 3) w))
      else if mode = ''record'' then main_record argv w
      else if mode = ''replay'' then
        (if length argv < 4 then bad ''retrovm replay: missing <bin> <trace>'' w
         else cmd_replay (argv ! 2) (argv ! 3) w)
      else if mode = ''--benchmark'' \<or> mode = ''benchmark'' then main_benchmark e argv w
      else if mode = ''--bench-back'' \<or> mode = ''bench-back'' then main_bench_back e argv w
      else if mode = ''--bench-dispatch-cmp'' \<or> mode = ''bench-dispatch-cmp'' then
        main_bench ''--bench-dispatch-cmp'' (cmd_benchmark_dispatch_cmp (watch e) (entropy e)) 1000 argv w
      else if mode = ''--bench-back-sweep'' \<or> mode = ''bench-back-sweep'' then
        main_bench ''--bench-back-sweep'' (cmd_benchmark_back_sweep (watch e) (entropy e)) kSweepItersDefault argv w
      else if mode = ''snapshot'' \<or> mode = ''snap'' then main_snapshot e argv w
      else if mode = ''save'' then main_save argv w
      else if mode = ''restore'' then main_restore e argv w
      else if mode = ''debug'' then main_debug e argv w
      else if mode = ''trace'' then main_trace argv w
      else if mode = ''inspect'' then main_inspect argv w
      else Some (Exit 1, print_err usage w))"

end
