(* ===== verification/Closures.thy ===== *)
theory Closures
  imports Runs
begin

text \<open>
  What the closures of a machine keep of the state they capture, a run keeps: it touches that state
  only by calling them.
\<close>

definition hook_keeps :: "('w \<Rightarrow> bool) \<Rightarrow> (u64 \<Rightarrow> 'w \<Rightarrow> 'a \<times> 'w) option \<Rightarrow> bool" where
  "hook_keeps P h \<longleftrightarrow> (\<forall>f. h = Some f \<longrightarrow> (\<forall>c x. P x \<longrightarrow> P (snd (f c x))))"

definition keeps :: "('w \<Rightarrow> bool) \<Rightarrow> 'w VM \<Rightarrow> bool" where
  "keeps P vm \<longleftrightarrow> hook_keeps P (io_in (vm_io vm)) \<and> hook_keeps P (io_rand (vm_io vm))
     \<and> (\<forall>f. on_nondeterministic (vm_io vm) = Some f \<longrightarrow> (\<forall>c p v x. P x \<longrightarrow> P (f c p v x)))
     \<and> (\<forall>s. vm_sink vm = Some s \<longrightarrow> (\<forall>vs sn x. P x \<longrightarrow> P (snd (s vs sn x))))"

lemma keeps_fixed: "same_fixed u v \<Longrightarrow> keeps P v = keeps P u"
  by (simp add: same_fixed_def keeps_def)

lemma keeps_tick:
  assumes "snap_tick (u, x) = (b, v, y)" "keeps P u" "P x"
  shows "P y"
  using assms
  by (auto simp: snap_tick_def make_snapshot_def take_snapshot_def upd_state_def keeps_def Let_def
      split: if_splits option.splits prod.splits) (metis snd_conv)+

lemma observe_keeps: "keeps P u \<Longrightarrow> vm_io v = vm_io u \<Longrightarrow> P x \<Longrightarrow> P (observe p k v x)"
  by (auto simp: observe_def keeps_def split: option.splits)

lemma hook_keepsD: "hook_keeps P (Some f) \<Longrightarrow> f c x = (r, y) \<Longrightarrow> P x \<Longrightarrow> P y"
  by (metis hook_keeps_def snd_conv)

text \<open>The captured state after a step, whether the loop goes on or not.\<close>

definition env_of :: "'w step_result \<Rightarrow> 'w" where
  "env_of r = (case r of Inl c \<Rightarrow> snd c | Inr q \<Rightarrow> snd (snd q))"

lemma input_keeps:
  assumes "keeps P u" "P x"
  shows "P (env_of (do_IN ops (u, x)))" "P (env_of (do_RAND ops (u, x)))"
proof -
  obtain dst src imm where ops: "ops = (dst, src, imm)" by (cases ops)
  have k: "hook_keeps P (io_in (vm_io u))" "hook_keeps P (io_rand (vm_io u))"
    using assms(1) by (simp_all add: keeps_def)
  have obs: "P (observe p v (set_reg dst v u) y)" if "P y" for p v y
    by (rule observe_keeps [OF assms(1) _ that]) (simp add: access_defs)
  show "P (env_of (do_IN ops (u, x)))"
    using k(1) assms(2)
    by (auto simp: do_IN_def ops env_of_def Let_def split: option.splits prod.splits sum.splits
        intro!: obs elim: hook_keepsD)
  show "P (env_of (do_RAND ops (u, x)))"
    using k(2) assms(2)
    by (auto simp: do_RAND_def ops env_of_def Let_def split: option.splits prod.splits sum.splits
        intro!: obs elim: hook_keepsD)
qed

lemma handler_keeps:
  assumes "keeps P u" "P x"
  shows "P (env_of (exec_label l ops (u, x)))"
  using assms input_keeps [OF assms, of ops]
  by (cases l; cases ops) (simp_all add: handler_defs env_of_def Let_def)

lemma step_keeps:
  assumes "keeps P (fst c)" "P (snd c)"
  shows "P (env_of (goto_step c))"
proof -
  obtain u x where c: "c = (u, x)" by (cases c)
  obtain b v y where t: "snap_tick (advance u, x) = (b, v, y)" by (metis prod_cases3)
  have u: "keeps P u" "P x" using assms c by simp_all
  then have "P y" "keeps P v"
    using keeps_tick [OF t, of P] keeps_fixed [OF same_fixed_tick [OF t], of P]
    by (simp_all add: keeps_def)
  with handler_keeps [of P v y] show ?thesis
    by (auto simp: c goto_step_eq t jump_to_def) (auto simp: env_of_def)
qed

lemma run_keeps:
  assumes "vm_run c = Some q" "keeps P (fst c)" "P (snd c)"
  shows "P (snd (snd q))"
  using assms(1)
proof (rule vm_run_cases)
  assume "run_goto c = Some q"
  then show ?thesis
    unfolding run_goto_def
  proof (rule run_loop_invariant [where I = "\<lambda>d. keeps P (fst d) \<and> P (snd d)"])
    fix d d' assume "keeps P (fst d) \<and> P (snd d)" "goto_step d = Inl d'"
    then show "keeps P (fst d') \<and> P (snd d')"
      using step_keeps [of P d] keeps_fixed [OF goto_step_fixed] by (fastforce simp: env_of_def)
  next
    fix d q assume "keeps P (fst d) \<and> P (snd d)" "goto_step d = Inr q"
    then show "P (snd (snd q))" using step_keeps [of P d] by (simp add: env_of_def)
  qed (use assms(2,3) in simp)
qed (use assms(3) in simp)

lemma run_keeps_vm: "vm_run c = Some q \<Longrightarrow> keeps P (fst c) \<Longrightarrow> keeps P (fst (snd q))"
  by (erule vm_run_cases) (auto dest: run_goto_fixed keeps_fixed)

end
