(* ===== verification/CliProperties.thy ===== *)
theory CliProperties
  imports Cli Closures
begin

text \<open>
  Properties of the command line as a whole: which commands can change a file, what the numeric
  options accept, and the demo.
\<close>

section \<open>Machines whose closures write no file\<close>

definition file_safe :: "('w \<Rightarrow> world) \<Rightarrow> 'w VM \<Rightarrow> bool" where
  "file_safe p vm \<longleftrightarrow> (\<forall>F. keeps (\<lambda>x. files (p x) = F) vm)"

lemma file_safe_run:
  assumes "vm_run (vm, x) = Some (r, vm', x')" "file_safe p vm"
  shows "files (p x') = files (p x)" "file_safe p vm'"
proof -
  have k: "keeps (\<lambda>x. files (p x) = F) vm" for F using assms(2) by (simp add: file_safe_def)
  show "files (p x') = files (p x)"
    using run_keeps [OF assms(1), of "\<lambda>y. files (p y) = files (p x)"] k by simp
  show "file_safe p vm'"
    using run_keeps_vm [OF assms(1)] k by (simp add: file_safe_def)
qed

lemma file_safe_runD:
  "vm_run (vm, x) = Some (r, vm', x') \<Longrightarrow> file_safe p vm \<Longrightarrow>
     files (p x') = files (p x) \<and> file_safe p vm'"
  by (intro conjI) (rule file_safe_run; assumption)+

lemma file_safe_reset: "file_safe p vm \<Longrightarrow> file_safe p (reset_cpu_for_reuse vm)"
  by (simp add: file_safe_def keeps_def reset_cpu_for_reuse_def)

lemma file_safe_mode [simp]: "file_safe p (set_dispatch_mode m vm) = file_safe p vm"
  by (simp add: file_safe_def keeps_def set_dispatch_mode_def)

lemma file_safe_state [simp]: "file_safe p (set_state s vm) = file_safe p vm"
  "file_safe p (vm\<lparr>vm_mem := m\<rparr>) = file_safe p vm"
  by (simp_all add: file_safe_def keeps_def set_state_def)

lemma file_safe_load [simp]: "file_safe p (snd (load_program bs vm)) = file_safe p vm"
  by (simp add: file_safe_def keeps_def load_program_def)

lemma file_safe_loaded: "load_program bs vm = (ok, vm') \<Longrightarrow> file_safe p vm \<Longrightarrow> file_safe p vm'"
  by (metis file_safe_load snd_conv)

text \<open>The machines of the commands.\<close>

lemma host_safe: "file_safe fst (VM_new host_in host_rand)"
  by (auto simp: file_safe_def keeps_def hook_keeps_def VM_new_def reset_state_def host_in_def host_rand_def
      scan_or_zero_def split: prod.splits)

lemma replay_safe: "replay_vm reader bs = (ok, vm) \<Longrightarrow> file_safe fst vm"
  by (auto simp: replay_vm_def file_safe_def keeps_def hook_keeps_def set_io_hooks_def load_program_def
      VM_new_def reset_state_def replay_hooks_def replay_hook_def replay_observer_def
      split: prod.splits if_splits)

lemma restore_safe: "restore_vm reader s bs = (ok, vm) \<Longrightarrow> file_safe fst vm"
  by (auto simp: restore_vm_def file_safe_def keeps_def hook_keeps_def set_io_hooks_def load_program_def
      set_state_def VM_new_def reset_state_def replay_hooks_def replay_hook_def replay_observer_def
      split: prod.splits if_splits)

definition rewind_world :: "rewinder \<Rightarrow> world" where
  "rewind_world x = fst (fst x)"

lemma rewind_world_pair [simp]: "rewind_world (h, r) = fst h"
  by (simp add: rewind_world_def)

lemma rewind_safe: "rewind_vm n = (ok, vm) \<Longrightarrow> file_safe rewind_world vm"
  by (auto simp: rewind_world_def rewind_vm_def file_safe_def keeps_def hook_keeps_def load_program_def
      set_snapshot_sink_def set_snapshot_interval_def VM_new_def reset_state_def rewinder_in_def
      rewinder_rand_def host_in_def host_rand_def scan_or_zero_def bench_sink_def ring_push_def Let_def
      split: prod.splits if_splits bool.splits)

section \<open>The commands\<close>

lemma cmd_run_files: "cmd_run e bin w = Some (oc, w') \<Longrightarrow> files w' = files w"
  by (auto simp: cmd_run_def read_file_def Let_def
      dest!: file_safe_run(1) [OF _ file_safe_loaded [OF _ host_safe]]
      split: option.splits prod.splits bool.splits run_result.splits)

lemma cmd_replay_files: "cmd_replay bin tr w = Some (oc, w') \<Longrightarrow> files w' = files w"
  by (auto simp: cmd_replay_def read_file_def Let_def
      dest!: file_safe_run(1) [OF _ replay_safe]
      split: option.splits prod.splits bool.splits run_result.splits sum.splits if_splits)

lemma checkpoint_load_files: "checkpoint_load p w = (r, w') \<Longrightarrow> files w' = files w"
  by (auto simp: checkpoint_load_def diag_def Let_def split: option.splits if_splits)

lemma cmd_restore_files: "cmd_restore q bin tr st w = Some (oc, w') \<Longrightarrow> files w' = files w"
  by (auto simp: cmd_restore_def read_file_def Let_def
      dest!: file_safe_run(1) [OF _ restore_safe] checkpoint_load_files
      split: option.splits prod.splits bool.splits run_result.splits sum.splits if_splits)

lemma cmd_inspect_files:
  "cmd_inspect st w = (oc, w') \<Longrightarrow> files w' = files w"
  "cmd_inspect_diff a b w = (oc, w') \<Longrightarrow> files w' = files w"
  "cmd_inspect_trace tr h i w = (oc, w') \<Longrightarrow> files w' = files w"
  by (auto simp: cmd_inspect_def cmd_inspect_diff_def cmd_inspect_trace_def Let_def
      dest!: checkpoint_load_files split: option.splits prod.splits sum.splits if_splits)

lemma bench_runs_files:
  "bench_runs n (vm, h) = Some r \<Longrightarrow> file_safe fst vm \<Longrightarrow>
     (case r of Inl (what, h') \<Rightarrow> files (fst h') = files (fst h)
      | Inr (vm', h') \<Rightarrow> files (fst h') = files (fst h) \<and> file_safe fst vm')"
proof (induction n arbitrary: vm h)
  case (Suc n)
  from Suc.prems(1) obtain x v h1 where run: "vm_run (reset_cpu_for_reuse vm, h) = Some (x, v, h1)"
    by (auto split: option.splits prod.splits)
  note f = file_safe_run [OF run file_safe_reset [OF Suc.prems(2)]]
  show ?case
    using Suc.prems(1) run f Suc.IH [of v h1]
    by (auto split: run_result.splits sum.splits prod.splits)
qed auto

lemma rewind_rounds_files:
  "rewind_rounds target depth n (vm, x) = Some r \<Longrightarrow> file_safe rewind_world vm \<Longrightarrow>
     (case r of Inl (what, x') \<Rightarrow> files (rewind_world x') = files (rewind_world x)
      | Inr (vm', x') \<Rightarrow> files (rewind_world x') = files (rewind_world x) \<and> file_safe rewind_world vm')"
proof (induction n arbitrary: vm x)
  case (Suc n)
  obtain h ring hi t where x: "x = (h, ring, hi, t)" by (cases x)
  obtain u y where b: "do_back target (vm, x) = (u, y)" by (metis surj_pair)
  then have y: "fst y = h" "file_safe rewind_world u"
    using Suc.prems(2) by (auto simp: do_back_def x Let_def)
  from Suc.prems(1) b obtain k v x1 where step: "do_step depth (u, y) = Some (k, v, x1)"
    by (auto split: option.splits prod.splits)
  obtain h2 ring2 hi2 t2 where y2: "y = (h2, ring2, hi2, t2)" by (cases y)
  from step y(2) have f: "files (rewind_world x1) = files (fst h)" "file_safe rewind_world v"
    using y(1) file_safe_run [of _ _ k v x1 rewind_world] by (auto simp: do_step_def y2 Let_def)
  show ?case
    using Suc.prems(1) b step f Suc.IH [of v x1] x y(1)
    by (auto split: run_result.splits sum.splits prod.splits)
qed auto

lemma bench_runs_filesD:
  "bench_runs n (vm, h) = Some (Inl (what, h')) \<Longrightarrow> file_safe fst vm \<Longrightarrow> files (fst h') = files (fst h)"
  "bench_runs n (vm, h) = Some (Inr (vm', h')) \<Longrightarrow> file_safe fst vm \<Longrightarrow>
     files (fst h') = files (fst h) \<and> file_safe fst vm'"
  using bench_runs_files by fastforce+

lemma rewind_rounds_filesD:
  "rewind_rounds target depth n (vm, x) = Some (Inl (what, x')) \<Longrightarrow> file_safe rewind_world vm \<Longrightarrow>
     files (rewind_world x') = files (rewind_world x)"
  "rewind_rounds target depth n (vm, x) = Some (Inr (vm', x')) \<Longrightarrow> file_safe rewind_world vm \<Longrightarrow>
     files (rewind_world x') = files (rewind_world x) \<and> file_safe rewind_world vm'"
  using rewind_rounds_files by fastforce+

lemma host_loaded: "load_program bs (set_dispatch_mode m (VM_new host_in host_rand)) = (ok, vm) \<Longrightarrow> file_safe fst vm"
  "load_program bs (VM_new host_in host_rand) = (ok, vm) \<Longrightarrow> file_safe fst vm"
  by (erule file_safe_loaded, simp add: host_safe)+

lemma cmd_benchmark_files:
  assumes "cmd_benchmark sw e n w = Some (oc, w')"
  shows "files w' = files w"
proof -
  obtain ok vm where l: "load_program (program_bytes bench_program) (VM_new host_in host_rand) = (ok, vm)"
    by (metis surj_pair)
  show ?thesis
    using assms host_loaded(2) [OF l]
    by (auto simp: cmd_benchmark_def l Let_def simp del: bench_runs.simps
        dest!: file_safe_runD [where p = fst] bench_runs_filesD
        split: option.splits prod.splits bool.splits run_result.splits sum.splits if_splits)
qed

lemma run_mode_files:
  "run_mode sw k m n h = Some (Inl (what, h')) \<Longrightarrow> files (fst h') = files (fst h)"
  "run_mode sw k m n h = Some (Inr (d, h')) \<Longrightarrow> files (fst h') = files (fst h)"
proof -
  obtain ok vm where l: "load_program (program_bytes bench_program)
      (set_dispatch_mode m (VM_new host_in host_rand)) = (ok, vm)"
    by (metis surj_pair)
  note safe = host_loaded(1) [OF l]
  show "run_mode sw k m n h = Some (Inl (what, h')) \<Longrightarrow> files (fst h') = files (fst h)"
    "run_mode sw k m n h = Some (Inr (d, h')) \<Longrightarrow> files (fst h') = files (fst h)"
    using safe
    by (auto simp: run_mode_def l simp del: bench_runs.simps
        dest!: file_safe_runD [where p = fst] bench_runs_filesD
        split: option.splits prod.splits bool.splits run_result.splits sum.splits if_splits)
qed

lemma cmd_benchmark_dispatch_cmp_files:
  "cmd_benchmark_dispatch_cmp sw e n w = Some (oc, w') \<Longrightarrow> files w' = files w"
  by (auto simp: cmd_benchmark_dispatch_cmp_def Let_def dest!: run_mode_files
      split: option.splits prod.splits sum.splits if_splits)

lemma cmd_benchmark_backn_files:
  assumes "cmd_benchmark_backn sw e n depth w = Some (oc, w')"
  shows "files w' = files w"
proof -
  obtain ok vm where l: "rewind_vm 1 = (ok, vm)" by (metis surj_pair)
  show ?thesis
    using assms rewind_safe [OF l]
    by (auto simp: cmd_benchmark_backn_def l Let_def simp del: rewind_rounds.simps
        dest!: file_safe_runD [where p = rewind_world] rewind_rounds_filesD
        split: option.splits prod.splits bool.splits run_result.splits sum.splits if_splits)
qed

lemma sweep_cell_files:
  "sweep_cell sw k n si depth h = Some (Inl (what, h')) \<Longrightarrow> files (fst h') = files (fst h)"
  "sweep_cell sw k n si depth h = Some (Inr (text, h')) \<Longrightarrow> files (fst h') = files (fst h)"
proof -
  obtain ok vm where l: "rewind_vm (of_nat si) = (ok, vm)" by (metis surj_pair)
  note safe = rewind_safe [OF l]
  show "sweep_cell sw k n si depth h = Some (Inl (what, h')) \<Longrightarrow> files (fst h') = files (fst h)"
    "sweep_cell sw k n si depth h = Some (Inr (text, h')) \<Longrightarrow> files (fst h') = files (fst h)"
    using safe
    by (auto simp: sweep_cell_def l simp del: rewind_rounds.simps
        dest!: file_safe_runD [where p = rewind_world] rewind_rounds_filesD
        split: option.splits prod.splits bool.splits run_result.splits sum.splits if_splits)
qed

lemma sweep_cells_files:
  "sweep_cells sw n cs h = Some r \<Longrightarrow>
     files (case r of Inl e \<Rightarrow> fst (snd e) | Inr h' \<Rightarrow> fst h') = files (fst h)"
proof (induction cs arbitrary: h r)
  case (Cons c cs)
  obtain k si depth where c: "c = (k, si, depth)" by (cases c)
  obtain w g where h: "h = (w, g)" by (cases h)
  show ?case
    using Cons.prems
    by (auto simp: c h Let_def dest!: sweep_cell_files Cons.IH
        split: option.splits sum.splits prod.splits if_splits)
qed auto

lemma cmd_benchmark_back_sweep_files:
  "cmd_benchmark_back_sweep sw e n w = Some (oc, w') \<Longrightarrow> files w' = files w"
  by (auto simp: cmd_benchmark_back_sweep_def dest!: sweep_cells_files
      split: option.splits sum.splits prod.splits)

lemma run_builtin_demo_files: "run_builtin_demo e w = Some (oc, w') \<Longrightarrow> files w' = files w"
  by (auto simp: run_builtin_demo_def Let_def
      dest!: file_safe_runD [where p = fst, OF _ file_safe_load [THEN iffD2, OF host_safe]]
      split: option.splits prod.splits run_result.splits if_splits)

section \<open>Properties of the command line\<close>

definition sample_env :: machine_env where
  "sample_env = \<lparr>entropy = 7, stack_garbage = 0, watch = \<lparr>elapsed = (\<lambda>_. 0), nan_text = ''nan''\<rparr>\<rparr>"

lemmas benchmark_files = cmd_benchmark_files cmd_benchmark_dispatch_cmp_files cmd_benchmark_backn_files
  cmd_benchmark_back_sweep_files

definition writing_modes :: "string set" where
  "writing_modes = {''asm'', ''assemble'', ''record'', ''snapshot'', ''snap'', ''save'', ''debug''}"

lemma main_bench_files:
  "main_benchmark e argv w = Some (oc, w') \<Longrightarrow> files w' = files w"
  "main_bench_back e argv w = Some (oc, w') \<Longrightarrow> files w' = files w"
  "main_inspect argv w = Some (oc, w') \<Longrightarrow> files w' = files w"
  "main_restore e argv w = Some (oc, w') \<Longrightarrow> files w' = files w"
  "main_trace argv w = Some (oc, w') \<Longrightarrow> files w' = files w"
  by (auto simp: main_benchmark_def main_bench_back_def main_inspect_def main_restore_def main_trace_def bad_def
      dest: benchmark_files cmd_inspect_files cmd_restore_files split: option.splits sum.splits if_splits)

lemma main_bench_cmd_files:
  assumes "main_bench name cmd n argv w = Some (oc, w')"
    and "\<And>n w oc w'. cmd n w = Some (oc, w') \<Longrightarrow> files w' = files w"
  shows "files w' = files w"
  using assms(1) by (auto simp: main_bench_def bad_def dest: assms(2) split: option.splits if_splits)

text \<open>
  C20: only the commands that are meant to write a file can. Whatever the arguments, whatever the
  program under execution does, and however the process ends (an error or an exception included),
  only \<open>asm\<close>, \<open>record\<close>, \<open>snapshot\<close>, \<open>save\<close> and \<open>debug\<close> may leave a file changed: the demo, \<open>run\<close>,
  \<open>replay\<close>, \<open>restore\<close>, \<open>inspect\<close>, \<open>trace\<close>, the four benchmarks and the usage message do not.
\<close>

theorem read_only_commands:
  assumes "main e argv w = Some (oc, w')" and "length argv = 1 \<or> argv ! 1 \<notin> writing_modes"
  shows "files w' = files w"
proof (cases "length argv = 1")
  case True
  with assms(1) show ?thesis
    by (auto simp: main_def dest: run_builtin_demo_files split: option.splits prod.splits)
next
  case False
  with assms(2) have "argv ! 1 \<notin> writing_modes" by blast
  then have no: "argv ! 1 \<noteq> ''asm''" "argv ! 1 \<noteq> ''assemble''" "argv ! 1 \<noteq> ''record''"
    "argv ! 1 \<noteq> ''snapshot''" "argv ! 1 \<noteq> ''snap''" "argv ! 1 \<noteq> ''save''" "argv ! 1 \<noteq> ''debug''"
    by (simp_all add: writing_modes_def)
  show ?thesis
    using assms(1) False
    unfolding main_def Let_def
    by (simp only: no if_False disj_not1 simp_thms split: if_splits)
      (auto simp: bad_def dest: cmd_run_files cmd_replay_files main_bench_files main_bench_cmd_files [OF _ cmd_benchmark_dispatch_cmp_files]
        main_bench_cmd_files [OF _ cmd_benchmark_back_sweep_files]
        split: sum.splits prod.splits if_splits)
qed

theorem read_only_commands_witness:
  "\<exists>w'. main sample_env [''retrovm'', ''run'', ''p''] (sample_world in_bin) = Some (Exit 0, w')
     \<and> files w' = files (sample_world in_bin)"
proof -
  obtain w' where "cmd_run 7 ''p'' (sample_world in_bin) = Some (Exit 0, w')"
    using run_sample by blast
  then have m: "main sample_env [''retrovm'', ''run'', ''p''] (sample_world in_bin) = Some (Exit 0, w')"
    by (simp add: main_def sample_env_def)
  have "[''retrovm'', ''run'', ''p''] ! 1 \<notin> writing_modes" by (simp add: writing_modes_def)
  with read_only_commands [OF m] m show ?thesis by blast
qed

text \<open>
  \<open>record --seed=N\<close> takes every decimal number that a 32-bit seed can hold and no other: the
  number \<open>n\<close> in decimal starts the recording with the seed \<open>n\<close> if \<open>n\<close> is at most 4294967295; every
  larger number, however long, ends in a diagnostic and exit code 1 before anything is run.
\<close>

theorem record_seed_range:
  "main e [prog, ''record'', bin, ''--seed='' @ fmt_u n] w =
     (if n < 2 ^ 32 then cmd_record bin (of_nat n) w
      else Some (Exit 1, print_err (''retrovm record: invalid --seed '' @ sq @ ''--seed='' @ fmt_u n @ sq @
        '' (expected 0..4294967295)'' @ nl) w))"
proof -
  have opts: "record_options [''--seed='' @ fmt_u n] kRecordRandSeed =
      (case parse_ull (fmt_u n) of
         None \<Rightarrow> Inl (''retrovm record: invalid --seed '' @ sq @ (''--seed='' @ fmt_u n) @ sq @ '' (expected 0..4294967295)'')
       | Some v \<Rightarrow> if v > 0xFFFFFFFF
           then Inl (''retrovm record: invalid --seed '' @ sq @ (''--seed='' @ fmt_u n) @ sq @ '' (expected 0..4294967295)'')
           else Inr (ucast v))"
    by (simp add: seed_prefix_def fmt_u_def split: option.split)
  have "parse_ull (fmt_u n) = Some (of_nat (min n ULONG_MAX))"
    using strtoul_fmt_u_min [of "[]" n] fmt_base_nonempty [of 10 n, symmetric]
    by (simp add: parse_ull_def fmt_u_def)
  moreover have "of_nat (min n ULONG_MAX) > (0xFFFFFFFF :: u64) \<longleftrightarrow> \<not> n < 2 ^ 32"
    by (simp add: word_less_nat_alt unsigned_of_nat take_bit_nat_eq_self ULONG_MAX_def min_def) arith
  moreover have "n < 2 ^ 32 \<Longrightarrow> ucast (of_nat (min n ULONG_MAX) :: u64) = (of_nat n :: u32)"
    by (simp add: ULONG_MAX_def min_def word_unat_eq_iff unsigned_of_nat unsigned_ucast_eq
        take_bit_nat_eq_self)
  ultimately show ?thesis
    using opts by (auto simp: main_def main_record_def bad_def)
qed

text \<open>
  The built-in demo passes on every host: without arguments the program runs its seven
  instructions to a normal halt, finds all seven comparisons equal, prints \<open>DEMO PASSED\<close> last and
  exits with 0.
\<close>

theorem demo_passes:
  "\<exists>out. main e [prog] w = Some (Exit 0, print_out (out @ ''DEMO PASSED'' @ nl) w)"
proof -
  let ?x = "(print_out (''=== RetroVM built-in demo ==='' @ nl) w, mt_init (entropy e))"
  obtain vm where vm: "vm_run (snd (load_program (program_bytes demo_program) (VM_new host_in host_rand)), ?x)
      = Some (Returned HALT_NORMAL, vm, ?x)"
    and s: "regs (vm_state vm) ! 0 = 5" "regs (vm_state vm) ! 1 = 7" "regs (vm_state vm) ! 2 = 12"
    "regs (vm_state vm) ! 3 = 12" "cycle_count (vm_state vm) = 7" "mem100 (vm_mem vm) = 12"
    using demo_run by blast
  obtain out n where c: "demo_checks HALT_NORMAL (vm_mem vm) (vm_state vm) = (out, n)" by fastforce
  with s have n: "n = 0" by (simp add: demo_checks_def demo_check_def const_defs)
  have "main e [prog] w = Some (Exit 0, print_out
     ((''=== RetroVM built-in demo ==='' @ nl @ dump_state (vm_state vm) HALT_NORMAL @ ''assertions:'' @ nl @
       out) @ ''DEMO PASSED'' @ nl) w)"
    unfolding main_def run_builtin_demo_def Let_def vm c n option.case run_result.case prod.case by simp
  then show ?thesis by blast
qed

end
