(* ===== verification/Spec2Isabelle.thy ===== *)
theory Spec2Isabelle
  imports EndToEnd DebugReplay SnapshotRun TraceStream BackN Sweep Disassembly CliProperties
begin

text \<open>
  RetroVM: a verification library.

  RetroVM is a virtual machine with twelve 32-bit instructions, 1 MiB of memory and a recorded
  environment: what the instructions \<open>IN\<close> and \<open>RAND\<close> deliver is logged in a \<open>.trace\<close> file, so that
  a run can be replayed, stopped and saved, resumed, and stepped backwards. The engine is
  \<open>src/vm.cpp\<close> with \<open>include/retrovm/vm.hpp\<close>; \<open>src/trace.cpp\<close> and \<open>src/checkpoint.cpp\<close> are its two
  file formats, \<open>src/assembler.cpp\<close> makes programs, and \<open>src/main.cpp\<close> holds the commands, the
  debugger, the benchmarks and \<open>main\<close>.

  \<^bold>\<open>How the code is modelled.\<close> Integers are words of their C++ width (\<open>u8\<close> to \<open>u64\<close>), \<open>size_t\<close>
  counters natural numbers except where the code lets them wrap. Text is a list of bytes. The
  program's surroundings are a record \<open>world\<close>: files by path, the faults the operating system will
  report, and the three console streams. A \<open>std::function\<close> that captures state is a function on
  that state, which the machine hands through: the type parameter of \<open>VM\<close>. A thrown
  \<open>TraceMismatch\<close> is \<open>Thrown\<close>, a returned halt reason is \<open>Returned\<close>; every other failure is a
  value of a sum or option type. A loop that may run forever is \<open>run_loop\<close>, whose value is \<open>None\<close>
  when it does; no definition has fuel. A command is a function from the world to an exit
  (\<open>Exit code\<close>, or \<open>Uncaught\<close> for an exception that leaves \<open>main\<close>) and the world after it. What
  comes from outside the repository is an argument: the word that \<open>std::random_device\<close> delivers, the
  stack slot behind an uninitialised variable, the readings of the clock (a \<open>steady_clock\<close> that
  counts nanoseconds), the text of a NaN.

  \<^bold>\<open>Theories.\<close>
  \<^item> \<open>Prelude\<close>, \<open>Bytes\<close>, \<open>CString\<close>, \<open>Host\<close>, \<open>Mt19937\<close>: the loop combinator, the locales
    \<open>guarded_simulation\<close> and \<open>lockstep\<close> (two loops in step), \<open>interruptible\<close> (the same, where a sink
    may halt one of them) and \<open>fixed_codec\<close> (an array of fixed-width records), little-endian bytes, \<open>strtoul\<close>, \<open>scanf\<close> and \<open>printf\<close> conversions with the fact that
    a printed number is read back, the world, and the generator behind \<open>RAND\<close>.
  \<^item> \<open>Double\<close>: the arithmetic of \<open>double\<close> (binary64, rounding to the nearest, ties to even) as far as
    measured times use it, with the facts that rounding is monotone, exact on numbers of 53 bits, and a
    closest number of the format.
  \<^item> \<open>Opcodes\<close> (\<open>opcodes.hpp\<close>): opcodes, halt reasons, flags and the bit fields of an instruction.
  \<^item> \<open>Machine\<close> (\<open>vm.hpp\<close>, \<open>vm.cpp\<close>): the state, unaligned masked memory access, construction, reset,
    loading, deltas and snapshots. \<open>Dispatch\<close> is the computed-goto path of \<open>VM::run\<close>: the tail
    dispatch (fetch, snapshot timer, jump through the table) and the twelve handlers. \<open>Naive\<close> is the
    switch ladder and the choice between the two. \<open>Samples\<close> holds small concrete programs.
  \<^item> \<open>Undo\<close>, \<open>Invariants\<close>, \<open>Parametric\<close>, \<open>Runs\<close>, \<open>Closures\<close>: what a step and a run keep: the
    contract of the delta log (locale \<open>undo_log\<close>), the parts no program changes, independence of
    memory outside the arena, independence of the closures and of the bookkeeping, and that what
    the closures keep of their captured state, a run keeps.
  \<^item> \<open>Isa\<close>: the instruction set as a labelled transition system on natural numbers, with the
    modular arithmetic and the flag rules written out; the machine refines it.
  \<^item> \<open>Trace\<close> (\<open>trace.cpp\<close>) and \<open>Checkpoint\<close> (\<open>checkpoint.cpp\<close>): formats, readers and writers with
    every error path; both are instances of \<open>fixed_codec\<close>. \<open>TraceStream\<close> is the branch of
    \<open>trace.cpp\<close> for a host without \<open>mmap\<close>; the commands run on the POSIX branch.
  \<^item> \<open>Commands\<close>, \<open>SaveRestore\<close> (\<open>cmd_run\<close>, \<open>cmd_record\<close>, \<open>cmd_replay\<close>, \<open>cmd_save\<close>, \<open>cmd_restore\<close>);
    \<open>RecordReplay\<close>, \<open>SavePoint\<close> and \<open>Resume\<close> prove what they promise of each other, as simulations
    between two loops, and \<open>SavedRuns\<close> puts the three together.
  \<^item> \<open>Snapshots\<close>, \<open>SnapshotRun\<close> (\<open>cmd_snapshot\<close>): the snapshot files and the run that writes them;
    \<open>PassiveSink\<close> is the locale of the sinks that never halt the machine.
  \<^item> \<open>Debugger\<close>, \<open>Repl\<close> (\<open>cmd_debug\<close> and all below it): snapshot ring, sink, disassembler, commands and the
    read-eval-print loop. \<open>Session\<close> has its invariants, \<open>TimeTravel\<close> its properties; \<open>DebugReplay\<close>
    relates a session on a trace, and the files it saves, to the replay of the trace.
  \<^item> \<open>Assembler\<close> (\<open>assembler.cpp\<close>); \<open>AsmText\<close> and \<open>Disassembly\<close> relate source text, instructions,
    words and the debugger's disassembly. The source files of \<open>AsmText\<close> (\<open>source_file\<close>) are those a
    writer may make of a list of instructions: empty lines, comments on any line or on none,
    indentation, white space and CR-LF, mnemonics in any letter case, \<open>R\<close> or \<open>r\<close>, decimal or
    hexadecimal immediates, a comma or none behind the first operand, the last newline or not.
  \<^item> \<open>Inspect\<close> (\<open>cmd_inspect\<close>, \<open>cmd_inspect_diff\<close>, \<open>cmd_inspect_trace\<close>): the offline readers.
  \<^item> \<open>Workload\<close>, \<open>Bench\<close>, \<open>Rewind\<close>, \<open>Demo\<close> (\<open>cmd_benchmark\<close>, \<open>cmd_benchmark_dispatch_cmp\<close>,
    \<open>cmd_benchmark_backn\<close>, \<open>cmd_benchmark_back_sweep\<close>, \<open>run_builtin_demo\<close>): the benchmark program,
    its 9219 cycles derived in the instruction set, and the commands around it. \<open>RewindSteps\<close> follows
    the machine of the rewind benchmarks instruction by instruction, \<open>BackN\<close> and \<open>Sweep\<close> their rounds.
  \<^item> \<open>Cli\<close> (\<open>main\<close>) and \<open>CliProperties\<close>. \<open>EndToEnd\<close> runs what the assembler has written.

  \<^bold>\<open>What is proved.\<close> The properties, marked C and a number, stand with the component that they end in.
  \<^item> The engine: both dispatch paths compute the same; a run refines the instruction set, and a
    program that takes no input returns when the instruction set halts; the delta log undoes a whole
    run; memory access stays in the arena.
  \<^item> The files: traces and checkpoints are read back as written, exactly the well-formed ones
    are accepted, a torn checkpoint is refused, no frame is read outside the mapping; both branches
    of the trace code write the same file and read any file alike.
  \<^item> Recording: a replay of a recording is verified and ends in the same state with the same exit
    code; a checkpoint is taken just before its frame; \<open>restore\<close> continues a replay from it when the
    memory has not been stored to, and loses the stores otherwise; every frame of a recording can be
    saved at, and the restored run ends as the recording did; the trace reader accounts for every
    recorded input; the comparison of checkpoints misses no difference.
  \<^item> Snapshots: taking them does not disturb the run; the files are complete, and their deltas lead
    from the final memory back to the loaded program.
  \<^item> The debugger: \<open>back\<close> over the cycles of a \<open>step\<close> restores machine and memory, the ring stays within its
    bounds, breakpoints stop the machine before the instruction, \<open>step\<close> returns, and a batch session
    fails to return exactly when a \<open>step\<close> or \<open>continue\<close> of its script starts a run that never halts; a resumed session skips the instruction it stopped at; the first run of
    a session on a trace passes through the machines of the replay, and what it saves can be
    restored exactly when it stopped at the instruction that takes the next frame.
  \<^item> The assembler: every source file is assembled into its words, which the
    machine then fetches; \<open>asm\<close> and \<open>run\<close> end as the instruction set says of the source; a source error
    writes nothing and is reported with its line; register disassembly can be assembled again; what the assembler takes and
    refuses beyond the documented syntax.
  \<^item> The benchmarks: they pass their own checks. \<open>--bench-back\<close> completes inside its ring for the
    depths that do not land on the jump of the loop, and leaves the ring for all others; where it
    completes, its verdict is exact in spite of the roundings; every cell of \<open>--bench-back-sweep\<close>
    completes.
  \<^item> The command line: the demo passes its own checks; only the commands that are
    meant to write a file can; \<open>--seed\<close> takes exactly the 32-bit numbers.

  \<^bold>\<open>Bounds.\<close> A statement about termination gives the run as \<open>run_loop\<close> returning. The completeness
  of the snapshot files is stated for runs of fewer than \<open>2 ^ 32\<close> steps (a \<open>fuel_loop\<close> with that
  bound), because the counter that numbers the files has 32 bits, and for paths whose names fit the
  buffer of 512 bytes. The 9219 cycles of the benchmark program are proved by induction on its 1024
  rounds, not by evaluation.

  \<^bold>\<open>Not modelled.\<close> The effect of \<open>munmap\<close>, \<open>close\<close> and \<open>msync\<close>; files that change while the
  program runs; negative \<open>double\<close> values other than the -1.0 of a failed measurement, and the sign
  of zero, which never occur. Reading past the end of the snapshot ring, which \<open>--bench-back\<close> can do
  (its index wraps around for the depths 10, 19, 28, ..., 253), is the unspecified value of an index
  out of range: for those depths the rounds up to that read are followed, not beyond. An empty
  argument vector is not considered. \<open>std::atoi\<close> of a number that does not fit into an \<open>int\<close>, which
  the C standard leaves undefined, is \<open>undefined\<close> here.
\<close>

end
